(* ===== verification/Prelude.thy ===== *)
theory Prelude
  imports Main "HOL-Library.Word"
begin

text \<open>
  What every component shares: the names of Rust's machine integers, the
  \<^verbatim>\<open>io::Error\<close> values the code builds, the standard library's big-endian conversions
  (\<^verbatim>\<open>to_be_bytes\<close>, \<^verbatim>\<open>from_be_bytes\<close>), the overflow behaviour of Rust's arithmetic in
  its two build profiles, and generic lemmas on lists.
\<close>

named_theorems be_simps \<open>big-endian conversions\<close>

section \<open>Machine integers, byte strings and errors\<close>

type_synonym u8 = "8 word"
type_synonym u16 = "16 word"
type_synonym u32 = "32 word"
type_synonym u64 = "64 word"
type_synonym i64 = "64 word"
type_synonym u128 = "128 word"
type_synonym bytes = "u8 list"

text \<open>The \<^verbatim>\<open>io::ErrorKind\<close>s that the sources construct or compare with.\<close>

datatype error_kind =
    InvalidData | InvalidInput | UnexpectedEof | AddrInUse | BrokenPipe
  | ConnectionAborted | ConnectionRefused | OutOfMemory | WouldBlock
  | WriteZero | TimedOut | NotFound | PermissionDenied | Other

datatype io_error = IoError (kind: error_kind) (msg: string)

type_synonym 'a io_result = "io_error + 'a"

section \<open>Overflow in Rust arithmetic\<close>

text \<open>
  Rust's \<open>+\<close> and \<open><<\<close> panic on overflow when overflow checks are on (debug builds) and
  wrap when they are off (release builds): addition modulo the width, the shift amount
  masked to the width. The flag \<open>chk\<close> is the build profile; \<open>None\<close> is the panic.
\<close>

definition rust_add :: "bool \<Rightarrow> 'a::len word \<Rightarrow> 'a word \<Rightarrow> 'a word option" where
  "rust_add chk a b =
     (if chk \<and> 2 ^ LENGTH('a) \<le> unat a + unat b then None else Some (a + b))"

definition rust_shl :: "bool \<Rightarrow> 'a::len word \<Rightarrow> nat \<Rightarrow> 'a word option" where
  "rust_shl chk a n =
     (if n < LENGTH('a) then Some (push_bit n a)
      else if chk then None else Some (push_bit (n mod LENGTH('a)) a))"

section \<open>Big-endian byte strings\<close>

text \<open>
  \<open>be_digits n v\<close> are the \<open>n\<close> low base-256 digits of \<open>v\<close>, most significant first;
  \<open>be_val\<close> reads such a string back.
\<close>

fun be_digits :: "nat \<Rightarrow> nat \<Rightarrow> bytes" where
  "be_digits 0 v = []"
| "be_digits (Suc n) v = be_digits n (v div 256) @ [of_nat v]"

definition be_val :: "bytes \<Rightarrow> nat" where
  "be_val bs = foldl (\<lambda>a b. a * 256 + unat b) 0 bs"

definition to_be_bytes :: "nat \<Rightarrow> 'a::len word \<Rightarrow> bytes" where
  "to_be_bytes n w = be_digits n (unat w)"

definition from_be_bytes :: "bytes \<Rightarrow> 'a::len word" where
  "from_be_bytes bs = of_nat (be_val bs)"

lemma unat_byte_bound [simp]: "unat (b :: u8) < 256"
  using unsigned_less [of b, where 'a = nat] by simp

lemma be_val_Nil [simp]: "be_val [] = 0"
  by (simp add: be_val_def)

lemma be_val_snoc [simp]: "be_val (bs @ [b]) = be_val bs * 256 + unat b"
  by (simp add: be_val_def)

lemma length_be_digits [simp]: "length (be_digits n v) = n"
  by (induction n arbitrary: v) auto

lemma length_to_be_bytes [simp]: "length (to_be_bytes n w) = n"
  by (simp add: to_be_bytes_def)

lemma unat_of_nat_byte [simp]: "unat (of_nat v :: u8) = v mod 256"
  by (simp add: unat_of_nat)

lemma be_val_digits [be_simps]: "be_val (be_digits n v) = v mod 256 ^ n"
proof (induction n arbitrary: v)
  case 0
  then show ?case by simp
next
  case (Suc n)
  have "be_val (be_digits (Suc n) v) = (v div 256 mod 256 ^ n) * 256 + v mod 256"
    by (simp add: Suc.IH)
  also have "\<dots> = v mod (256 * 256 ^ n)"
    by (simp add: mod_mult2_eq)
  finally show ?case by simp
qed

lemma be_val_bound: "be_val bs < 256 ^ length bs"
proof (induction bs rule: rev_induct)
  case Nil
  then show ?case by simp
next
  case (snoc b bs)
  have "unat b < 256" by (rule unat_byte_bound)
  with snoc have "be_val bs * 256 + unat b < 256 ^ length bs * 256"
    by linarith
  then show ?case by (simp add: mult.commute)
qed

lemma be_digits_val [be_simps]: "length bs = n \<Longrightarrow> be_digits n (be_val bs) = bs"
proof (induction bs arbitrary: n rule: rev_induct)
  case Nil
  then show ?case by simp
next
  case (snoc b bs)
  then obtain m where n: "n = Suc m" and m: "length bs = m" by auto
  have b: "unat b < 256" by (rule unat_byte_bound)
  have d: "be_val (bs @ [b]) div 256 = be_val bs" using b by simp
  have "(of_nat (be_val (bs @ [b])) :: u8) = b"
    by (simp add: word_eq_iff_unsigned [where 'a = nat] unat_word_ariths)
  with snoc.IH [OF m] d n show ?case by (simp del: be_val_snoc)
qed

lemma from_to_be_bytes [be_simps]:
  fixes w :: "'a::len word"
  assumes "LENGTH('a) = 8 * n"
  shows "from_be_bytes (to_be_bytes n w) = w"
proof -
  have "unat w < 2 ^ LENGTH('a)" by (rule unsigned_less)
  also have "(2::nat) ^ LENGTH('a) = 256 ^ n"
    unfolding assms by (simp add: power_mult)
  finally show ?thesis
    by (simp add: from_be_bytes_def to_be_bytes_def be_val_digits)
qed

lemma unat_from_be_bytes:
  assumes "LENGTH('a::len) = 8 * length bs"
  shows "unat (from_be_bytes bs :: 'a word) = be_val bs"
proof -
  have "be_val bs < 2 ^ LENGTH('a)"
    using be_val_bound [of bs] unfolding assms by (simp add: power_mult)
  then show ?thesis by (simp add: from_be_bytes_def unat_of_nat)
qed

lemma to_from_be_bytes [be_simps]:
  assumes "LENGTH('a::len) = 8 * length bs"
  shows "to_be_bytes (length bs) (from_be_bytes bs :: 'a word) = bs"
  by (simp add: to_be_bytes_def unat_from_be_bytes [OF assms] be_digits_val)

section \<open>Masks and shifts\<close>

unbundle bit_operations_syntax

text \<open>Two words agree under a mask of high one bits iff they agree above the zero bits.\<close>

lemma and_high_mask_eq_iff:
  fixes a b :: "'a::len word"
  shows "(a AND push_bit k (- 1)) = (b AND push_bit k (- 1)) \<longleftrightarrow> unat a div 2 ^ k = unat b div 2 ^ k"
proof -
  have "(a AND push_bit k (- 1)) = (b AND push_bit k (- 1)) \<longleftrightarrow>
      (\<forall>n. k \<le> n \<and> n < LENGTH('a) \<longrightarrow> bit a n = bit b n)"
    by (auto simp: bit_eq_iff bit_simps)
  also have "\<dots> \<longleftrightarrow> (\<forall>n. bit a (k + n) = bit b (k + n))"
    by (metis bit_imp_le_length le_add1 le_add_diff_inverse linorder_not_less)
  also have "\<dots> \<longleftrightarrow> drop_bit k a = drop_bit k b"
  proof
    assume "\<forall>n. bit a (k + n) = bit b (k + n)"
    then show "drop_bit k a = drop_bit k b"
      by (auto intro!: bit_word_eqI simp: bit_drop_bit_eq)
  next
    assume "drop_bit k a = drop_bit k b"
    then have "bit (drop_bit k a) n = bit (drop_bit k b) n" for n by simp
    then show "\<forall>n. bit a (k + n) = bit b (k + n)" by (simp add: bit_drop_bit_eq)
  qed
  also have "\<dots> \<longleftrightarrow> unat (drop_bit k a) = unat (drop_bit k b)"
    by (simp add: word_eq_iff_unsigned [where 'a = nat])
  finally show ?thesis unfolding unat_drop_bit_eq by (simp only: drop_bit_eq_div)
qed

lemma rust_shl_minus1:
  "k < LENGTH('a) \<Longrightarrow> rust_shl chk (- 1 :: 'a::len word) k = Some (push_bit k (- 1))"
  by (simp add: rust_shl_def)

lemma unat_rsub_byte: "p < n \<Longrightarrow> unat (n - p :: u8) = unat n - unat p"
  by (simp add: unat_sub order_less_imp_le)

end
