(* ===== verification/Net_Addr.thy ===== *)
theory Net_Addr
  imports Prelude
begin

text \<open>
  Addresses. The standard library's \<^verbatim>\<open>IpAddr\<close> and \<^verbatim>\<open>SocketAddr\<close>, the address types of
  smoltcp's wire module as the sources build and match them, and the conversions between
  the two at the end of \<^verbatim>\<open>src/stack/mod.rs\<close>. An address is its value as an unsigned word;
  \<open>octets4\<close> and \<open>octets16\<close> are \<^verbatim>\<open>Ipv4Addr::octets\<close> and \<^verbatim>\<open>Ipv6Addr::octets\<close>.
\<close>

named_theorems addr_simps \<open>address conversions\<close>

section \<open>Standard library addresses\<close>

datatype ip_addr = V4 u32 | V6 u128

datatype socket_addr =
    SockV4 (v4_ip: u32) (v4_port: u16)
  | SockV6 (v6_ip: u128) (v6_port: u16) (flowinfo: u32) (scope_id: u32)

fun sa_ip :: "socket_addr \<Rightarrow> ip_addr" where
  "sa_ip (SockV4 ip p) = V4 ip"
| "sa_ip (SockV6 ip p f s) = V6 ip"

fun sa_port :: "socket_addr \<Rightarrow> u16" where
  "sa_port (SockV4 ip p) = p"
| "sa_port (SockV6 ip p f s) = p"

fun is_unspecified :: "ip_addr \<Rightarrow> bool" where
  "is_unspecified (V4 a) = (a = 0)"
| "is_unspecified (V6 a) = (a = 0)"

definition octets4 :: "u32 \<Rightarrow> bytes" where
  "octets4 a = to_be_bytes 4 a"

definition octets16 :: "u128 \<Rightarrow> bytes" where
  "octets16 a = to_be_bytes 16 a"

lemma length_octets [simp]: "length (octets4 a) = 4" "length (octets16 b) = 16"
  by (simp_all add: octets4_def octets16_def)

lemma from_octets4 [simp, addr_simps]: "from_be_bytes (octets4 a) = a"
  by (simp add: octets4_def from_to_be_bytes)

lemma from_octets16 [simp, addr_simps]: "from_be_bytes (octets16 a) = a"
  by (simp add: octets16_def from_to_be_bytes)

section \<open>smoltcp addresses and the conversions\<close>

datatype ip_address = Ipv4 u32 | Ipv6 u128

datatype ip_endpoint = IpEndpoint (ep_addr: ip_address) (ep_port: u16)

datatype ip_listen_endpoint =
  IpListenEndpoint (lep_addr: "ip_address option") (lep_port: u16)

text \<open>\<^verbatim>\<open>IpCidr\<close>: what \<^verbatim>\<open>cidr.address()\<close> and \<^verbatim>\<open>cidr.prefix_len()\<close> return.\<close>

datatype ip_cidr = IpCidr (cidr_address: ip_address) (cidr_prefix_len: u8)

fun addr_bits :: "ip_address \<Rightarrow> nat" where
  "addr_bits (Ipv4 _) = 32"
| "addr_bits (Ipv6 _) = 128"

fun ip_addr_to_smoltcp :: "ip_addr \<Rightarrow> ip_address" where
  "ip_addr_to_smoltcp (V4 v4) = Ipv4 (from_be_bytes (octets4 v4))"
| "ip_addr_to_smoltcp (V6 v6) = Ipv6 (from_be_bytes (octets16 v6))"

fun smoltcp_to_ip_addr :: "ip_address \<Rightarrow> ip_addr" where
  "smoltcp_to_ip_addr (Ipv4 v4) = V4 (from_be_bytes (octets4 v4))"
| "smoltcp_to_ip_addr (Ipv6 v6) = V6 (from_be_bytes (octets16 v6))"

fun make_socket_addr :: "ip_addr \<Rightarrow> u16 \<Rightarrow> socket_addr" where
  "make_socket_addr (V4 v4) port = SockV4 v4 port"
| "make_socket_addr (V6 v6) port = SockV6 v6 port 0 0"

definition socket_addr_to_endpoint :: "socket_addr \<Rightarrow> ip_endpoint" where
  "socket_addr_to_endpoint addr = IpEndpoint (ip_addr_to_smoltcp (sa_ip addr)) (sa_port addr)"

definition endpoint_to_socket_addr :: "ip_endpoint \<Rightarrow> socket_addr" where
  "endpoint_to_socket_addr ep = make_socket_addr (smoltcp_to_ip_addr (ep_addr ep)) (ep_port ep)"

definition socket_addr_to_listen_endpoint :: "socket_addr \<Rightarrow> ip_listen_endpoint" where
  "socket_addr_to_listen_endpoint addr =
     (let smoltcp_addr = ip_addr_to_smoltcp (sa_ip addr)
      in IpListenEndpoint (if is_unspecified (sa_ip addr) then None else Some smoltcp_addr)
           (sa_port addr))"

definition socket_addr_to_listen_endpoint_with_port ::
    "socket_addr \<Rightarrow> u16 \<Rightarrow> ip_listen_endpoint" where
  "socket_addr_to_listen_endpoint_with_port addr port =
     (let smoltcp_addr = ip_addr_to_smoltcp (sa_ip addr)
      in IpListenEndpoint (if is_unspecified (sa_ip addr) then None else Some smoltcp_addr) port)"

lemma smoltcp_ip_roundtrip [simp, addr_simps]:
  "smoltcp_to_ip_addr (ip_addr_to_smoltcp a) = a"
  by (cases a) simp_all

lemma ip_smoltcp_roundtrip [simp, addr_simps]:
  "ip_addr_to_smoltcp (smoltcp_to_ip_addr a) = a"
  by (cases a) simp_all

lemma ip_addr_to_smoltcp_inject [simp]:
  "ip_addr_to_smoltcp a = ip_addr_to_smoltcp b \<longleftrightarrow> a = b"
  by (metis smoltcp_ip_roundtrip)

lemma sa_make [simp]:
  "sa_ip (make_socket_addr ip p) = ip" "sa_port (make_socket_addr ip p) = p"
  by (cases ip; simp)+

lemma endpoint_roundtrip [simp, addr_simps]:
  "socket_addr_to_endpoint (endpoint_to_socket_addr ep) = ep"
  by (cases ep) (simp add: socket_addr_to_endpoint_def endpoint_to_socket_addr_def)

text \<open>
  The way there and back keeps the address and the port; only the flow label and the
  scope id of an IPv6 socket address are lost (set to 0).
\<close>

lemma socket_addr_roundtrip:
  "endpoint_to_socket_addr (socket_addr_to_endpoint a) = make_socket_addr (sa_ip a) (sa_port a)"
  by (simp add: socket_addr_to_endpoint_def endpoint_to_socket_addr_def)

lemma make_socket_addr_id:
  "make_socket_addr (sa_ip a) (sa_port a) = a \<longleftrightarrow>
     (\<forall>ip p f s. a = SockV6 ip p f s \<longrightarrow> f = 0 \<and> s = 0)"
  by (cases a) auto

lemma listen_endpoint_with_own_port:
  "socket_addr_to_listen_endpoint_with_port a (sa_port a) = socket_addr_to_listen_endpoint a"
  by (simp add: socket_addr_to_listen_endpoint_def socket_addr_to_listen_endpoint_with_port_def)

end
