(* ===== verification/Third_Party.thy ===== *)
theory Third_Party
  imports Net_Addr
begin

text \<open>
  The operations of tokio and smoltcp that the sources call, as records of functions.
  Every definition that calls one takes the record as an argument; nothing here says how
  they work. What a property relies on is one of the hypotheses below
  (\<open>mpsc_refines\<close>, \<open>socket_set_refines\<close>, \<open>tcp_refines\<close>, \<dots>), each of which states
  documented behaviour through a view of the library's private state.
\<close>

section \<open>tokio::sync::mpsc\<close>

datatype try_send_result = SendOk | SendFull | SendClosed

datatype 'a try_recv_result = RecvOk 'a | RecvEmpty | RecvDisconnected

text \<open>
  The sending and the receiving end of one channel share its state \<open>'c\<close>.
  \<open>try_reserve\<close> says whether \<^verbatim>\<open>try_reserve\<close> returns a permit, \<open>permit_send\<close> uses it.
\<close>

record ('c, 'a) mpsc =
  mpsc_channel :: "nat \<Rightarrow> 'c"
  try_send :: "'c \<Rightarrow> 'a \<Rightarrow> try_send_result \<times> 'c"
  try_recv :: "'c \<Rightarrow> 'a try_recv_result \<times> 'c"
  try_reserve :: "'c \<Rightarrow> bool"
  permit_send :: "'c \<Rightarrow> 'a \<Rightarrow> 'c"
  drop_sender :: "'c \<Rightarrow> 'c"
  drop_receiver :: "'c \<Rightarrow> 'c"

text \<open>The documented behaviour: a bounded first-in first-out queue with two ends.\<close>

record 'a chan =
  queue :: "'a list"
  capacity :: nat
  has_sender :: bool
  has_receiver :: bool

definition chan_new :: "nat \<Rightarrow> 'a chan" where
  "chan_new n = \<lparr>queue = [], capacity = n, has_sender = True, has_receiver = True\<rparr>"

definition chan_try_send :: "'a chan \<Rightarrow> 'a \<Rightarrow> try_send_result \<times> 'a chan" where
  "chan_try_send c a =
     (if \<not> has_receiver c then (SendClosed, c)
      else if capacity c \<le> length (queue c) then (SendFull, c)
      else (SendOk, c\<lparr>queue := queue c @ [a]\<rparr>))"

definition chan_try_recv :: "'a chan \<Rightarrow> 'a try_recv_result \<times> 'a chan" where
  "chan_try_recv c =
     (case queue c of
        x # xs \<Rightarrow> (RecvOk x, c\<lparr>queue := xs\<rparr>)
      | [] \<Rightarrow> (if has_sender c then RecvEmpty else RecvDisconnected, c))"

definition chan_try_reserve :: "'a chan \<Rightarrow> bool" where
  "chan_try_reserve c \<longleftrightarrow> has_receiver c \<and> length (queue c) < capacity c"

definition chan_permit_send :: "'a chan \<Rightarrow> 'a \<Rightarrow> 'a chan" where
  "chan_permit_send c a = c\<lparr>queue := queue c @ [a]\<rparr>"

definition chan_drop_sender :: "'a chan \<Rightarrow> 'a chan" where
  "chan_drop_sender c = c\<lparr>has_sender := False\<rparr>"

definition chan_drop_receiver :: "'a chan \<Rightarrow> 'a chan" where
  "chan_drop_receiver c = c\<lparr>has_receiver := False, queue := []\<rparr>"

text \<open>The channel library does, through \<open>view\<close>, what the bounded queue does.\<close>

definition mpsc_refines :: "('c, 'a) mpsc \<Rightarrow> ('c \<Rightarrow> 'a chan) \<Rightarrow> bool" where
  "mpsc_refines C view \<longleftrightarrow>
     (\<forall>n. view (mpsc_channel C n) = chan_new n) \<and>
     (\<forall>c a. apsnd view (try_send C c a) = chan_try_send (view c) a) \<and>
     (\<forall>c. apsnd view (try_recv C c) = chan_try_recv (view c)) \<and>
     (\<forall>c. try_reserve C c = chan_try_reserve (view c)) \<and>
     (\<forall>c a. view (permit_send C c a) = chan_permit_send (view c) a) \<and>
     (\<forall>c. view (drop_sender C c) = chan_drop_sender (view c)) \<and>
     (\<forall>c. view (drop_receiver C c) = chan_drop_receiver (view c))"

lemma mpsc_new: "mpsc_refines C view \<Longrightarrow> view (mpsc_channel C n) = chan_new n"
  by (simp add: mpsc_refines_def)

lemma mpsc_try_send:
  "mpsc_refines C view \<Longrightarrow> apsnd view (try_send C c a) = chan_try_send (view c) a"
  by (simp add: mpsc_refines_def)

lemma mpsc_try_recv: "mpsc_refines C view \<Longrightarrow> apsnd view (try_recv C c) = chan_try_recv (view c)"
  by (simp add: mpsc_refines_def)

lemma mpsc_try_reserve: "mpsc_refines C view \<Longrightarrow> try_reserve C c = chan_try_reserve (view c)"
  by (simp add: mpsc_refines_def)

lemma mpsc_permit_send:
  "mpsc_refines C view \<Longrightarrow> view (permit_send C c a) = chan_permit_send (view c) a"
  by (simp add: mpsc_refines_def)

lemma mpsc_drop:
  "mpsc_refines C view \<Longrightarrow> view (drop_sender C c) = chan_drop_sender (view c)"
  "mpsc_refines C view \<Longrightarrow> view (drop_receiver C c) = chan_drop_receiver (view c)"
  by (simp_all add: mpsc_refines_def)

lemmas mpsc_ops = mpsc_new mpsc_try_send mpsc_try_recv mpsc_try_reserve mpsc_permit_send mpsc_drop

text \<open>What one \<^verbatim>\<open>try_recv\<close> does to the queue.\<close>

lemma try_recv_cases [consumes 1, case_names ok empty disconnected]:
  assumes "mpsc_refines C view"
  obtains
    (ok) x c' xs where "try_recv C c = (RecvOk x, c')" "queue (view c) = x # xs"
      "view c' = (view c)\<lparr>queue := xs\<rparr>"
  | (empty) c' where "try_recv C c = (RecvEmpty, c')" "queue (view c) = []" "view c' = view c"
      "has_sender (view c)"
  | (disconnected) c' where "try_recv C c = (RecvDisconnected, c')" "queue (view c) = []"
      "view c' = view c" "\<not> has_sender (view c)"
proof -
  obtain r c' where r: "try_recv C c = (r, c')" by (cases "try_recv C c")
  then have "(r, view c') = chan_try_recv (view c)"
    using mpsc_try_recv [OF assms, of c] by simp
  with r show thesis
    by (cases "queue (view c)"; cases "has_sender (view c)")
       (auto simp: chan_try_recv_def intro: that)
qed

text \<open>An implementation of the interface: the documented queue itself.\<close>

definition chan_mpsc :: "('a chan, 'a) mpsc" where
  "chan_mpsc = \<lparr>mpsc_channel = chan_new, try_send = chan_try_send, try_recv = chan_try_recv,
     try_reserve = chan_try_reserve, permit_send = chan_permit_send,
     drop_sender = chan_drop_sender, drop_receiver = chan_drop_receiver\<rparr>"

lemma chan_mpsc_refines: "mpsc_refines chan_mpsc id"
  by (auto simp: mpsc_refines_def chan_mpsc_def apsnd_def map_prod_def split: prod.splits)

section \<open>smoltcp sockets\<close>

type_synonym handle = nat

datatype tcp_state =
    Closed | Listen | SynSent | SynReceived | Established | FinWait1 | FinWait2
  | CloseWait | Closing | LastAck | TimeWait

text \<open>
  \<open>tcp_send_slice\<close> returns the number of bytes taken (\<open>None\<close> for its error),
  \<open>tcp_recv_slice s m\<close> the bytes put into a buffer of \<open>m\<close> bytes. Errors of
  \<^verbatim>\<open>listen\<close> and \<^verbatim>\<open>bind\<close> are their printed text.
\<close>

record 'tcp tcp_api =
  tcp_new :: "nat \<Rightarrow> nat \<Rightarrow> 'tcp"
  tcp_listen :: "'tcp \<Rightarrow> ip_listen_endpoint \<Rightarrow> string + 'tcp"
  tcp_close :: "'tcp \<Rightarrow> 'tcp"
  tcp_sock_state :: "'tcp \<Rightarrow> tcp_state"
  tcp_remote_endpoint :: "'tcp \<Rightarrow> ip_endpoint option"
  tcp_local_endpoint :: "'tcp \<Rightarrow> ip_endpoint option"
  tcp_may_send :: "'tcp \<Rightarrow> bool"
  tcp_can_send :: "'tcp \<Rightarrow> bool"
  tcp_can_recv :: "'tcp \<Rightarrow> bool"
  tcp_send_slice :: "'tcp \<Rightarrow> bytes \<Rightarrow> nat option \<times> 'tcp"
  tcp_recv_slice :: "'tcp \<Rightarrow> nat \<Rightarrow> bytes option \<times> 'tcp"

record 'udp udp_api =
  udp_new :: "nat \<Rightarrow> nat \<Rightarrow> 'udp"
  udp_bind :: "'udp \<Rightarrow> ip_listen_endpoint \<Rightarrow> string + 'udp"
  udp_close :: "'udp \<Rightarrow> 'udp"
  udp_can_send :: "'udp \<Rightarrow> bool"
  udp_can_recv :: "'udp \<Rightarrow> bool"
  udp_send_slice :: "'udp \<Rightarrow> bytes \<Rightarrow> ip_endpoint \<Rightarrow> bool \<times> 'udp"
  udp_recv_slice :: "'udp \<Rightarrow> nat \<Rightarrow> (bytes \<times> ip_endpoint) option \<times> 'udp"

text \<open>
  \<^verbatim>\<open>SocketSet\<close>: \<open>get_tcp\<close> and \<open>get_udp\<close> are \<^verbatim>\<open>get_mut\<close> at the two socket types,
  \<open>None\<close> where it panics (no socket, or one of the other type); \<open>put_tcp\<close> and
  \<open>put_udp\<close> write back what was changed through the reference; \<^verbatim>\<open>remove\<close> panics on a
  handle that is not in the set.
\<close>

record ('set, 'tcp, 'udp) socket_set_api =
  add_tcp :: "'set \<Rightarrow> 'tcp \<Rightarrow> handle \<times> 'set"
  add_udp :: "'set \<Rightarrow> 'udp \<Rightarrow> handle \<times> 'set"
  get_tcp :: "'set \<Rightarrow> handle \<Rightarrow> 'tcp option"
  get_udp :: "'set \<Rightarrow> handle \<Rightarrow> 'udp option"
  put_tcp :: "'set \<Rightarrow> handle \<Rightarrow> 'tcp \<Rightarrow> 'set"
  put_udp :: "'set \<Rightarrow> handle \<Rightarrow> 'udp \<Rightarrow> 'set"
  remove_sock :: "'set \<Rightarrow> handle \<Rightarrow> 'set option"

datatype ('tcp, 'udp) sock = SockTcp 'tcp | SockUdp 'udp

text \<open>The socket set is a map from handles to sockets, and a new socket gets a new handle.\<close>

definition socket_set_refines ::
    "('set, 'tcp, 'udp) socket_set_api \<Rightarrow> ('set \<Rightarrow> handle \<Rightarrow> ('tcp, 'udp) sock option) \<Rightarrow> bool" where
  "socket_set_refines SS view \<longleftrightarrow>
     (\<forall>s t h s'. add_tcp SS s t = (h, s') \<longrightarrow>
        view s h = None \<and> view s' = (view s)(h \<mapsto> SockTcp t)) \<and>
     (\<forall>s u h s'. add_udp SS s u = (h, s') \<longrightarrow>
        view s h = None \<and> view s' = (view s)(h \<mapsto> SockUdp u)) \<and>
     (\<forall>s h. get_tcp SS s h = (case view s h of Some (SockTcp t) \<Rightarrow> Some t | _ \<Rightarrow> None)) \<and>
     (\<forall>s h. get_udp SS s h = (case view s h of Some (SockUdp u) \<Rightarrow> Some u | _ \<Rightarrow> None)) \<and>
     (\<forall>s h t. view s h \<noteq> None \<longrightarrow> view (put_tcp SS s h t) = (view s)(h \<mapsto> SockTcp t)) \<and>
     (\<forall>s h u. view s h \<noteq> None \<longrightarrow> view (put_udp SS s h u) = (view s)(h \<mapsto> SockUdp u)) \<and>
     (\<forall>s h. view s h \<noteq> None \<longrightarrow>
        (\<exists>s'. remove_sock SS s h = Some s' \<and> view s' = (view s)(h := None)))"

lemma set_add_tcp:
  "socket_set_refines SS view \<Longrightarrow> add_tcp SS s t = (h, s') \<Longrightarrow>
     view s h = None \<and> view s' = (view s)(h \<mapsto> SockTcp t)"
  by (simp add: socket_set_refines_def)

lemma set_add_udp:
  "socket_set_refines SS view \<Longrightarrow> add_udp SS s u = (h, s') \<Longrightarrow>
     view s h = None \<and> view s' = (view s)(h \<mapsto> SockUdp u)"
  by (simp add: socket_set_refines_def)

lemma set_get:
  "socket_set_refines SS view \<Longrightarrow> view s h = Some (SockTcp t) \<Longrightarrow> get_tcp SS s h = Some t"
  "socket_set_refines SS view \<Longrightarrow> view s h = Some (SockUdp u) \<Longrightarrow> get_udp SS s h = Some u"
  by (simp_all add: socket_set_refines_def)

lemma set_get_tcp_Some:
  "socket_set_refines SS view \<Longrightarrow> get_tcp SS s h = Some t \<longleftrightarrow> view s h = Some (SockTcp t)"
  by (auto simp: socket_set_refines_def split: option.splits sock.splits)

lemma set_get_udp_Some:
  "socket_set_refines SS view \<Longrightarrow> get_udp SS s h = Some u \<longleftrightarrow> view s h = Some (SockUdp u)"
  by (auto simp: socket_set_refines_def split: option.splits sock.splits)

lemma set_put:
  "socket_set_refines SS view \<Longrightarrow> view s h \<noteq> None \<Longrightarrow>
     view (put_tcp SS s h t) = (view s)(h \<mapsto> SockTcp t)"
  "socket_set_refines SS view \<Longrightarrow> view s h \<noteq> None \<Longrightarrow>
     view (put_udp SS s h u) = (view s)(h \<mapsto> SockUdp u)"
  by (simp_all add: socket_set_refines_def)

lemma set_remove:
  "socket_set_refines SS view \<Longrightarrow> view s h \<noteq> None \<Longrightarrow>
     \<exists>s'. remove_sock SS s h = Some s' \<and> view s' = (view s)(h := None)"
  by (simp add: socket_set_refines_def)

text \<open>The set as a counter and the map itself.\<close>

definition map_set :: "(nat \<times> (handle \<Rightarrow> ('tcp, 'udp) sock option), 'tcp, 'udp) socket_set_api" where
  "map_set = \<lparr>
     add_tcp = (\<lambda>(n, m) t. (n, (Suc n, m(n \<mapsto> SockTcp t)))),
     add_udp = (\<lambda>(n, m) u. (n, (Suc n, m(n \<mapsto> SockUdp u)))),
     get_tcp = (\<lambda>(n, m) h. case m h of Some (SockTcp t) \<Rightarrow> if h < n then Some t else None | _ \<Rightarrow> None),
     get_udp = (\<lambda>(n, m) h. case m h of Some (SockUdp u) \<Rightarrow> if h < n then Some u else None | _ \<Rightarrow> None),
     put_tcp = (\<lambda>(n, m) h t. (n, m(h \<mapsto> SockTcp t))),
     put_udp = (\<lambda>(n, m) h u. (n, m(h \<mapsto> SockUdp u))),
     remove_sock = (\<lambda>(n, m) h. if h < n \<and> m h \<noteq> None then Some (n, m(h := None)) else None)\<rparr>"

definition map_set_view ::
    "nat \<times> (handle \<Rightarrow> ('tcp, 'udp) sock option) \<Rightarrow> handle \<Rightarrow> ('tcp, 'udp) sock option" where
  "map_set_view s h = (if h < fst s then snd s h else None)"

lemma map_set_refines: "socket_set_refines map_set map_set_view"
  unfolding socket_set_refines_def
  apply (auto simp: map_set_def map_set_view_def fun_eq_iff split: option.splits sock.splits)
  subgoal for n m h y by (rule exI [of _ "m(h := None)"]) auto
  done

subsection \<open>The TCP socket\<close>

text \<open>
  What smoltcp documents of a TCP socket, as far as the stack task sees it: a state, a
  bounded transmit buffer that \<^verbatim>\<open>send_slice\<close> appends to, a receive buffer that
  \<^verbatim>\<open>recv_slice\<close> takes from, and the endpoints. Only polling the interface moves octets
  between the buffers and the network.
\<close>

record tcp_sock =
  sk_state :: tcp_state
  sk_tx :: bytes
  sk_tx_cap :: nat
  sk_rx :: bytes
  sk_rx_cap :: nat
  sk_listen :: "ip_listen_endpoint option"
  sk_remote :: "ip_endpoint option"
  sk_local :: "ip_endpoint option"

definition sk_new :: "nat \<Rightarrow> nat \<Rightarrow> tcp_sock" where
  "sk_new r t = \<lparr>sk_state = Closed, sk_tx = [], sk_tx_cap = t, sk_rx = [], sk_rx_cap = r,
     sk_listen = None, sk_remote = None, sk_local = None\<rparr>"

fun closing_state :: "tcp_state \<Rightarrow> tcp_state" where
  "closing_state Listen = Closed"
| "closing_state SynSent = Closed"
| "closing_state SynReceived = FinWait1"
| "closing_state Established = FinWait1"
| "closing_state CloseWait = LastAck"
| "closing_state st = st"

definition sk_close :: "tcp_sock \<Rightarrow> tcp_sock" where
  "sk_close s = s\<lparr>sk_state := closing_state (sk_state s)\<rparr>"

definition sk_may_send :: "tcp_sock \<Rightarrow> bool" where
  "sk_may_send s \<longleftrightarrow> sk_state s = Established \<or> sk_state s = CloseWait"

definition sk_can_send :: "tcp_sock \<Rightarrow> bool" where
  "sk_can_send s \<longleftrightarrow> sk_may_send s \<and> length (sk_tx s) < sk_tx_cap s"

definition sk_send_slice :: "tcp_sock \<Rightarrow> bytes \<Rightarrow> nat option \<times> tcp_sock" where
  "sk_send_slice s d =
     (if sk_may_send s then
        (let n = min (length d) (sk_tx_cap s - length (sk_tx s))
         in (Some n, s\<lparr>sk_tx := sk_tx s @ take n d\<rparr>))
      else (None, s))"

definition sk_recv_slice :: "tcp_sock \<Rightarrow> nat \<Rightarrow> bytes option \<times> tcp_sock" where
  "sk_recv_slice s m = (Some (take m (sk_rx s)), s\<lparr>sk_rx := drop m (sk_rx s)\<rparr>)"

text \<open>
  The TCP sockets behave so through \<open>view\<close>. Listening on a new socket succeeds at every
  port but 0; \<^verbatim>\<open>recv_slice\<close> is constrained where there is something to receive.
\<close>

definition tcp_refines :: "'tcp tcp_api \<Rightarrow> ('tcp \<Rightarrow> tcp_sock) \<Rightarrow> bool" where
  "tcp_refines T view \<longleftrightarrow>
     (\<forall>r t. view (tcp_new T r t) = sk_new r t) \<and>
     (\<forall>r t ep. lep_port ep \<noteq> 0 \<longrightarrow>
        (\<exists>s. tcp_listen T (tcp_new T r t) ep = Inr s \<and>
             view s = (sk_new r t)\<lparr>sk_state := Listen, sk_listen := Some ep\<rparr>)) \<and>
     (\<forall>s. view (tcp_close T s) = sk_close (view s)) \<and>
     (\<forall>s. tcp_sock_state T s = sk_state (view s)) \<and>
     (\<forall>s. tcp_remote_endpoint T s = sk_remote (view s)) \<and>
     (\<forall>s. tcp_local_endpoint T s = sk_local (view s)) \<and>
     (\<forall>s. tcp_may_send T s = sk_may_send (view s)) \<and>
     (\<forall>s. tcp_can_send T s = sk_can_send (view s)) \<and>
     (\<forall>s. tcp_can_recv T s = (sk_rx (view s) \<noteq> [])) \<and>
     (\<forall>s d. apsnd view (tcp_send_slice T s d) = sk_send_slice (view s) d) \<and>
     (\<forall>s m. sk_rx (view s) \<noteq> [] \<longrightarrow>
        apsnd view (tcp_recv_slice T s m) = sk_recv_slice (view s) m)"

lemma tcp_listen_new:
  "tcp_refines T view \<Longrightarrow> lep_port ep \<noteq> 0 \<Longrightarrow>
     \<exists>s. tcp_listen T (tcp_new T r t) ep = Inr s \<and>
         view s = (sk_new r t)\<lparr>sk_state := Listen, sk_listen := Some ep\<rparr>"
  by (simp add: tcp_refines_def)

lemma tcp_observe:
  "tcp_refines T view \<Longrightarrow> view (tcp_new T r t) = sk_new r t"
  "tcp_refines T view \<Longrightarrow> view (tcp_close T s) = sk_close (view s)"
  "tcp_refines T view \<Longrightarrow> tcp_sock_state T s = sk_state (view s)"
  "tcp_refines T view \<Longrightarrow> tcp_remote_endpoint T s = sk_remote (view s)"
  "tcp_refines T view \<Longrightarrow> tcp_local_endpoint T s = sk_local (view s)"
  "tcp_refines T view \<Longrightarrow> tcp_may_send T s = sk_may_send (view s)"
  "tcp_refines T view \<Longrightarrow> tcp_can_send T s = sk_can_send (view s)"
  "tcp_refines T view \<Longrightarrow> tcp_can_recv T s = (sk_rx (view s) \<noteq> [])"
  by (simp_all add: tcp_refines_def)

lemma tcp_send_slice_view:
  assumes "tcp_refines T view" and "sk_may_send (view s)"
  obtains s' where "tcp_send_slice T s d = (Some (min (length d) (sk_tx_cap (view s) - length (sk_tx (view s)))), s')"
    "view s' = (view s)\<lparr>sk_tx := sk_tx (view s) @ take (sk_tx_cap (view s) - length (sk_tx (view s))) d\<rparr>"
proof -
  from assms(1) have "apsnd view (tcp_send_slice T s d) = sk_send_slice (view s) d"
    by (simp add: tcp_refines_def)
  with assms(2) show thesis
    by (cases "tcp_send_slice T s d") (auto simp: sk_send_slice_def Let_def min_def intro!: that)
qed

lemma tcp_recv_slice_view:
  assumes "tcp_refines T view" and "sk_rx (view s) \<noteq> []"
  obtains s' where "tcp_recv_slice T s m = (Some (take m (sk_rx (view s))), s')"
    "view s' = (view s)\<lparr>sk_rx := drop m (sk_rx (view s))\<rparr>"
proof -
  from assms have "apsnd view (tcp_recv_slice T s m) = sk_recv_slice (view s) m"
    by (simp add: tcp_refines_def)
  then show thesis
    by (cases "tcp_recv_slice T s m") (auto simp: sk_recv_slice_def intro!: that)
qed

text \<open>An implementation of the interface: the documented socket itself.\<close>

definition sk_tcp :: "tcp_sock tcp_api" where
  "sk_tcp = \<lparr>tcp_new = sk_new,
     tcp_listen = (\<lambda>s ep. if lep_port ep = 0 then Inl ''unaddressable''
                          else Inr (s\<lparr>sk_state := Listen, sk_listen := Some ep\<rparr>)),
     tcp_close = sk_close, tcp_sock_state = sk_state, tcp_remote_endpoint = sk_remote,
     tcp_local_endpoint = sk_local, tcp_may_send = sk_may_send, tcp_can_send = sk_can_send,
     tcp_can_recv = (\<lambda>s. sk_rx s \<noteq> []), tcp_send_slice = sk_send_slice,
     tcp_recv_slice = sk_recv_slice\<rparr>"

lemma sk_tcp_refines: "tcp_refines sk_tcp id"
  by (auto simp: tcp_refines_def sk_tcp_def apsnd_def map_prod_def split: prod.splits)

subsection \<open>The UDP socket\<close>

text \<open>
  Packets in and packets out. \<^verbatim>\<open>send_slice\<close> may refuse a packet, and then changes nothing;
  \<^verbatim>\<open>recv_slice\<close> takes the next packet, and fails when the buffer is too short for it.
\<close>

record udp_sock =
  uk_tx :: "(bytes \<times> ip_endpoint) list"
  uk_rx :: "(bytes \<times> ip_endpoint) list"
  uk_bound :: "ip_listen_endpoint option"

definition uk_recv_slice :: "udp_sock \<Rightarrow> nat \<Rightarrow> (bytes \<times> ip_endpoint) option \<times> udp_sock" where
  "uk_recv_slice s m =
     (case uk_rx s of
        [] \<Rightarrow> (None, s)
      | (d, ep) # ps \<Rightarrow>
          (if length d \<le> m then Some (d, ep) else None, s\<lparr>uk_rx := ps\<rparr>))"

definition udp_refines :: "'udp udp_api \<Rightarrow> ('udp \<Rightarrow> udp_sock) \<Rightarrow> bool" where
  "udp_refines U view \<longleftrightarrow>
     (\<forall>s d ep. view (snd (udp_send_slice U s d ep)) =
        (if fst (udp_send_slice U s d ep) then (view s)\<lparr>uk_tx := uk_tx (view s) @ [(d, ep)]\<rparr>
         else view s)) \<and>
     (\<forall>s. udp_can_recv U s = (uk_rx (view s) \<noteq> [])) \<and>
     (\<forall>s m. apsnd view (udp_recv_slice U s m) = uk_recv_slice (view s) m) \<and>
     (\<forall>s. uk_tx (view (udp_close U s)) = [] \<and> uk_rx (view (udp_close U s)) = [])"

lemma udp_observe:
  "udp_refines U view \<Longrightarrow> udp_can_recv U s = (uk_rx (view s) \<noteq> [])"
  "udp_refines U view \<Longrightarrow> apsnd view (udp_recv_slice U s m) = uk_recv_slice (view s) m"
  "udp_refines U view \<Longrightarrow> udp_send_slice U s d ep = (b, s') \<Longrightarrow>
     view s' = (if b then (view s)\<lparr>uk_tx := uk_tx (view s) @ [(d, ep)]\<rparr> else view s)"
    apply (simp add: udp_refines_def)
   apply (simp add: udp_refines_def)
  unfolding udp_refines_def by (metis fst_conv snd_conv)

text \<open>An implementation with room for everything addressed to a nonzero port.\<close>

definition uk_udp :: "udp_sock udp_api" where
  "uk_udp = \<lparr>udp_new = (\<lambda>m n. \<lparr>uk_tx = [], uk_rx = [], uk_bound = None\<rparr>),
     udp_bind = (\<lambda>s ep. if lep_port ep = 0 then Inl ''unaddressable'' else Inr (s\<lparr>uk_bound := Some ep\<rparr>)),
     udp_close = (\<lambda>s. \<lparr>uk_tx = [], uk_rx = [], uk_bound = None\<rparr>),
     udp_can_send = (\<lambda>s. uk_bound s \<noteq> None),
     udp_can_recv = (\<lambda>s. uk_rx s \<noteq> []),
     udp_send_slice = (\<lambda>s d ep. if ep_port ep = 0 then (False, s) else (True, s\<lparr>uk_tx := uk_tx s @ [(d, ep)]\<rparr>)),
     udp_recv_slice = uk_recv_slice\<rparr>"

lemma uk_udp_refines: "udp_refines uk_udp id"
  by (auto simp: udp_refines_def uk_udp_def apsnd_def map_prod_def split: prod.splits)

section \<open>smoltcp interface\<close>

text \<open>
  \<open>tcp_connect\<close> is \<^verbatim>\<open>socket.connect(iface.context(), remote, local)\<close>. \<open>cidr_new\<close> is
  \<^verbatim>\<open>IpCidr::new\<close>, \<open>None\<close> where it panics (a prefix longer than the address).
  \<open>set_ip_addrs\<close> is what \<^verbatim>\<open>update_ip_addrs\<close> does with the list its closure leaves
  behind, \<open>None\<close> where it panics on an address it does not allow; \<open>addrs_capacity\<close> is
  the fixed capacity of that list. The two routes are \<open>None\<close> where the route table is
  full.
\<close>

record ('ifc, 'tcp) iface_api =
  iface_new :: "bytes \<Rightarrow> i64 \<Rightarrow> 'ifc"
  add_default_ipv4_route :: "'ifc \<Rightarrow> ip_address \<Rightarrow> 'ifc option"
  add_default_ipv6_route :: "'ifc \<Rightarrow> ip_address \<Rightarrow> 'ifc option"
  set_any_ip :: "'ifc \<Rightarrow> bool \<Rightarrow> 'ifc"
  tcp_connect ::
    "'ifc \<Rightarrow> 'tcp \<Rightarrow> ip_endpoint \<Rightarrow> ip_listen_endpoint \<Rightarrow> (string + 'tcp) \<times> 'ifc"
  cidr_new :: "ip_address \<Rightarrow> u8 \<Rightarrow> ip_cidr option"
  ip_addrs :: "'ifc \<Rightarrow> ip_cidr list"
  addrs_capacity :: nat
  set_ip_addrs :: "'ifc \<Rightarrow> ip_cidr list \<Rightarrow> 'ifc option"

text \<open>
  What smoltcp documents of the address list: the list starts empty, an update stores the
  list it was given unless an address is not a unicast one (or unspecified), and only
  \<^verbatim>\<open>update_ip_addrs\<close> changes it. \<^verbatim>\<open>IpCidr::new\<close> keeps its arguments and panics exactly
  when the prefix is longer than the address.
\<close>

definition iface_refines :: "('ifc, 'tcp) iface_api \<Rightarrow> (ip_address \<Rightarrow> bool) \<Rightarrow> bool" where
  "iface_refines I allowed \<longleftrightarrow>
     (\<forall>a p. cidr_new I a p = (if unat p \<le> addr_bits a then Some (IpCidr a p) else None)) \<and>
     (\<forall>ifc as. if \<forall>a \<in> set as. allowed (cidr_address a)
        then \<exists>ifc'. set_ip_addrs I ifc as = Some ifc' \<and> ip_addrs I ifc' = as
        else set_ip_addrs I ifc as = None) \<and>
     (\<forall>ifc s rem loc. ip_addrs I (snd (tcp_connect I ifc s rem loc)) = ip_addrs I ifc) \<and>
     (\<forall>m t. ip_addrs I (iface_new I m t) = []) \<and>
     (\<forall>ifc a ifc'. add_default_ipv4_route I ifc a = Some ifc' \<longrightarrow> ip_addrs I ifc' = ip_addrs I ifc) \<and>
     (\<forall>ifc a ifc'. add_default_ipv6_route I ifc a = Some ifc' \<longrightarrow> ip_addrs I ifc' = ip_addrs I ifc) \<and>
     (\<forall>ifc b. ip_addrs I (set_any_ip I ifc b) = ip_addrs I ifc)"

lemma iface_cidr:
  "iface_refines I allowed \<Longrightarrow>
     cidr_new I a p = (if unat p \<le> addr_bits a then Some (IpCidr a p) else None)"
  by (simp add: iface_refines_def)

lemma iface_set_addrs:
  assumes "iface_refines I allowed" and "\<forall>a \<in> set as. allowed (cidr_address a)"
  obtains ifc' where "set_ip_addrs I ifc as = Some ifc'" "ip_addrs I ifc' = as"
proof -
  from assms(1) have "if \<forall>a \<in> set as. allowed (cidr_address a)
        then \<exists>ifc'. set_ip_addrs I ifc as = Some ifc' \<and> ip_addrs I ifc' = as
        else set_ip_addrs I ifc as = None"
    by (simp add: iface_refines_def)
  with assms(2) that show thesis by auto
qed

lemma iface_set_addrs_Some:
  assumes "iface_refines I allowed" and "set_ip_addrs I ifc as = Some ifc'"
  shows "ip_addrs I ifc' = as \<and> (\<forall>a \<in> set as. allowed (cidr_address a))"
proof -
  from assms(1) have "if \<forall>a \<in> set as. allowed (cidr_address a)
        then \<exists>ifc'. set_ip_addrs I ifc as = Some ifc' \<and> ip_addrs I ifc' = as
        else set_ip_addrs I ifc as = None"
    by (simp add: iface_refines_def)
  with assms(2) show ?thesis by (auto split: if_splits)
qed

text \<open>
  An implementation whose state is the address list; connecting succeeds from a closed
  socket to a nonzero port.
\<close>

definition list_iface :: "(ip_cidr list, tcp_sock) iface_api" where
  "list_iface = \<lparr>iface_new = (\<lambda>m t. []), add_default_ipv4_route = (\<lambda>ifc a. Some ifc),
     add_default_ipv6_route = (\<lambda>ifc a. Some ifc), set_any_ip = (\<lambda>ifc b. ifc),
     tcp_connect = (\<lambda>ifc s rem loc.
       (if ep_port rem = 0 then Inl ''unaddressable''
        else Inr (s\<lparr>sk_state := SynSent, sk_remote := Some rem\<rparr>), ifc)),
     cidr_new = (\<lambda>a p. if unat p \<le> addr_bits a then Some (IpCidr a p) else None),
     ip_addrs = (\<lambda>ifc. ifc), addrs_capacity = 2,
     set_ip_addrs = (\<lambda>ifc as. Some as)\<rparr>"

lemma list_iface_refines: "iface_refines list_iface (\<lambda>a. True)"
  by (simp add: iface_refines_def list_iface_def)

section \<open>Polling the interface\<close>

text \<open>
  \<^verbatim>\<open>poll_delay\<close>, \<^verbatim>\<open>poll_ingress_single\<close> and \<^verbatim>\<open>poll_egress\<close>: the calls that move
  packets between the device, the interface and the sockets. A timestamp is in
  microseconds.
\<close>

datatype ingress_result = IngressNone | PacketProcessed | IngressSocketStateChanged

datatype poll_result = PollNone | PollSocketStateChanged

record ('ifc, 'set, 'dev) poll_api =
  poll_delay :: "'ifc \<Rightarrow> i64 \<Rightarrow> 'set \<Rightarrow> u64 option"
  poll_ingress_single :: "i64 \<Rightarrow> 'ifc \<times> 'dev \<times> 'set \<Rightarrow> ingress_result \<times> 'ifc \<times> 'dev \<times> 'set"
  poll_egress :: "i64 \<Rightarrow> 'ifc \<times> 'dev \<times> 'set \<Rightarrow> poll_result \<times> 'ifc \<times> 'dev \<times> 'set"

text \<open>
  Polling neither adds nor removes sockets nor changes the type of one, and leaves the
  interface's addresses alone.
\<close>

definition same_sockets ::
    "(handle \<Rightarrow> ('tcp, 'udp) sock option) \<Rightarrow> (handle \<Rightarrow> ('tcp, 'udp) sock option) \<Rightarrow> bool" where
  "same_sockets v v' \<longleftrightarrow>
     (\<forall>h. (case v h of
             None \<Rightarrow> v' h = None
           | Some (SockTcp t) \<Rightarrow> (\<exists>t'. v' h = Some (SockTcp t'))
           | Some (SockUdp u) \<Rightarrow> (\<exists>u'. v' h = Some (SockUdp u'))))"

definition poll_refines ::
    "('ifc, 'set, 'dev) poll_api \<Rightarrow> ('ifc, 'tcp) iface_api \<Rightarrow>
     ('set \<Rightarrow> handle \<Rightarrow> ('tcp, 'udp) sock option) \<Rightarrow> bool" where
  "poll_refines P I view \<longleftrightarrow>
     (\<forall>t ifc dev ss r ifc' dev' ss'. poll_ingress_single P t (ifc, dev, ss) = (r, ifc', dev', ss') \<longrightarrow>
        same_sockets (view ss) (view ss') \<and> ip_addrs I ifc' = ip_addrs I ifc) \<and>
     (\<forall>t ifc dev ss r ifc' dev' ss'. poll_egress P t (ifc, dev, ss) = (r, ifc', dev', ss') \<longrightarrow>
        same_sockets (view ss) (view ss') \<and> ip_addrs I ifc' = ip_addrs I ifc)"

text \<open>A network on which nothing happens.\<close>

definition idle_poll :: "('ifc, 'set, 'dev) poll_api" where
  "idle_poll = \<lparr>poll_delay = (\<lambda>ifc t ss. None),
     poll_ingress_single = (\<lambda>t x. (IngressNone, x)), poll_egress = (\<lambda>t x. (PollNone, x))\<rparr>"

lemma same_sockets_refl [simp]: "same_sockets v v"
  by (auto simp: same_sockets_def split: option.split sock.split)

lemma same_sockets_trans:
  assumes "same_sockets u v" and "same_sockets v w"
  shows "same_sockets u w"
  unfolding same_sockets_def
proof
  fix h
  from assms have "(case u h of None \<Rightarrow> v h = None | Some (SockTcp t) \<Rightarrow> (\<exists>t'. v h = Some (SockTcp t'))
      | Some (SockUdp x) \<Rightarrow> (\<exists>x'. v h = Some (SockUdp x')))"
    "(case v h of None \<Rightarrow> w h = None | Some (SockTcp t) \<Rightarrow> (\<exists>t'. w h = Some (SockTcp t'))
      | Some (SockUdp x) \<Rightarrow> (\<exists>x'. w h = Some (SockUdp x')))"
    by (simp_all add: same_sockets_def)
  then show "case u h of None \<Rightarrow> w h = None | Some (SockTcp t) \<Rightarrow> (\<exists>t'. w h = Some (SockTcp t'))
      | Some (SockUdp x) \<Rightarrow> (\<exists>x'. w h = Some (SockUdp x'))"
    by (auto split: option.splits sock.splits)
qed

lemma idle_poll_refines: "poll_refines idle_poll I view"
  by (simp add: poll_refines_def idle_poll_def)

end
