(* ===== verification/Hash_Map.thy ===== *)
theory Hash_Map
  imports Prelude "HOL-Library.AList" "HOL-Library.Multiset" "HOL-Library.Monad_Syntax"
begin

text \<open>
  The standard library's \<^verbatim>\<open>HashMap\<close> as an association list with distinct keys. The list
  order carries no meaning: code that iterates over a map takes the iteration order as a
  parameter \<open>ord\<close>, any function that permutes a list of keys.
\<close>

named_theorems hm_simps \<open>lookups after updates of a hash map\<close>

type_synonym ('k, 'v) hash_map = "('k \<times> 'v) list"

definition hm_insert :: "'k \<Rightarrow> 'v \<Rightarrow> ('k, 'v) hash_map \<Rightarrow> ('k, 'v) hash_map" where
  "hm_insert k v m = AList.update k v m"

definition hm_remove :: "'k \<Rightarrow> ('k, 'v) hash_map \<Rightarrow> ('k, 'v) hash_map" where
  "hm_remove k m = AList.delete k m"

abbreviation hm_keys :: "('k, 'v) hash_map \<Rightarrow> 'k list" where
  "hm_keys m \<equiv> map fst m"

definition hm_ok :: "('k, 'v) hash_map \<Rightarrow> bool" where
  "hm_ok m \<longleftrightarrow> distinct (hm_keys m)"

text \<open>An iteration order: the same keys, in whatever order.\<close>

definition any_order :: "('k list \<Rightarrow> 'k list) \<Rightarrow> bool" where
  "any_order ord \<longleftrightarrow> (\<forall>ks. mset (ord ks) = mset ks)"

text \<open>The values, in an iteration order: what \<^verbatim>\<open>drain\<close> yields and what a drop visits.\<close>

definition hm_drain :: "('k list \<Rightarrow> 'k list) \<Rightarrow> ('k, 'v) hash_map \<Rightarrow> 'v list" where
  "hm_drain ord m = map (the \<circ> map_of m) (ord (hm_keys m))"

text \<open>A loop over a list of keys that threads a state; \<open>None\<close> ends it.\<close>

fun for_handles :: "('k \<Rightarrow> 's \<Rightarrow> 's option) \<Rightarrow> 'k list \<Rightarrow> 's \<Rightarrow> 's option" where
  "for_handles f [] s = Some s"
| "for_handles f (h # hs) s = do { s1 \<leftarrow> f h s; for_handles f hs s1 }"

lemma for_handles_invariant:
  assumes "for_handles f hs s = Some s'" and "P s"
    and "\<And>h s s'. P s \<Longrightarrow> f h s = Some s' \<Longrightarrow> P s'"
  shows "P s'"
  using assms(1,2)
  by (induction hs arbitrary: s) (auto simp: bind_eq_Some_conv intro: assms(3))

lemma for_handles_total:
  assumes "P s" and "\<And>h s. h \<in> set hs \<Longrightarrow> P s \<Longrightarrow> \<exists>s'. f h s = Some s' \<and> P s'"
  shows "\<exists>s'. for_handles f hs s = Some s' \<and> P s'"
  using assms
proof (induction hs arbitrary: s)
  case Nil
  then show ?case by simp
next
  case (Cons h hs)
  then obtain s1 where "f h s = Some s1" "P s1" by (metis list.set_intros(1))
  with Cons show ?case by simp
qed

lemma map_of_hm_insert [hm_simps]: "map_of (hm_insert k v m) = (map_of m)(k \<mapsto> v)"
  by (simp add: hm_insert_def update_conv')

lemma map_of_hm_remove [hm_simps]: "map_of (hm_remove k m) = (map_of m)(k := None)"
  by (simp add: hm_remove_def delete_conv')

lemma hm_ok_Nil [simp]: "hm_ok []"
  by (simp add: hm_ok_def)

lemma hm_ok_insert [simp]: "hm_ok m \<Longrightarrow> hm_ok (hm_insert k v m)"
  by (simp add: hm_ok_def hm_insert_def distinct_update)

lemma hm_ok_remove [simp]: "hm_ok m \<Longrightarrow> hm_ok (hm_remove k m)"
  by (simp add: hm_ok_def hm_remove_def distinct_delete)

lemma hm_insert_fresh: "map_of m k = None \<Longrightarrow> hm_insert k v m = m @ [(k, v)]"
  by (simp add: hm_insert_def update_nonempty map_of_eq_None_iff)
     (induction m, auto)

lemma hm_remove_fresh [simp]: "map_of m k = None \<Longrightarrow> hm_remove k m = m"
  by (simp add: hm_remove_def delete_notin_dom dom_map_of_conv_image_fst map_of_eq_None_iff)

lemma hm_values_remove:
  "hm_ok m \<Longrightarrow> map_of m k = Some v \<Longrightarrow>
     mset (map snd m) = add_mset v (mset (map snd (hm_remove k m)))"
proof (induction m)
  case Nil
  then show ?case by simp
next
  case (Cons a m)
  obtain k' v' where a: "a = (k', v')" by (cases a)
  show ?case
  proof (cases "k' = k")
    case True
    with Cons.prems a have "map_of m k = None"
      by (auto simp: hm_ok_def map_of_eq_None_iff)
    then have "hm_remove k m = m" by simp
    with True a Cons.prems show ?thesis by (simp add: hm_remove_def)
  next
    case False
    with Cons a show ?thesis by (simp add: hm_ok_def hm_remove_def)
  qed
qed

lemma hm_values_insert:
  "hm_ok m \<Longrightarrow> map_of m k = Some v' \<Longrightarrow>
     add_mset v' (mset (map snd (hm_insert k v m))) = add_mset v (mset (map snd m))"
proof (induction m)
  case Nil
  then show ?case by simp
next
  case (Cons a m)
  then show ?case
    by (cases a) (auto simp: hm_ok_def hm_insert_def add_mset_commute)
qed

lemma any_order_keys:
  "any_order ord \<Longrightarrow> hm_ok m \<Longrightarrow> distinct (ord (hm_keys m)) \<and> set (ord (hm_keys m)) = dom (map_of m)"
  unfolding any_order_def hm_ok_def
  by (metis dom_map_of_conv_image_fst list.set_map mset_eq_imp_distinct_iff set_mset_mset)

lemma mset_hm_drain:
  assumes "any_order ord" and "hm_ok m"
  shows "mset (hm_drain ord m) = mset (map snd m)"
proof -
  have "mset (hm_drain ord m) = image_mset (the \<circ> map_of m) (mset (hm_keys m))"
    using assms(1) by (simp add: hm_drain_def any_order_def)
  also have "\<dots> = mset (map (the \<circ> map_of m \<circ> fst) m)" by (simp add: image_mset.compositionality)
  also have "map (the \<circ> map_of m \<circ> fst) m = map snd m"
    using assms(2) by (auto simp: hm_ok_def map_of_is_SomeI)
  finally show ?thesis .
qed

lemma any_order_Nil: "any_order ord \<Longrightarrow> ord [] = []"
  unfolding any_order_def by (metis mset.simps(1) mset_zero_iff)

end
