(* ===== verification/Stack_State.thy ===== *)
theory Stack_State
  imports Third_Party Hash_Map "HOL-Library.Monad_Syntax"
begin

text \<open>
  The data of the stack task, \<^verbatim>\<open>src/stack/mod.rs\<close>: its constants, the per-socket
  channels, the commands it receives, its pending operations and listeners, and the local
  variables of \<^verbatim>\<open>run_stack\<close> as one record. The channels between the application and the
  stack task are shared by their two ends, so they live in a store, and the ends are
  numbers. A oneshot response sender is a number too: what the task does with it, sending
  an answer or dropping it, is appended to \<open>events\<close>.
\<close>

section \<open>Constants\<close>

definition INGRESS_BATCH_SIZE :: nat where "INGRESS_BATCH_SIZE = 256"
definition TCP_SOCKET_BUFFER_SIZE :: nat where "TCP_SOCKET_BUFFER_SIZE = 65535"
definition UDP_PACKET_BUFFER_SIZE :: nat where "UDP_PACKET_BUFFER_SIZE = 65535"
definition UDP_READ_BUF_SIZE :: nat where "UDP_READ_BUF_SIZE = 9216"
definition UDP_PACKET_METADATA_SLOTS :: nat where "UDP_PACKET_METADATA_SLOTS = 256"
definition EPHEMERAL_PORT_START :: u16 where "EPHEMERAL_PORT_START = 49152"
definition MAX_POLL_INTERVAL_MS :: u64 where "MAX_POLL_INTERVAL_MS = 1"
definition TCP_CHANNEL_CAPACITY :: nat where "TCP_CHANNEL_CAPACITY = 8"
definition UDP_CHANNEL_CAPACITY :: nat where "UDP_CHANNEL_CAPACITY = 512"

section \<open>Tunnel statistics\<close>

record tunnel_stats =
  ipc_rx_frames :: u64
  ipc_rx_dropped :: u64
  ipc_tx_frames :: u64
  ipc_tx_errors :: u64
  device_rx_frames :: u64
  device_tx_frames :: u64
  device_tx_dropped :: u64
  udp_tx_packets :: u64
  udp_tx_failed :: u64
  udp_rx_packets :: u64
  udp_rx_dropped :: u64

definition stats_default :: tunnel_stats where
  "stats_default = \<lparr>ipc_rx_frames = 0, ipc_rx_dropped = 0, ipc_tx_frames = 0, ipc_tx_errors = 0,
     device_rx_frames = 0, device_tx_frames = 0, device_tx_dropped = 0, udp_tx_packets = 0,
     udp_tx_failed = 0, udp_rx_packets = 0, udp_rx_dropped = 0\<rparr>"

section \<open>Channels of a socket\<close>

type_synonym chan_id = nat
type_synonym response = nat

record tcp_channels =
  tc_write_tx :: chan_id
  tc_read_rx :: chan_id

record tcp_socket_state =
  ts_write_rx :: chan_id
  ts_read_tx :: chan_id
  ts_pending_write :: "bytes option"

record udp_channels =
  uc_write_tx :: chan_id
  uc_read_rx :: chan_id

record udp_socket_state =
  us_write_rx :: chan_id
  us_read_tx :: chan_id

section \<open>Commands, pending operations, listeners\<close>

datatype stack_command =
    TcpConnect "ip_addr option" socket_addr response
  | TcpListen socket_addr nat response
  | TcpAccept handle response
  | TcpListenerClose handle
  | TcpClose handle
  | UdpBind socket_addr response
  | UdpClose handle
  | AddIp ip_addr u8 response
  | RemoveIp ip_addr response
  | GetIps response

datatype pending_op =
    PendingConnect socket_addr socket_addr tcp_channels (op_response: response)
  | PendingAccept (op_response: response)

record listener_state =
  ls_addr :: socket_addr
  ls_listening_handles :: "handle list"

record stack_config =
  sc_mac :: bytes
  sc_ip :: ip_addr
  sc_prefix_len :: u8
  sc_gateway :: ip_addr

text \<open>The answers the task sends on a response sender.\<close>

datatype reply =
    RConnected handle socket_addr socket_addr tcp_channels
  | RListening handle socket_addr
  | RUdpBound handle socket_addr udp_channels
  | RUnit
  | RIps "(ip_addr \<times> u8) list"
  | RErr io_error

datatype event =
    Reply (ev_response: response) reply
  | Dropped (ev_response: response)

section \<open>The task's state and its libraries\<close>

record ('ifc, 'set, 'c, 'd) stack =
  iface :: 'ifc
  sockets :: 'set
  pending :: "(handle, pending_op) hash_map"
  listeners :: "(handle, listener_state) hash_map"
  tcp_states :: "(handle, tcp_socket_state) hash_map"
  udp_states :: "(handle, udp_socket_state) hash_map"
  tcp_chans :: "chan_id \<Rightarrow> 'c"
  udp_chans :: "chan_id \<Rightarrow> 'd"
  next_chan :: chan_id
  ephemeral_port :: u16
  stats :: tunnel_stats
  events :: "event list"

record ('ifc, 'set, 'tcp, 'udp, 'c, 'd) stack_env =
  E_tcp :: "'tcp tcp_api"
  E_udp :: "'udp udp_api"
  E_set :: "('set, 'tcp, 'udp) socket_set_api"
  E_ifc :: "('ifc, 'tcp) iface_api"
  E_tch :: "('c, bytes) mpsc"
  E_uch :: "('d, bytes \<times> socket_addr) mpsc"

abbreviation reply_to ::
    "response \<Rightarrow> reply \<Rightarrow> ('ifc, 'set, 'c, 'd) stack \<Rightarrow> ('ifc, 'set, 'c, 'd) stack" where
  "reply_to r a s \<equiv> s\<lparr>events := events s @ [Reply r a]\<rparr>"

section \<open>Creating and dropping channel ends\<close>

text \<open>\<^verbatim>\<open>create_tcp_channels\<close>: two new channels, one end of each for either side.\<close>

definition create_tcp_channels ::
    "('ifc, 'set, 'tcp, 'udp, 'c, 'd) stack_env \<Rightarrow> ('ifc, 'set, 'c, 'd) stack \<Rightarrow>
     tcp_channels \<times> tcp_socket_state \<times> ('ifc, 'set, 'c, 'd) stack" where
  "create_tcp_channels E s =
     (let w = next_chan s; r = next_chan s + 1;
          channels = \<lparr>tc_write_tx = w, tc_read_rx = r\<rparr>;
          state = \<lparr>ts_write_rx = w, ts_read_tx = r, ts_pending_write = None\<rparr>;
          new = mpsc_channel (E_tch E) TCP_CHANNEL_CAPACITY
      in (channels, state,
          s\<lparr>tcp_chans := (tcp_chans s)(w := new, r := new), next_chan := next_chan s + 2\<rparr>))"

definition create_udp_channels ::
    "('ifc, 'set, 'tcp, 'udp, 'c, 'd) stack_env \<Rightarrow> ('ifc, 'set, 'c, 'd) stack \<Rightarrow>
     udp_channels \<times> udp_socket_state \<times> ('ifc, 'set, 'c, 'd) stack" where
  "create_udp_channels E s =
     (let w = next_chan s; r = next_chan s + 1;
          channels = \<lparr>uc_write_tx = w, uc_read_rx = r\<rparr>;
          state = \<lparr>us_write_rx = w, us_read_tx = r\<rparr>;
          new = mpsc_channel (E_uch E) UDP_CHANNEL_CAPACITY
      in (channels, state,
          s\<lparr>udp_chans := (udp_chans s)(w := new, r := new), next_chan := next_chan s + 2\<rparr>))"

text \<open>
  What Rust drops when a value goes out of scope: the stack's ends of a socket's channels
  (\<open>drop_tcp_state\<close>, \<open>drop_udp_state\<close>), the application's ends (\<open>drop_tcp_channels\<close>), a
  pending operation with its response sender and, for a connect, its channels.
\<close>

definition drop_tcp_state ::
    "('c, bytes) mpsc \<Rightarrow> tcp_socket_state \<Rightarrow> (chan_id \<Rightarrow> 'c) \<Rightarrow> (chan_id \<Rightarrow> 'c)" where
  "drop_tcp_state C st ch =
     (let ch1 = ch(ts_write_rx st := drop_receiver C (ch (ts_write_rx st)))
      in ch1(ts_read_tx st := drop_sender C (ch1 (ts_read_tx st))))"

definition drop_udp_state ::
    "('d, bytes \<times> socket_addr) mpsc \<Rightarrow> udp_socket_state \<Rightarrow> (chan_id \<Rightarrow> 'd) \<Rightarrow> (chan_id \<Rightarrow> 'd)" where
  "drop_udp_state C st ch =
     (let ch1 = ch(us_write_rx st := drop_receiver C (ch (us_write_rx st)))
      in ch1(us_read_tx st := drop_sender C (ch1 (us_read_tx st))))"

definition drop_tcp_channels ::
    "('c, bytes) mpsc \<Rightarrow> tcp_channels \<Rightarrow> (chan_id \<Rightarrow> 'c) \<Rightarrow> (chan_id \<Rightarrow> 'c)" where
  "drop_tcp_channels C t ch =
     (let ch1 = ch(tc_write_tx t := drop_sender C (ch (tc_write_tx t)))
      in ch1(tc_read_rx t := drop_receiver C (ch1 (tc_read_rx t))))"

fun drop_pending_op ::
    "('ifc, 'set, 'tcp, 'udp, 'c, 'd) stack_env \<Rightarrow> pending_op \<Rightarrow>
     ('ifc, 'set, 'c, 'd) stack \<Rightarrow> ('ifc, 'set, 'c, 'd) stack" where
  "drop_pending_op E (PendingConnect la pa ch r) s =
     s\<lparr>tcp_chans := drop_tcp_channels (E_tch E) ch (tcp_chans s), events := events s @ [Dropped r]\<rparr>"
| "drop_pending_op E (PendingAccept r) s = s\<lparr>events := events s @ [Dropped r]\<rparr>"

text \<open>
  \<^verbatim>\<open>HashMap::insert\<close> and \<^verbatim>\<open>HashMap::remove\<close> on the task's maps, with the drop of the value
  that is displaced or removed and not used.
\<close>

definition insert_pending ::
    "('ifc, 'set, 'tcp, 'udp, 'c, 'd) stack_env \<Rightarrow> handle \<Rightarrow> pending_op \<Rightarrow>
     ('ifc, 'set, 'c, 'd) stack \<Rightarrow> ('ifc, 'set, 'c, 'd) stack" where
  "insert_pending E h op s =
     (let s1 = s\<lparr>pending := hm_insert h op (pending s)\<rparr>
      in case map_of (pending s) h of
           None \<Rightarrow> s1
         | Some old \<Rightarrow> drop_pending_op E old s1)"

definition discard_pending ::
    "('ifc, 'set, 'tcp, 'udp, 'c, 'd) stack_env \<Rightarrow> handle \<Rightarrow>
     ('ifc, 'set, 'c, 'd) stack \<Rightarrow> ('ifc, 'set, 'c, 'd) stack" where
  "discard_pending E h s =
     (let s1 = s\<lparr>pending := hm_remove h (pending s)\<rparr>
      in case map_of (pending s) h of
           None \<Rightarrow> s1
         | Some old \<Rightarrow> drop_pending_op E old s1)"

definition insert_tcp_state ::
    "('ifc, 'set, 'tcp, 'udp, 'c, 'd) stack_env \<Rightarrow> handle \<Rightarrow> tcp_socket_state \<Rightarrow>
     ('ifc, 'set, 'c, 'd) stack \<Rightarrow> ('ifc, 'set, 'c, 'd) stack" where
  "insert_tcp_state E h st s =
     (let s1 = s\<lparr>tcp_states := hm_insert h st (tcp_states s)\<rparr>
      in case map_of (tcp_states s) h of
           None \<Rightarrow> s1
         | Some old \<Rightarrow> s1\<lparr>tcp_chans := drop_tcp_state (E_tch E) old (tcp_chans s1)\<rparr>)"

definition remove_tcp_state ::
    "('ifc, 'set, 'tcp, 'udp, 'c, 'd) stack_env \<Rightarrow> handle \<Rightarrow>
     ('ifc, 'set, 'c, 'd) stack \<Rightarrow> ('ifc, 'set, 'c, 'd) stack" where
  "remove_tcp_state E h s =
     (let s1 = s\<lparr>tcp_states := hm_remove h (tcp_states s)\<rparr>
      in case map_of (tcp_states s) h of
           None \<Rightarrow> s1
         | Some old \<Rightarrow> s1\<lparr>tcp_chans := drop_tcp_state (E_tch E) old (tcp_chans s1)\<rparr>)"

definition insert_udp_state ::
    "('ifc, 'set, 'tcp, 'udp, 'c, 'd) stack_env \<Rightarrow> handle \<Rightarrow> udp_socket_state \<Rightarrow>
     ('ifc, 'set, 'c, 'd) stack \<Rightarrow> ('ifc, 'set, 'c, 'd) stack" where
  "insert_udp_state E h st s =
     (let s1 = s\<lparr>udp_states := hm_insert h st (udp_states s)\<rparr>
      in case map_of (udp_states s) h of
           None \<Rightarrow> s1
         | Some old \<Rightarrow> s1\<lparr>udp_chans := drop_udp_state (E_uch E) old (udp_chans s1)\<rparr>)"

definition remove_udp_state ::
    "('ifc, 'set, 'tcp, 'udp, 'c, 'd) stack_env \<Rightarrow> handle \<Rightarrow>
     ('ifc, 'set, 'c, 'd) stack \<Rightarrow> ('ifc, 'set, 'c, 'd) stack" where
  "remove_udp_state E h s =
     (let s1 = s\<lparr>udp_states := hm_remove h (udp_states s)\<rparr>
      in case map_of (udp_states s) h of
           None \<Rightarrow> s1
         | Some old \<Rightarrow> s1\<lparr>udp_chans := drop_udp_state (E_uch E) old (udp_chans s1)\<rparr>)"

section \<open>Ephemeral ports\<close>

text \<open>\<^verbatim>\<open>EPHEMERAL_PORT.fetch_add(1)\<close>: returns the old value; the counter wraps.\<close>

definition allocate_ephemeral_port ::
    "('ifc, 'set, 'c, 'd) stack \<Rightarrow> u16 \<times> ('ifc, 'set, 'c, 'd) stack" where
  "allocate_ephemeral_port s = (ephemeral_port s, s\<lparr>ephemeral_port := ephemeral_port s + 1\<rparr>)"

section \<open>A closed instance of the libraries\<close>

text \<open>The documented behaviours of the libraries put together, and a task that has just started.\<close>

definition ref_env ::
    "(ip_cidr list, nat \<times> (handle \<Rightarrow> (tcp_sock, udp_sock) sock option), tcp_sock, udp_sock,
      bytes chan, (bytes \<times> socket_addr) chan) stack_env" where
  "ref_env = \<lparr>E_tcp = sk_tcp, E_udp = uk_udp, E_set = map_set, E_ifc = list_iface,
     E_tch = chan_mpsc, E_uch = chan_mpsc\<rparr>"

definition ref_stack ::
    "(ip_cidr list, nat \<times> (handle \<Rightarrow> (tcp_sock, udp_sock) sock option),
      bytes chan, (bytes \<times> socket_addr) chan) stack" where
  "ref_stack = \<lparr>iface = [], sockets = (0, Map.empty), pending = [], listeners = [],
     tcp_states = [], udp_states = [], tcp_chans = (\<lambda>_. chan_new 0), udp_chans = (\<lambda>_. chan_new 0),
     next_chan = 0, ephemeral_port = EPHEMERAL_PORT_START, stats = stats_default, events = []\<rparr>"

end
