(* ===== verification/Stack_Handlers.thy ===== *)
theory Stack_Handlers
  imports Stack_State
begin

text \<open>
  The command handlers of the stack task, \<^verbatim>\<open>handle_command\<close> and what it calls in
  \<^verbatim>\<open>src/stack/mod.rs\<close>. A handler takes the libraries \<open>E\<close>, its arguments and the state, and
  returns the new state; \<open>None\<close> is a panic of the task (a handle the socket set does not
  know, an address the interface refuses).
\<close>

section \<open>TCP connect\<close>

definition handle_tcp_connect ::
    "('ifc, 'set, 'tcp, 'udp, 'c, 'd) stack_env \<Rightarrow> stack_config \<Rightarrow> ip_addr option \<Rightarrow>
     socket_addr \<Rightarrow> response \<Rightarrow> ('ifc, 'set, 'c, 'd) stack \<Rightarrow>
     ('ifc, 'set, 'c, 'd) stack option" where
  "handle_tcp_connect E cfg local_ip addr r s =
     (let socket0 = tcp_new (E_tcp E) TCP_SOCKET_BUFFER_SIZE TCP_SOCKET_BUFFER_SIZE;
          (h, ss1) = add_tcp (E_set E) (sockets s) socket0;
          remote = socket_addr_to_endpoint addr;
          source_ip = (case local_ip of Some ip \<Rightarrow> ip | None \<Rightarrow> sc_ip cfg);
          (local_port, s1) = allocate_ephemeral_port (s\<lparr>sockets := ss1\<rparr>);
          local = IpListenEndpoint (Some (ip_addr_to_smoltcp source_ip)) local_port
      in do {
        socket \<leftarrow> get_tcp (E_set E) (sockets s1) h;
        (case tcp_connect (E_ifc E) (iface s1) socket remote local of
           (Inl e, ifc') \<Rightarrow> do {
             ss2 \<leftarrow> remove_sock (E_set E) (sockets s1) h;
             Some (reply_to r (RErr (IoError Other (''connect failed: '' @ e)))
                     (s1\<lparr>iface := ifc', sockets := ss2\<rparr>))
           }
         | (Inr socket', ifc') \<Rightarrow>
             (let s2 = s1\<lparr>iface := ifc', sockets := put_tcp (E_set E) (sockets s1) h socket'\<rparr>;
                  (channels, state, s3) = create_tcp_channels E s2;
                  s4 = insert_tcp_state E h state s3;
                  local_addr = make_socket_addr source_ip local_port;
                  peer_addr = addr
              in Some (insert_pending E h (PendingConnect local_addr peer_addr channels r) s4)))
      })"

section \<open>TCP listen\<close>

text \<open>\<^verbatim>\<open>sockets.remove(h)\<close> for every handle of a list.\<close>

fun remove_all ::
    "('set, 'tcp, 'udp) socket_set_api \<Rightarrow> handle list \<Rightarrow> 'set \<Rightarrow> 'set option" where
  "remove_all SS [] ss = Some ss"
| "remove_all SS (h # hs) ss = do { ss' \<leftarrow> remove_sock SS ss h; remove_all SS hs ss' }"

text \<open>
  The loop that creates the backlog: \<open>n\<close> sockets still to create, the handles created so
  far, and the socket set. A failing \<^verbatim>\<open>listen\<close> ends it with the error and the handles to
  clean up.
\<close>

fun create_listeners ::
    "('ifc, 'set, 'tcp, 'udp, 'c, 'd) stack_env \<Rightarrow> ip_listen_endpoint \<Rightarrow> nat \<Rightarrow> handle list \<Rightarrow>
     'set \<Rightarrow> (string \<times> handle list + handle list) \<times> 'set" where
  "create_listeners E ep 0 hs ss = (Inr hs, ss)"
| "create_listeners E ep (Suc n) hs ss =
     (let socket0 = tcp_new (E_tcp E) TCP_SOCKET_BUFFER_SIZE TCP_SOCKET_BUFFER_SIZE
      in case tcp_listen (E_tcp E) socket0 ep of
           Inl e \<Rightarrow> (Inl (e, hs), ss)
         | Inr socket \<Rightarrow>
             (let (h, ss1) = add_tcp (E_set E) ss socket
              in create_listeners E ep n (hs @ [h]) ss1))"

definition handle_tcp_listen ::
    "('ifc, 'set, 'tcp, 'udp, 'c, 'd) stack_env \<Rightarrow> socket_addr \<Rightarrow> nat \<Rightarrow> response \<Rightarrow>
     ('ifc, 'set, 'c, 'd) stack \<Rightarrow> ('ifc, 'set, 'c, 'd) stack option" where
  "handle_tcp_listen E addr backlog r s =
     (let listen_endpoint = socket_addr_to_listen_endpoint addr
      in if sa_port addr = 0 then
           Some (reply_to r (RErr (IoError InvalidInput ''cannot listen on port 0'')) s)
         else if list_ex (\<lambda>(_, st). sa_port (ls_addr st) = sa_port addr) (listeners s) then
           Some (reply_to r (RErr (IoError AddrInUse ''address already in use'')) s)
         else
           (case create_listeners E listen_endpoint (max backlog 1) [] (sockets s) of
              (Inl (e, hs), ss1) \<Rightarrow> do {
                ss2 \<leftarrow> remove_all (E_set E) hs ss1;
                Some (reply_to r (RErr (IoError AddrInUse (''listen failed: '' @ e)))
                        (s\<lparr>sockets := ss2\<rparr>))
              }
            | (Inr hs, ss1) \<Rightarrow>
                (case hs of
                   [] \<Rightarrow> None
                 | primary # _ \<Rightarrow>
                     Some (reply_to r (RListening primary addr)
                       (s\<lparr>sockets := ss1,
                          listeners := hm_insert primary
                            \<lparr>ls_addr = addr, ls_listening_handles = hs\<rparr> (listeners s)\<rparr>)))))"

section \<open>TCP accept\<close>

text \<open>
  The search of \<^verbatim>\<open>try_accept_socket\<close>: the first socket of the listener that is
  established and has a remote endpoint, as its index, local and peer address.
\<close>

fun find_established ::
    "('ifc, 'set, 'tcp, 'udp, 'c, 'd) stack_env \<Rightarrow> 'set \<Rightarrow> socket_addr \<Rightarrow> handle list \<Rightarrow> nat \<Rightarrow>
     (nat \<times> socket_addr \<times> socket_addr) option option" where
  "find_established E ss addr [] idx = Some None"
| "find_established E ss addr (h # hs) idx = do {
     socket \<leftarrow> get_tcp (E_set E) ss h;
     (if tcp_sock_state (E_tcp E) socket = Established then
        (case tcp_remote_endpoint (E_tcp E) socket of
           Some remote \<Rightarrow>
             (let peer = endpoint_to_socket_addr remote;
                  local = (case tcp_local_endpoint (E_tcp E) socket of
                             Some l \<Rightarrow> endpoint_to_socket_addr l
                           | None \<Rightarrow> addr)
              in Some (Some (idx, local, peer)))
         | None \<Rightarrow> find_established E ss addr hs (Suc idx))
      else find_established E ss addr hs (Suc idx))
   }"

definition try_accept_socket ::
    "('ifc, 'set, 'tcp, 'udp, 'c, 'd) stack_env \<Rightarrow> 'set \<Rightarrow> listener_state \<Rightarrow>
     ((handle \<times> socket_addr \<times> socket_addr) option \<times> 'set \<times> listener_state) option" where
  "try_accept_socket E ss st = do {
     found \<leftarrow> find_established E ss (ls_addr st) (ls_listening_handles st) 0;
     (case found of
        None \<Rightarrow> Some (None, ss, st)
      | Some (idx, local, peer) \<Rightarrow>
          (let hs = ls_listening_handles st;
               accepted = hs ! idx;
               hs1 = take idx hs @ drop (Suc idx) hs;
               listen_endpoint = socket_addr_to_listen_endpoint (ls_addr st);
               socket0 = tcp_new (E_tcp E) TCP_SOCKET_BUFFER_SIZE TCP_SOCKET_BUFFER_SIZE
           in case tcp_listen (E_tcp E) socket0 listen_endpoint of
                Inr socket \<Rightarrow>
                  (let (h, ss1) = add_tcp (E_set E) ss socket
                   in Some (Some (accepted, local, peer), ss1,
                            st\<lparr>ls_listening_handles := hs1 @ [h]\<rparr>))
              | Inl e \<Rightarrow>
                  Some (Some (accepted, local, peer), ss, st\<lparr>ls_listening_handles := hs1\<rparr>)))
   }"

text \<open>
  The two places that accept share what happens next: the listener's new state is stored,
  channels are made for the accepted socket, and the answer goes out.
\<close>

definition finish_accept ::
    "('ifc, 'set, 'tcp, 'udp, 'c, 'd) stack_env \<Rightarrow> handle \<Rightarrow> socket_addr \<Rightarrow> socket_addr \<Rightarrow>
     response \<Rightarrow> ('ifc, 'set, 'c, 'd) stack \<Rightarrow> ('ifc, 'set, 'c, 'd) stack" where
  "finish_accept E accepted local peer r s =
     (let (channels, state, s1) = create_tcp_channels E s;
          s2 = insert_tcp_state E accepted state s1
      in reply_to r (RConnected accepted local peer channels) s2)"

definition handle_tcp_accept ::
    "('ifc, 'set, 'tcp, 'udp, 'c, 'd) stack_env \<Rightarrow> handle \<Rightarrow> response \<Rightarrow>
     ('ifc, 'set, 'c, 'd) stack \<Rightarrow> ('ifc, 'set, 'c, 'd) stack option" where
  "handle_tcp_accept E h r s =
     (case map_of (listeners s) h of
        None \<Rightarrow> Some (reply_to r (RErr (IoError InvalidInput ''not a listener handle'')) s)
      | Some st \<Rightarrow> do {
          (res, ss1, st1) \<leftarrow> try_accept_socket E (sockets s) st;
          (let s1 = s\<lparr>sockets := ss1, listeners := hm_insert h st1 (listeners s)\<rparr>
           in case res of
                Some (accepted, local, peer) \<Rightarrow> Some (finish_accept E accepted local peer r s1)
              | None \<Rightarrow> Some (insert_pending E h (PendingAccept r) s1))
        })"

section \<open>Closing\<close>

text \<open>The loop of \<^verbatim>\<open>handle_tcp_listener_close\<close> over the listener's sockets.\<close>

fun close_listening ::
    "('ifc, 'set, 'tcp, 'udp, 'c, 'd) stack_env \<Rightarrow> handle list \<Rightarrow> 'set \<Rightarrow> 'set option" where
  "close_listening E [] ss = Some ss"
| "close_listening E (h # hs) ss = do {
     socket \<leftarrow> get_tcp (E_set E) ss h;
     close_listening E hs
       (if tcp_sock_state (E_tcp E) socket = Listen
        then put_tcp (E_set E) ss h (tcp_close (E_tcp E) socket) else ss)
   }"

definition handle_tcp_listener_close ::
    "('ifc, 'set, 'tcp, 'udp, 'c, 'd) stack_env \<Rightarrow> handle \<Rightarrow>
     ('ifc, 'set, 'c, 'd) stack \<Rightarrow> ('ifc, 'set, 'c, 'd) stack option" where
  "handle_tcp_listener_close E h s =
     (let s1 = discard_pending E h s
      in case map_of (listeners s1) h of
           None \<Rightarrow> Some s1
         | Some st \<Rightarrow> do {
             ss1 \<leftarrow> close_listening E (ls_listening_handles st) (sockets s1);
             Some (s1\<lparr>sockets := ss1, listeners := hm_remove h (listeners s1)\<rparr>)
           })"

definition handle_tcp_close ::
    "('ifc, 'set, 'tcp, 'udp, 'c, 'd) stack_env \<Rightarrow> handle \<Rightarrow>
     ('ifc, 'set, 'c, 'd) stack \<Rightarrow> ('ifc, 'set, 'c, 'd) stack option" where
  "handle_tcp_close E h s = do {
     socket \<leftarrow> get_tcp (E_set E) (sockets s) h;
     (let s1 = s\<lparr>sockets := put_tcp (E_set E) (sockets s) h (tcp_close (E_tcp E) socket)\<rparr>
      in Some (remove_tcp_state E h s1))
   }"

section \<open>UDP\<close>

fun bound_addr :: "socket_addr \<Rightarrow> u16 \<Rightarrow> socket_addr" where
  "bound_addr (SockV4 ip p) port = SockV4 ip port"
| "bound_addr (SockV6 ip p f sc) port = SockV6 ip port 0 0"

definition handle_udp_bind ::
    "('ifc, 'set, 'tcp, 'udp, 'c, 'd) stack_env \<Rightarrow> socket_addr \<Rightarrow> response \<Rightarrow>
     ('ifc, 'set, 'c, 'd) stack \<Rightarrow> ('ifc, 'set, 'c, 'd) stack option" where
  "handle_udp_bind E addr r s =
     (let socket0 = udp_new (E_udp E) UDP_PACKET_METADATA_SLOTS UDP_PACKET_BUFFER_SIZE;
          (port, s1) = (if sa_port addr = 0 then allocate_ephemeral_port s else (sa_port addr, s));
          bound = bound_addr addr port;
          endpoint = socket_addr_to_listen_endpoint_with_port addr port
      in case udp_bind (E_udp E) socket0 endpoint of
           Inl e \<Rightarrow>
             Some (reply_to r (RErr (IoError AddrInUse (''bind failed: '' @ e))) s1)
         | Inr socket \<Rightarrow>
             (let (h, ss1) = add_udp (E_set E) (sockets s1) socket;
                  (channels, state, s2) = create_udp_channels E (s1\<lparr>sockets := ss1\<rparr>);
                  s3 = insert_udp_state E h state s2
              in Some (reply_to r (RUdpBound h bound channels) s3)))"

definition handle_udp_close ::
    "('ifc, 'set, 'tcp, 'udp, 'c, 'd) stack_env \<Rightarrow> handle \<Rightarrow>
     ('ifc, 'set, 'c, 'd) stack \<Rightarrow> ('ifc, 'set, 'c, 'd) stack option" where
  "handle_udp_close E h s = do {
     socket \<leftarrow> get_udp (E_set E) (sockets s) h;
     (let s1 = s\<lparr>sockets := put_udp (E_set E) (sockets s) h (udp_close (E_udp E) socket)\<rparr>
      in Some (remove_udp_state E h s1))
   }"

section \<open>Interface addresses\<close>

definition handle_add_ip ::
    "('ifc, 'set, 'tcp, 'udp, 'c, 'd) stack_env \<Rightarrow> ip_addr \<Rightarrow> u8 \<Rightarrow> response \<Rightarrow>
     ('ifc, 'set, 'c, 'd) stack \<Rightarrow> ('ifc, 'set, 'c, 'd) stack option" where
  "handle_add_ip E ip plen r s = do {
     cidr \<leftarrow> cidr_new (E_ifc E) (ip_addr_to_smoltcp ip) plen;
     (if list_ex (\<lambda>a. a = cidr) (ip_addrs (E_ifc E) (iface s)) then Some (reply_to r RUnit s)
      else
        (let addrs = ip_addrs (E_ifc E) (iface s);
             (addrs', res) =
               (if length addrs < addrs_capacity (E_ifc E) then (addrs @ [cidr], RUnit)
                else (addrs, RErr (IoError OutOfMemory ''address list full'')))
         in do {
           ifc' \<leftarrow> set_ip_addrs (E_ifc E) (iface s) addrs';
           Some (reply_to r res (s\<lparr>iface := ifc'\<rparr>))
         }))
   }"

definition handle_remove_ip ::
    "('ifc, 'set, 'tcp, 'udp, 'c, 'd) stack_env \<Rightarrow> ip_addr \<Rightarrow> response \<Rightarrow>
     ('ifc, 'set, 'c, 'd) stack \<Rightarrow> ('ifc, 'set, 'c, 'd) stack option" where
  "handle_remove_ip E ip r s =
     (let target = ip_addr_to_smoltcp ip
      in do {
        ifc' \<leftarrow> set_ip_addrs (E_ifc E) (iface s)
                 (filter (\<lambda>a. cidr_address a \<noteq> target) (ip_addrs (E_ifc E) (iface s)));
        Some (reply_to r RUnit (s\<lparr>iface := ifc'\<rparr>))
      })"

definition handle_get_ips ::
    "('ifc, 'set, 'tcp, 'udp, 'c, 'd) stack_env \<Rightarrow> response \<Rightarrow>
     ('ifc, 'set, 'c, 'd) stack \<Rightarrow> ('ifc, 'set, 'c, 'd) stack option" where
  "handle_get_ips E r s =
     (let ips = map (\<lambda>cidr. (smoltcp_to_ip_addr (cidr_address cidr), cidr_prefix_len cidr))
                  (ip_addrs (E_ifc E) (iface s))
      in Some (reply_to r (RIps ips) s))"

section \<open>The dispatcher\<close>

text \<open>\<^verbatim>\<open>handle_command\<close>; its boolean result is whether the task should go on.\<close>

fun handle_command ::
    "('ifc, 'set, 'tcp, 'udp, 'c, 'd) stack_env \<Rightarrow> stack_config \<Rightarrow> stack_command \<Rightarrow>
     ('ifc, 'set, 'c, 'd) stack \<Rightarrow> (bool \<times> ('ifc, 'set, 'c, 'd) stack) option" where
  "handle_command E cfg (TcpConnect local_ip addr r) s =
     map_option (Pair True) (handle_tcp_connect E cfg local_ip addr r s)"
| "handle_command E cfg (TcpListen addr backlog r) s =
     map_option (Pair True) (handle_tcp_listen E addr backlog r s)"
| "handle_command E cfg (TcpAccept h r) s =
     map_option (Pair True) (handle_tcp_accept E h r s)"
| "handle_command E cfg (TcpListenerClose h) s =
     map_option (Pair True) (handle_tcp_listener_close E h s)"
| "handle_command E cfg (TcpClose h) s =
     map_option (Pair True) (handle_tcp_close E h s)"
| "handle_command E cfg (UdpBind addr r) s =
     map_option (Pair True) (handle_udp_bind E addr r s)"
| "handle_command E cfg (UdpClose h) s =
     map_option (Pair True) (handle_udp_close E h s)"
| "handle_command E cfg (AddIp ip plen r) s =
     map_option (Pair True) (handle_add_ip E ip plen r s)"
| "handle_command E cfg (RemoveIp ip r) s =
     map_option (Pair True) (handle_remove_ip E ip r s)"
| "handle_command E cfg (GetIps r) s =
     map_option (Pair True) (handle_get_ips E r s)"

section \<open>Pending operations\<close>

text \<open>One round of the loop of \<^verbatim>\<open>process_pending\<close>.\<close>

definition process_pending_one ::
    "('ifc, 'set, 'tcp, 'udp, 'c, 'd) stack_env \<Rightarrow> handle \<Rightarrow>
     ('ifc, 'set, 'c, 'd) stack \<Rightarrow> ('ifc, 'set, 'c, 'd) stack option" where
  "process_pending_one E h s =
     (case map_of (pending s) h of
        Some (PendingConnect local_addr peer_addr channels r) \<Rightarrow> do {
          socket \<leftarrow> get_tcp (E_set E) (sockets s) h;
          (let state = tcp_sock_state (E_tcp E) socket
           in if state = Established then
                Some (reply_to r (RConnected h local_addr peer_addr channels)
                        (s\<lparr>pending := hm_remove h (pending s)\<rparr>))
              else if state = Closed \<or> state = TimeWait then
                (let s1 = s\<lparr>pending := hm_remove h (pending s)\<rparr>;
                     s2 = remove_tcp_state E h s1;
                     s3 = reply_to r (RErr (IoError ConnectionRefused ''connection failed'')) s2
                 in Some (s3\<lparr>tcp_chans := drop_tcp_channels (E_tch E) channels (tcp_chans s3)\<rparr>))
              else Some s)
        }
      | Some (PendingAccept r) \<Rightarrow>
          (case map_of (listeners s) h of
             Some st \<Rightarrow> do {
               (res, ss1, st1) \<leftarrow> try_accept_socket E (sockets s) st;
               (let s1 = s\<lparr>sockets := ss1, listeners := hm_insert h st1 (listeners s)\<rparr>
                in case res of
                     Some (accepted, local, peer) \<Rightarrow>
                       Some (finish_accept E accepted local peer r
                               (s1\<lparr>pending := hm_remove h (pending s1)\<rparr>))
                   | None \<Rightarrow> Some s1)
             }
           | None \<Rightarrow>
               Some (reply_to r (RErr (IoError InvalidInput ''listener closed''))
                       (s\<lparr>pending := hm_remove h (pending s)\<rparr>)))
      | None \<Rightarrow> Some s)"

definition process_pending ::
    "('ifc, 'set, 'tcp, 'udp, 'c, 'd) stack_env \<Rightarrow> (handle list \<Rightarrow> handle list) \<Rightarrow>
     ('ifc, 'set, 'c, 'd) stack \<Rightarrow> ('ifc, 'set, 'c, 'd) stack option" where
  "process_pending E ord s =
     (let handles = ord (hm_keys (pending s)) in for_handles (process_pending_one E) handles s)"

end
