(* ===== verification/Stack_Lemmas.thy ===== *)
theory Stack_Lemmas
  imports Stack_Handlers
begin

text \<open>
  What the proofs about the handlers share: which fields each helper leaves alone, and
  one case rule per handler with a loop or several outcomes, so that a proof about a
  handler is a proof about its outcomes.
\<close>

section \<open>Frames: what the helpers leave alone\<close>

lemma drop_pending_op_frame [simp]:
  "pending (drop_pending_op E op s) = pending s"
  "listeners (drop_pending_op E op s) = listeners s"
  "tcp_states (drop_pending_op E op s) = tcp_states s"
  "udp_states (drop_pending_op E op s) = udp_states s"
  "sockets (drop_pending_op E op s) = sockets s"
  "iface (drop_pending_op E op s) = iface s"
  "events (drop_pending_op E op s) = events s @ [Dropped (op_response op)]"
  by (cases op; simp)+

lemma insert_pending_frame [simp]:
  "pending (insert_pending E h op s) = hm_insert h op (pending s)"
  "listeners (insert_pending E h op s) = listeners s"
  "tcp_states (insert_pending E h op s) = tcp_states s"
  "udp_states (insert_pending E h op s) = udp_states s"
  "sockets (insert_pending E h op s) = sockets s"
  "iface (insert_pending E h op s) = iface s"
  by (simp_all add: insert_pending_def Let_def split: option.split)

lemma discard_pending_frame [simp]:
  "pending (discard_pending E h s) = hm_remove h (pending s)"
  "listeners (discard_pending E h s) = listeners s"
  "tcp_states (discard_pending E h s) = tcp_states s"
  "udp_states (discard_pending E h s) = udp_states s"
  "sockets (discard_pending E h s) = sockets s"
  "iface (discard_pending E h s) = iface s"
  by (simp_all add: discard_pending_def Let_def split: option.split)

lemma insert_tcp_state_frame [simp]:
  "pending (insert_tcp_state E h st s) = pending s"
  "listeners (insert_tcp_state E h st s) = listeners s"
  "tcp_states (insert_tcp_state E h st s) = hm_insert h st (tcp_states s)"
  "udp_states (insert_tcp_state E h st s) = udp_states s"
  "sockets (insert_tcp_state E h st s) = sockets s"
  "iface (insert_tcp_state E h st s) = iface s"
  "events (insert_tcp_state E h st s) = events s"
  by (simp_all add: insert_tcp_state_def Let_def split: option.split)

lemma remove_tcp_state_frame [simp]:
  "pending (remove_tcp_state E h s) = pending s"
  "listeners (remove_tcp_state E h s) = listeners s"
  "tcp_states (remove_tcp_state E h s) = hm_remove h (tcp_states s)"
  "udp_states (remove_tcp_state E h s) = udp_states s"
  "sockets (remove_tcp_state E h s) = sockets s"
  "iface (remove_tcp_state E h s) = iface s"
  "events (remove_tcp_state E h s) = events s"
  by (simp_all add: remove_tcp_state_def Let_def split: option.split)

lemma insert_udp_state_frame [simp]:
  "pending (insert_udp_state E h st s) = pending s"
  "listeners (insert_udp_state E h st s) = listeners s"
  "tcp_states (insert_udp_state E h st s) = tcp_states s"
  "udp_states (insert_udp_state E h st s) = hm_insert h st (udp_states s)"
  "sockets (insert_udp_state E h st s) = sockets s"
  "iface (insert_udp_state E h st s) = iface s"
  "events (insert_udp_state E h st s) = events s"
  by (simp_all add: insert_udp_state_def Let_def split: option.split)

lemma remove_udp_state_frame [simp]:
  "pending (remove_udp_state E h s) = pending s"
  "listeners (remove_udp_state E h s) = listeners s"
  "tcp_states (remove_udp_state E h s) = tcp_states s"
  "udp_states (remove_udp_state E h s) = hm_remove h (udp_states s)"
  "sockets (remove_udp_state E h s) = sockets s"
  "iface (remove_udp_state E h s) = iface s"
  "events (remove_udp_state E h s) = events s"
  by (simp_all add: remove_udp_state_def Let_def split: option.split)

lemma finish_accept_frame [simp]:
  "pending (finish_accept E a l p r s) = pending s"
  "listeners (finish_accept E a l p r s) = listeners s"
  "dom (map_of (tcp_states (finish_accept E a l p r s))) = insert a (dom (map_of (tcp_states s)))"
  "hm_ok (tcp_states s) \<Longrightarrow> hm_ok (tcp_states (finish_accept E a l p r s))"
  "udp_states (finish_accept E a l p r s) = udp_states s"
  "sockets (finish_accept E a l p r s) = sockets s"
  "iface (finish_accept E a l p r s) = iface s"
  "map ev_response (events (finish_accept E a l p r s)) = map ev_response (events s) @ [r]"
  by (simp_all add: finish_accept_def create_tcp_channels_def Let_def hm_simps)

section \<open>Outcomes of the handlers\<close>

abbreviation new_tcp :: "('ifc, 'set, 'tcp, 'udp, 'c, 'd) stack_env \<Rightarrow> 'tcp" where
  "new_tcp E \<equiv> tcp_new (E_tcp E) TCP_SOCKET_BUFFER_SIZE TCP_SOCKET_BUFFER_SIZE"

lemma handle_tcp_connect_cases [consumes 1, case_names failed started]:
  assumes "handle_tcp_connect E cfg lip addr r s = Some s'"
  obtains
    (failed) h ss1 sock e ifc' ss2 rem loc where
      "add_tcp (E_set E) (sockets s) (new_tcp E) = (h, ss1)"
      "tcp_connect (E_ifc E) (iface s) sock rem loc = (Inl e, ifc')"
      "remove_sock (E_set E) ss1 h = Some ss2"
      "s' = reply_to r (RErr (IoError Other (''connect failed: '' @ e)))
              (s\<lparr>ephemeral_port := ephemeral_port s + 1, iface := ifc', sockets := ss2\<rparr>)"
  | (started) h ss1 sock sock' ifc' channels state s3 rem loc la where
      "add_tcp (E_set E) (sockets s) (new_tcp E) = (h, ss1)"
      "tcp_connect (E_ifc E) (iface s) sock rem loc = (Inr sock', ifc')"
      "create_tcp_channels E (s\<lparr>ephemeral_port := ephemeral_port s + 1, iface := ifc',
         sockets := put_tcp (E_set E) ss1 h sock'\<rparr>) = (channels, state, s3)"
      "s' = insert_pending E h (PendingConnect la addr channels r) (insert_tcp_state E h state s3)"
proof -
  let ?ip = "case lip of Some ip \<Rightarrow> ip | None \<Rightarrow> sc_ip cfg"
  let ?rem = "socket_addr_to_endpoint addr"
  let ?loc = "IpListenEndpoint (Some (ip_addr_to_smoltcp ?ip)) (ephemeral_port s)"
  obtain h ss1 where a: "add_tcp (E_set E) (sockets s) (new_tcp E) = (h, ss1)" by fastforce
  from assms a obtain sock where g: "get_tcp (E_set E) ss1 h = Some sock"
    by (auto simp: handle_tcp_connect_def allocate_ephemeral_port_def Let_def bind_eq_Some_conv)
  obtain res ifc' where c: "tcp_connect (E_ifc E) (iface s) sock ?rem ?loc = (res, ifc')" by fastforce
  note unfold = handle_tcp_connect_def allocate_ephemeral_port_def Let_def
  show thesis
  proof (cases res)
    case (Inl e)
    with assms a g c obtain ss2 where "remove_sock (E_set E) ss1 h = Some ss2"
      by (auto simp: unfold bind_eq_Some_conv)
    with Inl assms a g c show ?thesis
      by (intro failed [of h ss1 sock ?rem ?loc e ifc' ss2]) (auto simp: unfold)
  next
    case (Inr sock')
    obtain channels state s3 where k: "create_tcp_channels E (s\<lparr>ephemeral_port := ephemeral_port s + 1,
        iface := ifc', sockets := put_tcp (E_set E) ss1 h sock'\<rparr>) = (channels, state, s3)" by (metis prod_cases3)
    from Inr assms a g c k show ?thesis
      by (intro started [of h ss1 sock ?rem ?loc sock' ifc' channels state s3
            "make_socket_addr ?ip (ephemeral_port s)"]) (auto simp: unfold)
  qed
qed

text \<open>A socket of a backlog that can be accepted: established, with a remote endpoint.\<close>

definition ready :: "('ifc, 'set, 'tcp, 'udp, 'c, 'd) stack_env \<Rightarrow> 'set \<Rightarrow> handle \<Rightarrow> bool" where
  "ready E ss h = (case get_tcp (E_set E) ss h of
     None \<Rightarrow> False
   | Some t \<Rightarrow> tcp_sock_state (E_tcp E) t = Established \<and> tcp_remote_endpoint (E_tcp E) t \<noteq> None)"

definition accept_addrs ::
    "('ifc, 'set, 'tcp, 'udp, 'c, 'd) stack_env \<Rightarrow> 'set \<Rightarrow> socket_addr \<Rightarrow> handle \<Rightarrow>
     socket_addr \<times> socket_addr" where
  "accept_addrs E ss addr h = (case get_tcp (E_set E) ss h of
     None \<Rightarrow> (addr, addr)
   | Some t \<Rightarrow>
       (case tcp_local_endpoint (E_tcp E) t of Some l \<Rightarrow> endpoint_to_socket_addr l | None \<Rightarrow> addr,
        case tcp_remote_endpoint (E_tcp E) t of Some p \<Rightarrow> endpoint_to_socket_addr p | None \<Rightarrow> addr))"

lemma find_established_Some:
  assumes "find_established E ss addr hs k = Some res"
  shows "(res = None \<and> (\<forall>h \<in> set hs. \<not> ready E ss h)) \<or>
    (\<exists>i. i < length hs \<and> res = Some (k + i, accept_addrs E ss addr (hs ! i)) \<and>
       ready E ss (hs ! i) \<and> (\<forall>h \<in> set (take i hs). \<not> ready E ss h))"
  using assms
proof (induction hs arbitrary: k)
  case Nil
  then show ?case by simp
next
  case (Cons h hs)
  from Cons.prems obtain t where t: "get_tcp (E_set E) ss h = Some t"
    by (auto simp: bind_eq_Some_conv)
  show ?case
  proof (cases "ready E ss h")
    case True
    with t Cons.prems have "res = Some (k, accept_addrs E ss addr h)"
      by (auto simp: ready_def accept_addrs_def Let_def)
    with True show ?thesis by (intro disjI2 exI [of _ 0]) simp
  next
    case False
    with t Cons.prems have "find_established E ss addr hs (Suc k) = Some res"
      by (auto simp: ready_def split: if_splits)
    from Cons.IH [OF this] show ?thesis
    proof (elim disjE exE conjE)
      fix i assume "i < length hs" "res = Some (Suc k + i, accept_addrs E ss addr (hs ! i))"
        "ready E ss (hs ! i)" "\<forall>h\<in>set (take i hs). \<not> ready E ss h"
      with False show ?thesis by (intro disjI2 exI [of _ "Suc i"]) simp
    qed (use False in simp)
  qed
qed

lemma try_accept_cases [consumes 1, case_names none accepted accepted_no_replacement]:
  assumes "try_accept_socket E ss st = Some (res, ss', st')"
  obtains
    (none) "res = None" "ss' = ss" "st' = st" "\<forall>h \<in> set (ls_listening_handles st). \<not> ready E ss h"
  | (accepted) pre a post sock h where
      "ls_listening_handles st = pre @ a # post" "res = Some (a, accept_addrs E ss (ls_addr st) a)"
      "ready E ss a" "\<forall>h \<in> set pre. \<not> ready E ss h"
      "tcp_listen (E_tcp E) (new_tcp E) (socket_addr_to_listen_endpoint (ls_addr st)) = Inr sock"
      "add_tcp (E_set E) ss sock = (h, ss')"
      "st' = st\<lparr>ls_listening_handles := pre @ post @ [h]\<rparr>"
  | (accepted_no_replacement) pre a post e where
      "ls_listening_handles st = pre @ a # post" "res = Some (a, accept_addrs E ss (ls_addr st) a)"
      "ready E ss a" "\<forall>h \<in> set pre. \<not> ready E ss h"
      "tcp_listen (E_tcp E) (new_tcp E) (socket_addr_to_listen_endpoint (ls_addr st)) = Inl e"
      "ss' = ss" "st' = st\<lparr>ls_listening_handles := pre @ post\<rparr>"
proof -
  let ?hs = "ls_listening_handles st"
  from assms obtain found where f: "find_established E ss (ls_addr st) ?hs 0 = Some found"
    by (auto simp: try_accept_socket_def bind_eq_Some_conv)
  from find_established_Some [OF f] show thesis
  proof (elim disjE exE conjE)
    assume "found = None" "\<forall>h \<in> set ?hs. \<not> ready E ss h"
    with assms f show ?thesis by (intro none) (auto simp: try_accept_socket_def)
  next
    fix i assume i: "i < length ?hs" "ready E ss (?hs ! i)" "\<forall>h\<in>set (take i ?hs). \<not> ready E ss h"
      and found: "found = Some (0 + i, accept_addrs E ss (ls_addr st) (?hs ! i))"
    obtain l p where lp: "accept_addrs E ss (ls_addr st) (?hs ! i) = (l, p)" by fastforce
    have hs: "?hs = take i ?hs @ ?hs ! i # drop (Suc i) ?hs"
      using i(1) by (rule id_take_nth_drop)
    show ?thesis
    proof (cases "tcp_listen (E_tcp E) (new_tcp E) (socket_addr_to_listen_endpoint (ls_addr st))")
      case (Inl e)
      with assms f found lp i hs show ?thesis
        by (intro accepted_no_replacement [of "take i ?hs" "?hs ! i" "drop (Suc i) ?hs" e])
           (auto simp: try_accept_socket_def Let_def)
    next
      case (Inr sock)
      obtain h ss1 where "add_tcp (E_set E) ss sock = (h, ss1)" by fastforce
      with Inr assms f found lp i hs show ?thesis
        by (intro accepted [of "take i ?hs" "?hs ! i" "drop (Suc i) ?hs" sock h])
           (auto simp: try_accept_socket_def Let_def)
    qed
  qed
qed

lemma create_listeners_cases:
  assumes "create_listeners E ep n hs ss = (res, ss')"
  shows "(\<exists>new. res = Inr (hs @ new) \<and> length new = n) \<or> (\<exists>e new. res = Inl (e, hs @ new))"
  using assms
proof (induction n arbitrary: hs ss)
  case 0
  then show ?case by simp
next
  case (Suc n)
  show ?case
  proof (cases "tcp_listen (E_tcp E) (new_tcp E) ep")
    case (Inl e)
    with Suc.prems show ?thesis by (auto simp: Let_def)
  next
    case (Inr sock)
    obtain h ss1 where "add_tcp (E_set E) ss sock = (h, ss1)" by fastforce
    with Inr Suc.prems have "create_listeners E ep n (hs @ [h]) ss1 = (res, ss')"
      by (simp add: Let_def)
    from Suc.IH [OF this] show ?thesis by fastforce
  qed
qed

lemma handle_tcp_listen_cases [consumes 1, case_names refused failed listening]:
  assumes "handle_tcp_listen E addr n r s = Some s'"
  obtains
    (refused) e where "s' = reply_to r (RErr e) s"
  | (failed) e hs ss1 ss2 where
      "create_listeners E (socket_addr_to_listen_endpoint addr) (max n 1) [] (sockets s)
         = (Inl (e, hs), ss1)"
      "remove_all (E_set E) hs ss1 = Some ss2"
      "s' = reply_to r (RErr (IoError AddrInUse (''listen failed: '' @ e))) (s\<lparr>sockets := ss2\<rparr>)"
  | (listening) h hs ss1 where
      "create_listeners E (socket_addr_to_listen_endpoint addr) (max n 1) [] (sockets s)
         = (Inr (h # hs), ss1)"
      "sa_port addr \<noteq> 0"
      "\<And>k st. (k, st) \<in> set (listeners s) \<Longrightarrow> sa_port (ls_addr st) \<noteq> sa_port addr"
      "s' = reply_to r (RListening h addr) (s\<lparr>sockets := ss1,
         listeners := hm_insert h \<lparr>ls_addr = addr, ls_listening_handles = h # hs\<rparr> (listeners s)\<rparr>)"
proof -
  let ?used = "list_ex (\<lambda>(_, st). sa_port (ls_addr st) = sa_port addr) (listeners s)"
  obtain res ss1 where c: "create_listeners E (socket_addr_to_listen_endpoint addr) (max n 1) []
      (sockets s) = (res, ss1)" by fastforce
  consider "sa_port addr = 0 \<or> ?used" | e hs where "sa_port addr \<noteq> 0" "\<not> ?used" "res = Inl (e, hs)"
    | hs where "sa_port addr \<noteq> 0" "\<not> ?used" "res = Inr hs" "length hs = max n 1"
    using create_listeners_cases [OF c] by fastforce
  then show thesis
  proof cases
    case 1
    with assms show ?thesis by (auto simp: handle_tcp_listen_def Let_def split: if_splits intro: refused)
  next
    case 2
    with assms c obtain ss2 where "remove_all (E_set E) hs ss1 = Some ss2"
      by (auto simp: handle_tcp_listen_def Let_def bind_eq_Some_conv)
    with 2 assms c show ?thesis
      by (intro failed [of e hs ss1 ss2]) (auto simp: handle_tcp_listen_def Let_def)
  next
    case 3
    then obtain h hs' where hs: "hs = h # hs'" by (cases hs) auto
    with 3 assms c show ?thesis
      by (intro listening [of h hs' ss1]) (auto simp: handle_tcp_listen_def Let_def list_ex_iff)
  qed
qed
lemma process_pending_one_cases [consumes 1, case_names waiting connected refused accepted closed]:
  assumes "process_pending_one E h s = Some s'"
  obtains
    (waiting) ss' ls' where "s' = s\<lparr>sockets := ss', listeners := ls'\<rparr>"
      "ss' = sockets s \<and> ls' = listeners s \<or>
       (\<exists>st. map_of (listeners s) h = Some st \<and> ss' = sockets s \<and> ls' = hm_insert h st (listeners s))"
  | (connected) la pa ch r t where "map_of (pending s) h = Some (PendingConnect la pa ch r)"
      "get_tcp (E_set E) (sockets s) h = Some t" "tcp_sock_state (E_tcp E) t = Established"
      "s' = reply_to r (RConnected h la pa ch) (s\<lparr>pending := hm_remove h (pending s)\<rparr>)"
  | (refused) la pa ch r t s2 where "map_of (pending s) h = Some (PendingConnect la pa ch r)"
      "get_tcp (E_set E) (sockets s) h = Some t" "tcp_sock_state (E_tcp E) t \<in> {Closed, TimeWait}"
      "s2 = remove_tcp_state E h (s\<lparr>pending := hm_remove h (pending s)\<rparr>)"
      "s' = reply_to r (RErr (IoError ConnectionRefused ''connection failed''))
              (s2\<lparr>tcp_chans := drop_tcp_channels (E_tch E) ch (tcp_chans s2)\<rparr>)"
  | (accepted) r st a l p ss1 st1 where "map_of (pending s) h = Some (PendingAccept r)"
      "map_of (listeners s) h = Some st"
      "try_accept_socket E (sockets s) st = Some (Some (a, l, p), ss1, st1)"
      "s' = finish_accept E a l p r (s\<lparr>sockets := ss1, listeners := hm_insert h st1 (listeners s),
              pending := hm_remove h (pending s)\<rparr>)"
  | (closed) r where "map_of (pending s) h = Some (PendingAccept r)" "map_of (listeners s) h = None"
      "s' = reply_to r (RErr (IoError InvalidInput ''listener closed''))
              (s\<lparr>pending := hm_remove h (pending s)\<rparr>)"
proof (cases "map_of (pending s) h")
  case None
  with assms show thesis
    by (intro waiting [of "listeners s" "sockets s"]) (simp_all add: process_pending_one_def)
next
  case (Some op)
  show thesis
  proof (cases op)
    case (PendingConnect la pa ch r)
    with Some assms obtain t where t: "get_tcp (E_set E) (sockets s) h = Some t"
      by (auto simp: process_pending_one_def bind_eq_Some_conv)
    consider "tcp_sock_state (E_tcp E) t = Established"
      | "tcp_sock_state (E_tcp E) t \<in> {Closed, TimeWait}"
      | "tcp_sock_state (E_tcp E) t \<notin> {Established, Closed, TimeWait}" by blast
    then show ?thesis
    proof cases
      case 1
      with Some PendingConnect t assms show ?thesis
        by (intro connected [of la pa ch r t]) (simp_all add: process_pending_one_def)
    next
      case 2
      with Some PendingConnect t assms show ?thesis
        by (intro refused [of la pa ch r t]) (auto simp: process_pending_one_def Let_def)
    next
      case 3
      with Some PendingConnect t assms show ?thesis
        by (intro waiting [of "listeners s" "sockets s"]) (simp_all add: process_pending_one_def)
    qed
  next
    case (PendingAccept r)
    show ?thesis
    proof (cases "map_of (listeners s) h")
      case None
      with Some PendingAccept assms show ?thesis
        by (intro closed [of r]) (simp_all add: process_pending_one_def)
    next
      case l: (Some st)
      with Some PendingAccept assms obtain res ss1 st1 where
        t: "try_accept_socket E (sockets s) st = Some (res, ss1, st1)"
        by (auto simp: process_pending_one_def bind_eq_Some_conv)
      show ?thesis
      proof (cases res)
        case None
        with t have "ss1 = sockets s" "st1 = st" by (auto elim: try_accept_cases)
        with None Some PendingAccept l t assms show ?thesis
          by (intro waiting [of "hm_insert h st (listeners s)" "sockets s"])
             (auto simp: process_pending_one_def)
      next
        case x: (Some x)
        with Some PendingAccept l t assms show ?thesis
          by (intro accepted [of r st "fst x" "fst (snd x)" "snd (snd x)" ss1 st1])
             (auto simp: process_pending_one_def split_beta)
      qed
    qed
  qed
qed

end
