(* ===== verification/Stack_Ledger.thy ===== *)
theory Stack_Ledger
  imports Stack_Lemmas
begin

text \<open>
  No request to the stack task is lost and none is answered twice. Every command that
  carries a response sender adds it to the ledger; the ledger is what is pending together
  with what was answered or dropped. Every handler keeps the balance, whatever the
  libraries do.
\<close>

section \<open>The ledger of responses\<close>

definition ledger :: "('ifc, 'set, 'c, 'd) stack \<Rightarrow> response multiset" where
  "ledger s = mset (map op_response (map snd (pending s))) + mset (map ev_response (events s))"

fun cmd_responses :: "stack_command \<Rightarrow> response multiset" where
  "cmd_responses (TcpConnect _ _ r) = {#r#}"
| "cmd_responses (TcpListen _ _ r) = {#r#}"
| "cmd_responses (TcpAccept _ r) = {#r#}"
| "cmd_responses (TcpListenerClose _) = {#}"
| "cmd_responses (TcpClose _) = {#}"
| "cmd_responses (UdpBind _ r) = {#r#}"
| "cmd_responses (UdpClose _) = {#}"
| "cmd_responses (AddIp _ _ r) = {#r#}"
| "cmd_responses (RemoveIp _ r) = {#r#}"
| "cmd_responses (GetIps r) = {#r#}"

lemma owed_remove:
  "hm_ok m \<Longrightarrow> map_of m h = Some op \<Longrightarrow>
     mset (map op_response (map snd m)) =
       add_mset (op_response op) (mset (map op_response (map snd (hm_remove h m))))"
  using hm_values_remove [of m h op] by (metis image_mset_add_mset mset_map)

lemma owed_insert_old:
  "hm_ok m \<Longrightarrow> map_of m h = Some op \<Longrightarrow>
     add_mset (op_response op) (mset (map op_response (map snd (hm_insert h op' m)))) =
       add_mset (op_response op') (mset (map op_response (map snd m)))"
  using hm_values_insert [of m h op op'] by (metis image_mset_add_mset mset_map)

lemma ledger_insert_pending:
  "hm_ok (pending s) \<Longrightarrow>
     ledger (insert_pending E h op s) = add_mset (op_response op) (ledger s)"
proof (cases "map_of (pending s) h")
  case None
  then show ?thesis
    by (simp add: ledger_def insert_pending_def hm_insert_fresh)
next
  case (Some old)
  assume "hm_ok (pending s)"
  from owed_insert_old [OF this Some, of op] Some show ?thesis
    by (simp add: ledger_def insert_pending_def)
qed

lemma ledger_discard_pending:
  "hm_ok (pending s) \<Longrightarrow> ledger (discard_pending E h s) = ledger s"
  using owed_remove [of "pending s" h]
  by (cases "map_of (pending s) h") (simp_all add: ledger_def discard_pending_def)

lemma ledger_same:
  "pending s' = pending s \<Longrightarrow> events s' = events s \<Longrightarrow> ledger s' = ledger s"
  by (simp add: ledger_def)

lemma ledger_reply:
  "pending s' = pending s \<Longrightarrow> map ev_response (events s') = map ev_response (events s) @ [r] \<Longrightarrow>
     ledger s' = add_mset r (ledger s)"
  unfolding ledger_def by simp

lemma ledger_reply_pending:
  "hm_ok (pending s) \<Longrightarrow> map_of (pending s) h = Some op \<Longrightarrow>
     pending s' = hm_remove h (pending s) \<Longrightarrow>
     map ev_response (events s') = map ev_response (events s) @ [op_response op] \<Longrightarrow>
     ledger s' = ledger s"
  unfolding ledger_def using owed_remove [of "pending s" h op] by simp

section \<open>Every handler keeps the ledger\<close>

lemma create_tcp_channels_frame:
  "create_tcp_channels E s = (channels, state, s') \<Longrightarrow>
     pending s' = pending s \<and> events s' = events s \<and> listeners s' = listeners s \<and>
     tcp_states s' = tcp_states s \<and> udp_states s' = udp_states s \<and> sockets s' = sockets s \<and>
     iface s' = iface s"
  by (auto simp: create_tcp_channels_def Let_def)

lemma ledger_tcp_connect:
  assumes "hm_ok (pending s)" and "handle_tcp_connect E cfg lip addr r s = Some s'"
  shows "hm_ok (pending s') \<and> ledger s' = add_mset r (ledger s)"
  using assms(2)
proof (cases rule: handle_tcp_connect_cases)
  case failed
  with assms(1) show ?thesis by (auto intro!: ledger_reply)
next
  case (started h ss1 sock sock' ifc' channels state s3 rem loc la)
  from create_tcp_channels_frame [OF started(3)]
  have "pending (insert_tcp_state E h state s3) = pending s"
    "ledger (insert_tcp_state E h state s3) = ledger s" by (simp_all add: ledger_def)
  with started(4) assms(1) show ?thesis by (simp add: ledger_insert_pending)
qed

lemma ledger_tcp_listen:
  assumes "hm_ok (pending s)" and "handle_tcp_listen E addr n r s = Some s'"
  shows "hm_ok (pending s') \<and> ledger s' = add_mset r (ledger s)"
  using assms(2) by (cases rule: handle_tcp_listen_cases) (use assms(1) in \<open>auto intro!: ledger_reply\<close>)

lemma ledger_tcp_accept:
  assumes "hm_ok (pending s)" and "handle_tcp_accept E h r s = Some s'"
  shows "hm_ok (pending s') \<and> ledger s' = add_mset r (ledger s)"
proof (cases "map_of (listeners s) h")
  case None
  with assms show ?thesis by (auto simp: handle_tcp_accept_def intro!: ledger_reply)
next
  case (Some st)
  with assms(2) obtain res ss1 st1 where t: "try_accept_socket E (sockets s) st = Some (res, ss1, st1)"
    by (auto simp: handle_tcp_accept_def bind_eq_Some_conv)
  let ?s = "s\<lparr>sockets := ss1, listeners := hm_insert h st1 (listeners s)\<rparr>"
  have l: "ledger ?s = ledger s" by (simp add: ledger_def)
  show ?thesis
  proof (cases res)
    case None
    with Some t assms(2) have "s' = insert_pending E h (PendingAccept r) ?s"
      by (simp add: handle_tcp_accept_def Let_def)
    with assms(1) l show ?thesis by (simp add: ledger_insert_pending)
  next
    case (Some x)
    with t assms(2) \<open>map_of (listeners s) h = Some st\<close>
    have "s' = finish_accept E (fst x) (fst (snd x)) (snd (snd x)) r ?s"
      by (simp add: handle_tcp_accept_def Let_def split_beta)
    with assms(1) show ?thesis by (auto intro!: ledger_reply)
  qed
qed

lemma ledger_tcp_listener_close:
  assumes "hm_ok (pending s)" and "handle_tcp_listener_close E h s = Some s'"
  shows "hm_ok (pending s') \<and> ledger s' = ledger s"
proof -
  have "pending s' = pending (discard_pending E h s) \<and> events s' = events (discard_pending E h s)"
    using assms(2)
    by (auto simp: handle_tcp_listener_close_def Let_def bind_eq_Some_conv split: option.splits)
  then have "ledger s' = ledger (discard_pending E h s)" "pending s' = hm_remove h (pending s)"
    by (simp_all add: ledger_same)
  then show ?thesis using assms(1) by (simp add: ledger_discard_pending)
qed

lemma ledger_closes:
  assumes "hm_ok (pending s)"
  shows "handle_tcp_close E h s = Some s' \<Longrightarrow> hm_ok (pending s') \<and> ledger s' = ledger s"
    and "handle_udp_close E h s = Some s' \<Longrightarrow> hm_ok (pending s') \<and> ledger s' = ledger s"
  using assms
  by (auto simp: handle_tcp_close_def handle_udp_close_def Let_def bind_eq_Some_conv
      intro!: ledger_same)

lemma ledger_udp_bind:
  assumes "hm_ok (pending s)" and "handle_udp_bind E addr r s = Some s'"
  shows "hm_ok (pending s') \<and> ledger s' = add_mset r (ledger s)"
  using assms
  by (auto simp: handle_udp_bind_def Let_def allocate_ephemeral_port_def create_udp_channels_def
      split: prod.splits sum.splits if_splits intro!: ledger_reply)

lemma ledger_ips:
  assumes "hm_ok (pending s)"
  shows "handle_add_ip E ip p r s = Some s' \<Longrightarrow> hm_ok (pending s') \<and> ledger s' = add_mset r (ledger s)"
    and "handle_remove_ip E ip r s = Some s' \<Longrightarrow> hm_ok (pending s') \<and> ledger s' = add_mset r (ledger s)"
    and "handle_get_ips E r s = Some s' \<Longrightarrow> hm_ok (pending s') \<and> ledger s' = add_mset r (ledger s)"
  using assms
  by (auto simp: handle_add_ip_def handle_remove_ip_def handle_get_ips_def Let_def
      bind_eq_Some_conv split: if_splits intro!: ledger_reply)

lemmas ledger_handlers = ledger_tcp_connect ledger_tcp_listen ledger_tcp_accept
  ledger_tcp_listener_close ledger_closes ledger_udp_bind ledger_ips

lemma ledger_handle_command:
  assumes "hm_ok (pending s)" and "handle_command E cfg cmd s = Some (b, s')"
  shows "b \<and> hm_ok (pending s') \<and> ledger s' = ledger s + cmd_responses cmd"
  using assms(2) by (cases cmd) (auto dest!: ledger_handlers [OF assms(1)])

lemma ledger_process_pending_one:
  assumes "hm_ok (pending s)" and "process_pending_one E h s = Some s'"
  shows "hm_ok (pending s') \<and> ledger s' = ledger s"
  using assms(2)
proof (cases rule: process_pending_one_cases)
  case waiting
  with assms(1) show ?thesis by (simp add: ledger_def)
next
  case connected
  with assms(1) show ?thesis by (auto intro!: ledger_reply_pending)
next
  case refused
  with assms(1) show ?thesis by (auto intro!: ledger_reply_pending)
next
  case accepted
  with assms(1) show ?thesis by (auto intro!: ledger_reply_pending)
next
  case closed
  with assms(1) show ?thesis by (auto intro!: ledger_reply_pending)
qed

lemma ledger_process_pending:
  assumes "hm_ok (pending s)" and "process_pending E ord s = Some s'"
  shows "hm_ok (pending s') \<and> ledger s' = ledger s"
proof (rule for_handles_invariant [where P = "\<lambda>t. hm_ok (pending t) \<and> ledger t = ledger s"])
  show "for_handles (process_pending_one E) (ord (hm_keys (pending s))) s = Some s'"
    using assms(2) by (simp add: process_pending_def Let_def)
qed (use assms(1) ledger_process_pending_one in \<open>auto\<close>)

end
