(* ===== verification/Stack_Data.thy ===== *)
theory Stack_Data
  imports Stack_Handlers
begin

text \<open>
  The data path of the stack task: \<^verbatim>\<open>process_tcp_write\<close>, \<^verbatim>\<open>process_tcp_read\<close>,
  \<^verbatim>\<open>process_udp_write\<close>, \<^verbatim>\<open>process_udp_read\<close> and the two polls over all sockets of
  \<^verbatim>\<open>src/stack/mod.rs\<close>. Their \<^verbatim>\<open>while\<close> loops call the libraries until these say stop, so
  they are partial functions: \<open>None\<close> is a loop that does not end. That they end, and what
  they move, follows from the documented behaviour of channels and sockets.
\<close>

section \<open>TCP: application to socket\<close>

text \<open>The \<^verbatim>\<open>while socket.can_send()\<close> loop; the result is the socket, the channel and
  \<^verbatim>\<open>pending_write\<close>.\<close>

partial_function (option) tcp_write_loop ::
    "'tcp tcp_api \<Rightarrow> ('c, bytes) mpsc \<Rightarrow> 'tcp \<Rightarrow> 'c \<Rightarrow> ('tcp \<times> 'c \<times> bytes option) option" where
  "tcp_write_loop T C socket c =
     (if tcp_can_send T socket then
        (case try_recv C c of
           (RecvOk data, c1) \<Rightarrow>
             (case tcp_send_slice T socket data of
                (Some n, socket1) \<Rightarrow>
                  if n < length data then Some (socket1, c1, Some (drop n data))
                  else tcp_write_loop T C socket1 c1
              | (None, socket1) \<Rightarrow> Some (socket1, c1, None))
         | (RecvEmpty, c1) \<Rightarrow> Some (socket, c1, None)
         | (RecvDisconnected, c1) \<Rightarrow> Some (tcp_close T socket, c1, None))
      else Some (socket, c, None))"

definition process_tcp_write ::
    "'tcp tcp_api \<Rightarrow> ('c, bytes) mpsc \<Rightarrow> 'tcp \<Rightarrow> 'c \<Rightarrow> bytes option \<Rightarrow>
     ('tcp \<times> 'c \<times> bytes option) option" where
  "process_tcp_write T C socket c pending_write =
     (case pending_write of
        Some part \<Rightarrow>
          (if tcp_may_send T socket then
             (case tcp_send_slice T socket part of
                (Some n, socket1) \<Rightarrow>
                  if n < length part then Some (socket1, c, Some (drop n part))
                  else tcp_write_loop T C socket1 c
              | (None, socket1) \<Rightarrow> Some (socket1, c, None))
           else Some (socket, c, Some part))
      | None \<Rightarrow> tcp_write_loop T C socket c)"

section \<open>TCP: socket to application\<close>

partial_function (option) tcp_read_loop ::
    "'tcp tcp_api \<Rightarrow> ('c, bytes) mpsc \<Rightarrow> 'tcp \<Rightarrow> 'c \<Rightarrow> ('tcp \<times> 'c) option" where
  "tcp_read_loop T C socket c =
     (if tcp_can_recv T socket then
        (if try_reserve C c then
           (case tcp_recv_slice T socket TCP_SOCKET_BUFFER_SIZE of
              (Some buf, socket1) \<Rightarrow>
                if 0 < length buf then tcp_read_loop T C socket1 (permit_send C c buf)
                else Some (socket1, c)
            | (None, socket1) \<Rightarrow> Some (socket1, c))
         else Some (socket, c))
      else Some (socket, c))"

definition process_tcp_read ::
    "'tcp tcp_api \<Rightarrow> ('c, bytes) mpsc \<Rightarrow> 'tcp \<Rightarrow> 'c \<Rightarrow> ('tcp \<times> 'c) option" where
  "process_tcp_read T C socket c = tcp_read_loop T C socket c"

section \<open>UDP\<close>

partial_function (option) udp_write_loop ::
    "'udp udp_api \<Rightarrow> ('d, bytes \<times> socket_addr) mpsc \<Rightarrow> 'udp \<Rightarrow> 'd \<Rightarrow> tunnel_stats \<Rightarrow>
     ('udp \<times> 'd \<times> tunnel_stats) option" where
  "udp_write_loop U C socket c st =
     (if udp_can_send U socket then
        (case try_recv C c of
           (RecvOk (data, dest), c1) \<Rightarrow>
             (case udp_send_slice U socket data (socket_addr_to_endpoint dest) of
                (sent, socket1) \<Rightarrow>
                  udp_write_loop U C socket1 c1
                    (if sent then st\<lparr>udp_tx_packets := udp_tx_packets st + 1\<rparr>
                     else st\<lparr>udp_tx_failed := udp_tx_failed st + 1\<rparr>))
         | (RecvEmpty, c1) \<Rightarrow> Some (socket, c1, st)
         | (RecvDisconnected, c1) \<Rightarrow> Some (udp_close U socket, c1, st))
      else Some (socket, c, st))"

definition process_udp_write ::
    "'udp udp_api \<Rightarrow> ('d, bytes \<times> socket_addr) mpsc \<Rightarrow> 'udp \<Rightarrow> 'd \<Rightarrow> tunnel_stats \<Rightarrow>
     ('udp \<times> 'd \<times> tunnel_stats) option" where
  "process_udp_write U C socket c st = udp_write_loop U C socket c st"

partial_function (option) udp_read_loop ::
    "'udp udp_api \<Rightarrow> ('d, bytes \<times> socket_addr) mpsc \<Rightarrow> 'udp \<Rightarrow> 'd \<Rightarrow> tunnel_stats \<Rightarrow>
     ('udp \<times> 'd \<times> tunnel_stats) option" where
  "udp_read_loop U C socket c st =
     (if udp_can_recv U socket then
        (if try_reserve C c then
           (case udp_recv_slice U socket UDP_READ_BUF_SIZE of
              (Some (buf, ep), socket1) \<Rightarrow>
                udp_read_loop U C socket1 (permit_send C c (buf, endpoint_to_socket_addr ep))
                  (st\<lparr>udp_rx_packets := udp_rx_packets st + 1\<rparr>)
            | (None, socket1) \<Rightarrow> Some (socket1, c, st))
         else Some (socket, c, st\<lparr>udp_rx_dropped := udp_rx_dropped st + 1\<rparr>))
      else Some (socket, c, st))"

definition process_udp_read ::
    "'udp udp_api \<Rightarrow> ('d, bytes \<times> socket_addr) mpsc \<Rightarrow> 'udp \<Rightarrow> 'd \<Rightarrow> tunnel_stats \<Rightarrow>
     ('udp \<times> 'd \<times> tunnel_stats) option" where
  "process_udp_read U C socket c st = udp_read_loop U C socket c st"

section \<open>All sockets\<close>

text \<open>
  One round of each of the four loops over \<^verbatim>\<open>tcp_states\<close> and \<^verbatim>\<open>udp_states\<close>; \<open>None\<close> is a
  handle the socket set does not know.
\<close>

definition tcp_write_one ::
    "('ifc, 'set, 'tcp, 'udp, 'c, 'd) stack_env \<Rightarrow> handle \<Rightarrow>
     ('ifc, 'set, 'c, 'd) stack \<Rightarrow> ('ifc, 'set, 'c, 'd) stack option" where
  "tcp_write_one E h s = do {
     st \<leftarrow> map_of (tcp_states s) h;
     socket \<leftarrow> get_tcp (E_set E) (sockets s) h;
     (socket', c', pw') \<leftarrow> process_tcp_write (E_tcp E) (E_tch E) socket
        (tcp_chans s (ts_write_rx st)) (ts_pending_write st);
     Some (s\<lparr>sockets := put_tcp (E_set E) (sockets s) h socket',
             tcp_states := hm_insert h (st\<lparr>ts_pending_write := pw'\<rparr>) (tcp_states s),
             tcp_chans := (tcp_chans s)(ts_write_rx st := c')\<rparr>)
   }"

definition udp_write_one ::
    "('ifc, 'set, 'tcp, 'udp, 'c, 'd) stack_env \<Rightarrow> handle \<Rightarrow>
     ('ifc, 'set, 'c, 'd) stack \<Rightarrow> ('ifc, 'set, 'c, 'd) stack option" where
  "udp_write_one E h s = do {
     st \<leftarrow> map_of (udp_states s) h;
     socket \<leftarrow> get_udp (E_set E) (sockets s) h;
     (socket', c', stats') \<leftarrow> process_udp_write (E_udp E) (E_uch E) socket
        (udp_chans s (us_write_rx st)) (stats s);
     Some (s\<lparr>sockets := put_udp (E_set E) (sockets s) h socket',
             udp_chans := (udp_chans s)(us_write_rx st := c'), stats := stats'\<rparr>)
   }"

definition tcp_read_one ::
    "('ifc, 'set, 'tcp, 'udp, 'c, 'd) stack_env \<Rightarrow> handle \<Rightarrow>
     ('ifc, 'set, 'c, 'd) stack \<Rightarrow> ('ifc, 'set, 'c, 'd) stack option" where
  "tcp_read_one E h s = do {
     st \<leftarrow> map_of (tcp_states s) h;
     socket \<leftarrow> get_tcp (E_set E) (sockets s) h;
     (socket', c') \<leftarrow> process_tcp_read (E_tcp E) (E_tch E) socket (tcp_chans s (ts_read_tx st));
     Some (s\<lparr>sockets := put_tcp (E_set E) (sockets s) h socket',
             tcp_chans := (tcp_chans s)(ts_read_tx st := c')\<rparr>)
   }"

definition udp_read_one ::
    "('ifc, 'set, 'tcp, 'udp, 'c, 'd) stack_env \<Rightarrow> handle \<Rightarrow>
     ('ifc, 'set, 'c, 'd) stack \<Rightarrow> ('ifc, 'set, 'c, 'd) stack option" where
  "udp_read_one E h s = do {
     st \<leftarrow> map_of (udp_states s) h;
     socket \<leftarrow> get_udp (E_set E) (sockets s) h;
     (socket', c', stats') \<leftarrow> process_udp_read (E_udp E) (E_uch E) socket
        (udp_chans s (us_read_tx st)) (stats s);
     Some (s\<lparr>sockets := put_udp (E_set E) (sockets s) h socket',
             udp_chans := (udp_chans s)(us_read_tx st := c'), stats := stats'\<rparr>)
   }"

definition poll_write_channels ::
    "('ifc, 'set, 'tcp, 'udp, 'c, 'd) stack_env \<Rightarrow> (handle list \<Rightarrow> handle list) \<Rightarrow>
     ('ifc, 'set, 'c, 'd) stack \<Rightarrow> ('ifc, 'set, 'c, 'd) stack option" where
  "poll_write_channels E ord s = do {
     s1 \<leftarrow> for_handles (tcp_write_one E) (ord (hm_keys (tcp_states s))) s;
     for_handles (udp_write_one E) (ord (hm_keys (udp_states s1))) s1
   }"

definition poll_read_channels ::
    "('ifc, 'set, 'tcp, 'udp, 'c, 'd) stack_env \<Rightarrow> (handle list \<Rightarrow> handle list) \<Rightarrow>
     ('ifc, 'set, 'c, 'd) stack \<Rightarrow> ('ifc, 'set, 'c, 'd) stack option" where
  "poll_read_channels E ord s = do {
     s1 \<leftarrow> for_handles (tcp_read_one E) (ord (hm_keys (tcp_states s))) s;
     for_handles (udp_read_one E) (ord (hm_keys (udp_states s1))) s1
   }"

section \<open>What the TCP write path moves\<close>

definition pending_bytes :: "bytes option \<Rightarrow> bytes" where
  "pending_bytes pw = (case pw of Some d \<Rightarrow> d | None \<Rightarrow> [])"

definition tcp_written ::
    "bytes \<Rightarrow> tcp_sock \<Rightarrow> bytes chan \<Rightarrow> tcp_sock \<Rightarrow> bytes chan \<Rightarrow> bytes option \<Rightarrow> bool" where
  "tcp_written part k c k' c' pw' \<longleftrightarrow>
     (let stream = sk_tx k @ part @ concat (queue c);
          cap = sk_tx_cap k
      in k' = k\<lparr>sk_state := (if length stream < cap \<and> \<not> has_sender c
                              then closing_state (sk_state k) else sk_state k),
                sk_tx := take cap stream\<rparr> \<and>
         pending_bytes pw' @ concat (queue c') = drop cap stream \<and>
         (\<exists>n. c' = c\<lparr>queue := drop n (queue c)\<rparr>) \<and> pw' \<noteq> Some [])"

lemma tcp_write_loop_spec:
  assumes T: "tcp_refines T tv" and C: "mpsc_refines C cv"
    and "sk_may_send (tv socket)" and "length (sk_tx (tv socket)) \<le> sk_tx_cap (tv socket)"
  shows "\<exists>socket' c' pw'. tcp_write_loop T C socket c = Some (socket', c', pw') \<and>
     tcp_written [] (tv socket) (cv c) (tv socket') (cv c') pw'"
  using assms(3,4)
proof (induction "queue (cv c)" arbitrary: socket c rule: length_induct)
  case 1
  let ?k = "tv socket"
  note IH = 1(1)[rule_format]
  note simps = tcp_observe [OF T] tcp_written_def Let_def sk_can_send_def pending_bytes_def
  show ?case
  proof (cases "length (sk_tx ?k) < sk_tx_cap ?k")
    case False
    with 1(2,3) show ?thesis
      by (subst tcp_write_loop.simps) (auto simp: simps intro!: exI [of _ 0])
  next
    case room: True
    from C show ?thesis
    proof (cases rule: try_recv_cases [where c = c])
      case (empty c')
      with room 1(2,3) show ?thesis
        by (subst tcp_write_loop.simps) (auto simp: simps)
    next
      case (disconnected c')
      with room 1(2,3) show ?thesis
        by (subst tcp_write_loop.simps) (auto simp: simps sk_close_def)
    next
      case (ok x c1 xs)
      let ?room = "sk_tx_cap ?k - length (sk_tx ?k)"
      from tcp_send_slice_view [OF T 1(2), of x] obtain s1 where
        s1: "tcp_send_slice T socket x = (Some (min (length x) ?room), s1)"
          "tv s1 = ?k\<lparr>sk_tx := sk_tx ?k @ take ?room x\<rparr>" by blast
      show ?thesis
      proof (cases "?room < length x")
        case True
        with room 1(2,3) ok s1 show ?thesis
          by (subst tcp_write_loop.simps)
             (auto simp: simps min_def intro!: exI [of _ 1])
      next
        case False
        then have x: "take ?room x = x" and n: "\<not> min (length x) ?room < length x" by auto
        have "sk_may_send (tv s1)" "length (sk_tx (tv s1)) \<le> sk_tx_cap (tv s1)"
          using 1(2) s1(2) x False room by (auto simp: sk_may_send_def)
        with IH [of "queue (cv c1)" c1 s1] ok obtain socket' c' pw' where
          r: "tcp_write_loop T C s1 c1 = Some (socket', c', pw')"
             "tcp_written [] (tv s1) (cv c1) (tv socket') (cv c') pw'" by auto
        from r(1) room 1(2) ok(1) s1(1) n have "tcp_write_loop T C socket c = Some (socket', c', pw')"
          by (subst tcp_write_loop.simps) (auto simp: simps)
        moreover from r(2) ok(2,3) s1(2) x
        have "tcp_written [] ?k (cv c) (tv socket') (cv c') pw'"
          by (auto simp: tcp_written_def Let_def intro: exI [of _ "Suc _"])
        ultimately show ?thesis by blast
      qed
    qed
  qed
qed


text \<open>
  C8: On a socket that may send, the write path returns and takes the stream of bytes (what is in
  the transmit buffer, the partial write, what is queued by the application) in order:
  the transmit buffer is filled as far as it goes, nothing of the rest is lost, duplicated
  or reordered, and the socket is closed exactly when everything fitted with room to spare
  and the application has dropped its end.
\<close>

theorem process_tcp_write_correct:
  assumes "tcp_refines T tv" and "mpsc_refines C cv"
    and "sk_may_send (tv socket)" and "length (sk_tx (tv socket)) \<le> sk_tx_cap (tv socket)"
  shows "\<exists>socket' c' pw'. process_tcp_write T C socket c pw = Some (socket', c', pw') \<and>
     tcp_written (pending_bytes pw) (tv socket) (cv c) (tv socket') (cv c') pw'"
proof (cases pw)
  case None
  with tcp_write_loop_spec [OF assms, of c] show ?thesis
    by (simp add: process_tcp_write_def pending_bytes_def)
next
  case (Some p)
  let ?k = "tv socket"
  let ?room = "sk_tx_cap ?k - length (sk_tx ?k)"
  from tcp_send_slice_view [OF assms(1,3), of p] obtain s1 where
    s1: "tcp_send_slice T socket p = (Some (min (length p) ?room), s1)"
      "tv s1 = ?k\<lparr>sk_tx := sk_tx ?k @ take ?room p\<rparr>" by blast
  show ?thesis
  proof (cases "?room < length p")
    case True
    with Some s1 assms show ?thesis
      by (auto simp: process_tcp_write_def tcp_observe [OF assms(1)] tcp_written_def Let_def
          pending_bytes_def min_def intro!: exI [of _ 0])
  next
    case False
    then have p: "take ?room p = p" and n: "\<not> min (length p) ?room < length p" by auto
    have "sk_may_send (tv s1)" "length (sk_tx (tv s1)) \<le> sk_tx_cap (tv s1)"
      using assms(3,4) s1(2) p False by (auto simp: sk_may_send_def)
    from tcp_write_loop_spec [OF assms(1,2) this, of c] obtain socket' c' pw' where
      "tcp_write_loop T C s1 c = Some (socket', c', pw')"
      "tcp_written [] (tv s1) (cv c) (tv socket') (cv c') pw'" by blast
    with Some s1 p n assms show ?thesis
      by (auto simp: process_tcp_write_def tcp_observe [OF assms(1)] tcp_written_def Let_def
          pending_bytes_def)
  qed
qed

text \<open>Witness: a three-byte transmit buffer, a partial write and two queued chunks.\<close>

theorem process_tcp_write_correct_witness:
  "\<exists>socket' c' pw'. process_tcp_write sk_tcp chan_mpsc
        ((sk_new 8 3)\<lparr>sk_state := Established, sk_tx := [1]\<rparr>)
        ((chan_new 8)\<lparr>queue := [[3, 4], [5]]\<rparr>) (Some [2]) = Some (socket', c', pw') \<and>
     sk_tx socket' = [1, 2, 3] \<and> pending_bytes pw' @ concat (queue c') = [4, 5]"
proof -
  let ?k = "(sk_new 8 3)\<lparr>sk_state := Established, sk_tx := [1]\<rparr>"
  let ?c = "(chan_new 8)\<lparr>queue := [[3, 4], [5]]\<rparr> :: bytes chan"
  have "sk_may_send (id ?k)" "length (sk_tx (id ?k)) \<le> sk_tx_cap (id ?k)"
    by (simp_all add: sk_may_send_def sk_new_def)
  from process_tcp_write_correct [OF sk_tcp_refines chan_mpsc_refines this, of ?c "Some [2]"]
  obtain k' c' pw' where r: "process_tcp_write sk_tcp chan_mpsc ?k ?c (Some [2]) = Some (k', c', pw')"
      "tcp_written [2] ?k ?c k' c' pw'" by (auto simp: pending_bytes_def)
  then have "sk_tx k' = [1, 2, 3]" "pending_bytes pw' @ concat (queue c') = [4, 5]"
    by (auto simp: tcp_written_def sk_new_def chan_new_def)
  with r show ?thesis by blast
qed

lemma process_tcp_write_blocked:
  "tcp_refines T tv \<Longrightarrow> \<not> sk_may_send (tv socket) \<Longrightarrow>
     process_tcp_write T C socket c pw = Some (socket, c, pw)"
  by (auto simp: process_tcp_write_def tcp_observe sk_can_send_def tcp_write_loop.simps
      split: option.split)

section \<open>What the TCP read path moves\<close>

definition tcp_delivered :: "tcp_sock \<Rightarrow> bytes chan \<Rightarrow> tcp_sock \<Rightarrow> bytes chan \<Rightarrow> bool" where
  "tcp_delivered k c k' c' \<longleftrightarrow>
     (\<exists>chunks. sk_rx k = concat chunks @ sk_rx k' \<and> [] \<notin> set chunks \<and>
        k' = k\<lparr>sk_rx := sk_rx k'\<rparr> \<and> c' = c\<lparr>queue := queue c @ chunks\<rparr> \<and>
        length (queue c') \<le> max (capacity c) (length (queue c)) \<and>
        (sk_rx k' = [] \<or> \<not> chan_try_reserve c'))"

text \<open>
  C9: The read path returns, moves a prefix of the receive buffer to the application's
  channel, in order, without loss, duplication or an empty chunk (which a reader would take
  for end of file), never overfills the channel, and stops only when the buffer is empty or
  the channel takes no more.
\<close>

theorem process_tcp_read_correct:
  assumes "tcp_refines T tv" and "mpsc_refines C cv"
  shows "\<exists>socket' c'. process_tcp_read T C socket c = Some (socket', c') \<and>
     tcp_delivered (tv socket) (cv c) (tv socket') (cv c')"
  unfolding process_tcp_read_def
proof (induction "sk_rx (tv socket)" arbitrary: socket c rule: length_induct)
  case 1
  note IH = 1 [rule_format]
  let ?k = "tv socket"
  note simps = tcp_observe [OF assms(1)] mpsc_try_reserve [OF assms(2)]
  show ?case
  proof (cases "sk_rx ?k \<noteq> [] \<and> chan_try_reserve (cv c)")
    case False
    then show ?thesis
      by (subst tcp_read_loop.simps) (auto simp: simps tcp_delivered_def intro!: exI [of _ "[]"])
  next
    case True
    let ?m = TCP_SOCKET_BUFFER_SIZE
    let ?buf = "take ?m (sk_rx ?k)"
    from tcp_recv_slice_view [OF assms(1), of socket ?m] True obtain s1 where
      s1: "tcp_recv_slice T socket ?m = (Some ?buf, s1)" "tv s1 = ?k\<lparr>sk_rx := drop ?m (sk_rx ?k)\<rparr>"
      by blast
    have m: "0 < ?m" by (simp add: TCP_SOCKET_BUFFER_SIZE_def)
    then have buf: "?buf \<noteq> []" "length (sk_rx (tv s1)) < length (sk_rx ?k)"
      using True s1(2) by (auto simp: diff_less)
    from IH [OF buf(2) refl, of "permit_send C c ?buf"] obtain socket' c' where
      r: "tcp_read_loop T C s1 (permit_send C c ?buf) = Some (socket', c')"
        "tcp_delivered (tv s1) (cv (permit_send C c ?buf)) (tv socket') (cv c')" by blast
    have "tcp_read_loop T C socket c = Some (socket', c')"
      using True s1(1) buf(1) r(1) by (subst tcp_read_loop.simps) (simp add: simps)
    moreover have "tcp_delivered ?k (cv c) (tv socket') (cv c')"
    proof -
      from r(2) obtain chunks where ch: "sk_rx (tv s1) = concat chunks @ sk_rx (tv socket')"
        "[] \<notin> set chunks" "tv socket' = (tv s1)\<lparr>sk_rx := sk_rx (tv socket')\<rparr>"
        "cv c' = (cv c)\<lparr>queue := queue (cv c) @ ?buf # chunks\<rparr>"
        "length (queue (cv c')) \<le> max (capacity (cv c)) (Suc (length (queue (cv c))))"
        "sk_rx (tv socket') = [] \<or> \<not> chan_try_reserve (cv c')"
        unfolding tcp_delivered_def mpsc_permit_send [OF assms(2)] chan_permit_send_def by auto
      from ch(1) s1(2) have "sk_rx ?k = concat (?buf # chunks) @ sk_rx (tv socket')"
        by (metis append.assoc append_take_drop_id concat.simps(2) tcp_sock.select_convs(4)
            tcp_sock.update_convs(4) tcp_sock.surjective)
      moreover have "tv socket' = ?k\<lparr>sk_rx := sk_rx (tv socket')\<rparr>"
        using ch(3) s1(2) by simp
      moreover have "length (queue (cv c')) \<le> max (capacity (cv c)) (length (queue (cv c)))"
        using ch(5) True by (auto simp: chan_try_reserve_def)
      ultimately show ?thesis
        unfolding tcp_delivered_def using ch(2,4,6) buf(1)
        by (intro exI [of _ "?buf # chunks"]) auto
    qed
    ultimately show ?thesis by blast
  qed
qed

text \<open>Witness: two octets received, none queued.\<close>

theorem process_tcp_read_correct_witness:
  "\<exists>socket' c'. process_tcp_read sk_tcp chan_mpsc
        ((sk_new 8 8)\<lparr>sk_state := Established, sk_rx := [1, 2]\<rparr>) (chan_new 1) = Some (socket', c') \<and>
     concat (queue c') @ sk_rx socket' = [1, 2]"
proof -
  let ?k = "(sk_new 8 8)\<lparr>sk_state := Established, sk_rx := [1, 2]\<rparr>"
  from process_tcp_read_correct [OF sk_tcp_refines chan_mpsc_refines, of ?k "chan_new 1"]
  obtain k' c' where "process_tcp_read sk_tcp chan_mpsc ?k (chan_new 1) = Some (k', c')"
      "tcp_delivered ?k (chan_new 1) k' c'" by auto
  moreover from this have "concat (queue c') @ sk_rx k' = [1, 2]"
    by (auto simp: tcp_delivered_def chan_new_def)
  ultimately show ?thesis by blast
qed

section \<open>What the UDP paths move\<close>

text \<open>\<open>bs\<close> says of each datagram taken from the channel whether the socket took it.\<close>

definition udp_taken ::
    "bool list \<Rightarrow> (bytes \<times> socket_addr) list \<Rightarrow> (bytes \<times> ip_endpoint) list" where
  "udp_taken bs q =
     map (\<lambda>(_, d, a). (d, socket_addr_to_endpoint a)) (filter fst (zip bs q))"

definition count_sent :: "bool list \<Rightarrow> tunnel_stats \<Rightarrow> tunnel_stats" where
  "count_sent bs st = st\<lparr>udp_tx_packets := udp_tx_packets st + of_nat (length (filter id bs)),
     udp_tx_failed := udp_tx_failed st + of_nat (length (filter Not bs))\<rparr>"

lemma count_sent_Cons:
  "count_sent (b # bs) st = count_sent bs (if b then st\<lparr>udp_tx_packets := udp_tx_packets st + 1\<rparr>
     else st\<lparr>udp_tx_failed := udp_tx_failed st + 1\<rparr>)"
  by (simp add: count_sent_def algebra_simps)



lemma udp_recv_slice_view:
  assumes "udp_refines U uv" and "uk_rx (uv s) = p # ps"
  obtains s' where "udp_recv_slice U s m = (if length (fst p) \<le> m then Some p else None, s')"
    "uv s' = (uv s)\<lparr>uk_rx := ps\<rparr>"
proof -
  obtain r s' where r: "udp_recv_slice U s m = (r, s')" by fastforce
  with udp_observe(2) [OF assms(1), of s m] assms(2) that [of s'] show thesis
    by (cases p) (simp add: uk_recv_slice_def)
qed

text \<open>The packets a read of \<open>UDP_READ_BUF_SIZE\<close> bytes can take.\<close>

definition fits :: "bytes \<times> ip_endpoint \<Rightarrow> bool" where
  "fits p \<longleftrightarrow> length (fst p) \<le> UDP_READ_BUF_SIZE"

definition room :: "'a chan \<Rightarrow> nat" where
  "room c = (if has_receiver c then capacity c - length (queue c) else 0)"

definition deliver :: "bytes \<times> ip_endpoint \<Rightarrow> bytes \<times> socket_addr" where
  "deliver p = (fst p, endpoint_to_socket_addr (snd p))"

lemma udp_read_step:
  assumes U: "udp_refines U uv" and C: "mpsc_refines C cv"
    and "uk_rx (uv socket) = p # rx" and "chan_try_reserve (cv c)" and "fits p"
  obtains s1 where "uv s1 = (uv socket)\<lparr>uk_rx := rx\<rparr>"
    "udp_read_loop U C socket c st =
       udp_read_loop U C s1 (permit_send C c (deliver p)) (st\<lparr>udp_rx_packets := udp_rx_packets st + 1\<rparr>)"
proof -
  obtain s1 where s1: "udp_recv_slice U socket UDP_READ_BUF_SIZE = (Some p, s1)"
      "uv s1 = (uv socket)\<lparr>uk_rx := rx\<rparr>"
    using udp_recv_slice_view [OF U assms(3), of UDP_READ_BUF_SIZE] assms(5) by (auto simp: fits_def)
  from s1(1) assms(3,4) have "udp_read_loop U C socket c st =
       udp_read_loop U C s1 (permit_send C c (deliver p)) (st\<lparr>udp_rx_packets := udp_rx_packets st + 1\<rparr>)"
    by (subst udp_read_loop.simps)
       (cases p, simp add: udp_observe(1) [OF U] mpsc_try_reserve [OF C] deliver_def)
  with s1(2) that show thesis by blast
qed

lemma room_reserve: "chan_try_reserve c \<longleftrightarrow> 0 < room c"
  by (auto simp: room_def chan_try_reserve_def)

text \<open>
  C23: The UDP read path returns after moving \<open>n\<close> packets, whole and in order, with the
  address they came from: \<open>n\<close> is limited by the channel's room and by the first packet
  larger than the read buffer. Each is counted. When the channel has no room left and a packet
  waits, the drop counter goes up although the packet stays in the socket; a packet larger
  than the buffer is lost without being counted.
\<close>

theorem process_udp_read_correct:
  assumes "udp_refines U uv" and "mpsc_refines C cv"
    and "rx = uk_rx (uv socket)" and "n = min (room (cv c)) (length (takeWhile fits rx))"
    and "full \<longleftrightarrow> n < length rx \<and> n = room (cv c)"
  shows "\<exists>socket' c'. process_udp_read U C socket c st = Some (socket', c',
       st\<lparr>udp_rx_packets := udp_rx_packets st + of_nat n,
          udp_rx_dropped := udp_rx_dropped st + (if full then 1 else 0)\<rparr>) \<and>
     uv socket' = (uv socket)\<lparr>uk_rx := drop (if full then n else Suc n) rx\<rparr> \<and>
     cv c' = (cv c)\<lparr>queue := queue (cv c) @ map deliver (take n rx)\<rparr>"
  using assms(3-5) unfolding process_udp_read_def
proof (induction rx arbitrary: socket c st n)
  case Nil
  then show ?case
    by (subst udp_read_loop.simps) (auto simp: udp_observe(1) [OF assms(1)])
next
  case (Cons p rx)
  note obs = udp_observe(1) [OF assms(1)] mpsc_try_reserve [OF assms(2)]
  have rx: "uk_rx (uv socket) = p # rx" using Cons.prems(1) by simp
  consider (full) "room (cv c) = 0" | (big) "0 < room (cv c)" "\<not> fits p" | (one) "0 < room (cv c)" "fits p"
    by auto
  then show ?case
  proof cases
    case full
    with rx Cons.prems show ?thesis by (subst udp_read_loop.simps) (auto simp: obs room_reserve)
  next
    case big
    moreover obtain s1 where "udp_recv_slice U socket UDP_READ_BUF_SIZE = (None, s1)"
        "uv s1 = (uv socket)\<lparr>uk_rx := rx\<rparr>"
      using udp_recv_slice_view [OF assms(1) rx, of UDP_READ_BUF_SIZE] big(2) by (auto simp: fits_def)
    moreover have "n = 0" "\<not> full" using big Cons.prems(2,3) by auto
    ultimately show ?thesis using rx by (subst udp_read_loop.simps) (simp add: obs room_reserve)
  next
    case one
    let ?c = "permit_send C c (deliver p)"
    let ?st = "st\<lparr>udp_rx_packets := udp_rx_packets st + 1\<rparr>"
    from udp_read_step [OF assms(1,2) rx] one obtain s1 where
      s1: "uv s1 = (uv socket)\<lparr>uk_rx := rx\<rparr>"
        "udp_read_loop U C socket c st = udp_read_loop U C s1 ?c ?st" by (metis room_reserve)
    have c1: "cv ?c = (cv c)\<lparr>queue := queue (cv c) @ [deliver p]\<rparr>"
      by (simp add: mpsc_permit_send [OF assms(2)] chan_permit_send_def)
    then have room: "room (cv c) = Suc (room (cv ?c))" using one(1) by (auto simp: room_def split: if_splits)
    then obtain m where m: "n = Suc m" "m = min (room (cv ?c)) (length (takeWhile fits rx))"
      using Cons.prems(2) one(2) by auto
    have f: "full \<longleftrightarrow> m < length rx \<and> m = room (cv ?c)" using Cons.prems(3) m room by simp
    have "rx = uk_rx (uv s1)" using s1(1) by simp
    from Cons.IH [OF this m(2) f, of ?st] obtain socket' c' where
      r: "udp_read_loop U C s1 ?c ?st = Some (socket', c',
            ?st\<lparr>udp_rx_packets := udp_rx_packets ?st + of_nat m,
               udp_rx_dropped := udp_rx_dropped ?st + (if full then 1 else 0)\<rparr>)"
        "uv socket' = (uv s1)\<lparr>uk_rx := drop (if full then m else Suc m) rx\<rparr>"
        "cv c' = (cv ?c)\<lparr>queue := queue (cv ?c) @ map deliver (take m rx)\<rparr>" by blast
    with r m(1) s1 c1 show ?thesis by (auto simp: algebra_simps)
  qed
qed

text \<open>Witness: three packets waiting, room for two.\<close>

theorem process_udp_read_correct_witness:
  "\<exists>socket' c'. process_udp_read uk_udp chan_mpsc
        \<lparr>uk_tx = [], uk_rx = [([1], IpEndpoint (Ipv4 7) 5), ([2], IpEndpoint (Ipv4 7) 5), ([3], IpEndpoint (Ipv4 7) 5)],
          uk_bound = None\<rparr> (chan_new 2) stats_default
      = Some (socket', c', stats_default\<lparr>udp_rx_packets := 2, udp_rx_dropped := 1\<rparr>) \<and>
     uk_rx socket' = [([3], IpEndpoint (Ipv4 7) 5)] \<and>
     queue c' = [([1], SockV4 7 5), ([2], SockV4 7 5)]"
proof -
  let ?rx = "[([1], IpEndpoint (Ipv4 7) 5), ([2], IpEndpoint (Ipv4 7) 5), ([3], IpEndpoint (Ipv4 7) 5)]"
  let ?s = "\<lparr>uk_tx = [], uk_rx = ?rx, uk_bound = None\<rparr>"
  have "?rx = uk_rx (id ?s)" "2 = min (room (id (chan_new 2))) (length (takeWhile fits ?rx))"
    "True \<longleftrightarrow> 2 < length ?rx \<and> 2 = room (id (chan_new 2))"
    by (simp_all add: room_def chan_new_def fits_def UDP_READ_BUF_SIZE_def)
  from process_udp_read_correct [OF uk_udp_refines chan_mpsc_refines this, of stats_default]
  show ?thesis
    by (auto simp: stats_default_def chan_new_def deliver_def endpoint_to_socket_addr_def)
qed

end
