(* ===== verification/Task_Loop.thy ===== *)
theory Task_Loop
  imports Prelude "HOL-Library.Multiset" "HOL-Library.Monad_Syntax"
begin

text \<open>
  An async task that loops over what wakes it: an iteration takes an input and the state
  and either goes on or returns; \<open>None\<close> is a panic or an iteration that does not end. The
  locales state what is asked of an iteration for a fact about all runs: an invariant (of the
  states it goes on from, or of those it returns with too), a
  guarantee that no run panics, and a balance of obligations taken and met.
\<close>

datatype 's flow = Continue (flow_state: 's) | Return (flow_state: 's)

text \<open>The loop over a sequence of inputs; the result has the inputs that were not used.\<close>

fun task_run :: "('i \<Rightarrow> 's \<Rightarrow> 's flow option) \<Rightarrow> 'i list \<Rightarrow> 's \<Rightarrow> ('s flow \<times> 'i list) option" where
  "task_run step [] s = Some (Continue s, [])"
| "task_run step (i # is) s = do {
     r \<leftarrow> step i s;
     (case r of
        Continue s' \<Rightarrow> task_run step is s'
      | Return s' \<Rightarrow> Some (Return s', is))
   }"

text \<open>Every input is acceptable in the state it meets.\<close>

fun inputs_ok :: "('i \<Rightarrow> 's \<Rightarrow> 's flow option) \<Rightarrow> ('s \<Rightarrow> 'i \<Rightarrow> bool) \<Rightarrow> 'i list \<Rightarrow> 's \<Rightarrow> bool" where
  "inputs_ok step ok [] s = True"
| "inputs_ok step ok (i # is) s = (ok s i \<and>
     (case step i s of Some (Continue s') \<Rightarrow> inputs_ok step ok is s' | _ \<Rightarrow> True))"

lemma inputs_ok_const:
  "(\<forall>i \<in> set is. Q i) \<Longrightarrow> inputs_ok step (\<lambda>s i. Q i) is s"
  by (induction "is" arbitrary: s) (auto split: option.split flow.split)

locale task_invariant =
  fixes step :: "'i \<Rightarrow> 's \<Rightarrow> 's flow option"
    and inv :: "'s \<Rightarrow> bool"
    and ok :: "'s \<Rightarrow> 'i \<Rightarrow> bool"
  assumes inv_step: "inv s \<Longrightarrow> ok s i \<Longrightarrow> step i s = Some (Continue s') \<Longrightarrow> inv s'"
begin

lemma run_invariant:
  assumes "inv s" and "inputs_ok step ok is s" and "task_run step is s = Some (Continue s', rest)"
  shows "inv s'"
  using assms
proof (induction "is" arbitrary: s)
  case Nil
  then show ?case by simp
next
  case (Cons i "is")
  then obtain r where r: "step i s = Some r" by (auto simp: bind_eq_Some_conv)
  with Cons.prems obtain s1 where "r = Continue s1" by (cases r) auto
  with r Cons inv_step [of s i s1] show ?case by simp
qed

end

locale task_invariant_all = task_invariant +
  assumes inv_return: "inv s \<Longrightarrow> ok s i \<Longrightarrow> step i s = Some (Return s') \<Longrightarrow> inv s'"
begin

lemma run_invariant_all:
  assumes "inv s" and "inputs_ok step ok is s" and "task_run step is s = Some (r, rest)"
  shows "inv (flow_state r)"
  using assms
proof (induction "is" arbitrary: s)
  case Nil
  then show ?case by auto
next
  case (Cons i "is")
  from Cons.prems(3) obtain r1 where r1: "step i s = Some r1" by (auto simp: bind_eq_Some_conv)
  show ?case
  proof (cases r1)
    case (Continue s1)
    with r1 Cons.prems have "inv s1" "inputs_ok step ok is s1" "task_run step is s1 = Some (r, rest)"
      by (auto intro: inv_step)
    then show ?thesis by (rule Cons.IH)
  next
    case (Return s1)
    with r1 Cons.prems inv_return [of s i s1] show ?thesis by auto
  qed
qed

end

locale task_total = task_invariant +
  assumes progress: "inv s \<Longrightarrow> ok s i \<Longrightarrow> \<exists>r. step i s = Some r"
begin

lemma run_total:
  assumes "inv s" and "inputs_ok step ok is s"
  shows "\<exists>r. task_run step is s = Some r"
  using assms
proof (induction "is" arbitrary: s)
  case Nil
  then show ?case by simp
next
  case (Cons i "is")
  with progress [of s i] obtain r where "step i s = Some r" by auto
  with Cons inv_step [of s i] show ?case by (cases r) auto
qed

end

locale task_ledger = task_invariant +
  fixes account :: "'s \<Rightarrow> 'r multiset"
    and incoming :: "'i \<Rightarrow> 'r multiset"
    and settled :: "'s \<Rightarrow> 'r multiset"
  assumes balance: "inv s \<Longrightarrow> ok s i \<Longrightarrow> step i s = Some (Continue s') \<Longrightarrow>
      account s' = account s + incoming i"
    and final_balance: "inv s \<Longrightarrow> ok s i \<Longrightarrow> step i s = Some (Return s') \<Longrightarrow>
      settled s' = account s + incoming i"
begin

lemma run_balance:
  assumes "inv s" and "inputs_ok step ok is s" and "task_run step is s = Some (r, rest)"
  shows "(case r of Continue s' \<Rightarrow> account s' | Return s' \<Rightarrow> settled s') + sum_list (map incoming rest)
     = account s + sum_list (map incoming is)"
  using assms
proof (induction "is" arbitrary: s)
  case Nil
  then show ?case by auto
next
  case (Cons i "is")
  from Cons.prems(3) obtain r1 where r1: "step i s = Some r1" by (auto simp: bind_eq_Some_conv)
  show ?case
  proof (cases r1)
    case (Continue s1)
    with r1 Cons.prems have "inv s1" "inputs_ok step ok is s1" "task_run step is s1 = Some (r, rest)"
      by (auto intro: inv_step)
    from Cons.IH [OF this] r1 Continue Cons.prems balance [of s i s1] show ?thesis by simp
  next
    case (Return s1)
    with r1 Cons.prems final_balance [of s i s1] show ?thesis by auto
  qed
qed

end

end
