(* ===== verification/Stack_Run.thy ===== *)
theory Stack_Run
  imports Stack_Ledger Stack_Data Task_Loop
begin

text \<open>
  \<^verbatim>\<open>run_stack\<close> of \<^verbatim>\<open>src/stack/mod.rs\<close>: the setup of the interface, one iteration of the
  main loop, and the loop itself over the sequence of events that wake it. What the
  environment decides (the event, the clock, the iteration order of the maps, whether the
  reader has set \<^verbatim>\<open>ipc_dead\<close>) is the input of an iteration.
\<close>

section \<open>Setup\<close>

definition stack_init ::
    "('ifc, 'set, 'tcp, 'udp, 'c, 'd) stack_env \<Rightarrow> stack_config \<Rightarrow> 'set \<Rightarrow> i64 \<Rightarrow>
     (chan_id \<Rightarrow> 'c) \<Rightarrow> (chan_id \<Rightarrow> 'd) \<Rightarrow> u16 \<Rightarrow> tunnel_stats \<Rightarrow>
     ('ifc, 'set, 'c, 'd) stack option" where
  "stack_init E cfg no_sockets now tch uch port st0 =
     (let ifc0 = iface_new (E_ifc E) (sc_mac cfg) now
      in do {
        ip_cidr \<leftarrow> cidr_new (E_ifc E) (ip_addr_to_smoltcp (sc_ip cfg)) (sc_prefix_len cfg);
        (let addrs = ip_addrs (E_ifc E) ifc0
         in do {
           addrs' \<leftarrow> (if length addrs < addrs_capacity (E_ifc E) then Some (addrs @ [ip_cidr]) else None);
           ifc1 \<leftarrow> set_ip_addrs (E_ifc E) ifc0 addrs';
           ifc2 \<leftarrow> (case sc_gateway cfg of
              V4 v4 \<Rightarrow> add_default_ipv4_route (E_ifc E) ifc1 (Ipv4 v4)
            | V6 v6 \<Rightarrow> add_default_ipv6_route (E_ifc E) ifc1 (Ipv6 v6));
           (let ifc3 = set_any_ip (E_ifc E) ifc2 True
            in Some \<lparr>iface = ifc3, sockets = no_sockets, pending = [], listeners = [],
                 tcp_states = [], udp_states = [], tcp_chans = tch, udp_chans = uch, next_chan = 0,
                 ephemeral_port = port, stats = st0, events = []\<rparr>)
         })
      })"

section \<open>One iteration\<close>

text \<open>How long the task sleeps at most, in microseconds.\<close>

definition poll_interval :: "u64 option \<Rightarrow> u64" where
  "poll_interval delay =
     (case delay of
        Some d \<Rightarrow> min d (MAX_POLL_INTERVAL_MS * 1000)
      | None \<Rightarrow> MAX_POLL_INTERVAL_MS * 1000)"

text \<open>What the biased \<^verbatim>\<open>select!\<close> returns with.\<close>

datatype wake =
    Command stack_command
  | CommandsClosed
  | WriteNotified
  | Timeout

record tick =
  tk_wake :: wake
  tk_now :: i64
  tk_ord :: "handle list \<Rightarrow> handle list"
  tk_ipc_dead :: bool

text \<open>The ingress loop: at most \<open>n\<close> packets, and whether a socket changed state.\<close>

fun poll_ingress ::
    "('ifc, 'set, 'dev) poll_api \<Rightarrow> i64 \<Rightarrow> nat \<Rightarrow> bool \<Rightarrow> 'ifc \<times> 'dev \<times> 'set \<Rightarrow>
     bool \<times> 'ifc \<times> 'dev \<times> 'set" where
  "poll_ingress P t 0 changed x = (changed, x)"
| "poll_ingress P t (Suc n) changed x =
     (case poll_ingress_single P t x of
        (IngressNone, x') \<Rightarrow> (changed, x')
      | (PacketProcessed, x') \<Rightarrow> poll_ingress P t n changed x'
      | (IngressSocketStateChanged, x') \<Rightarrow> poll_ingress P t n True x')"

text \<open>
  What a return from \<^verbatim>\<open>run_stack\<close> drops, in reverse order of declaration: the stack's ends
  of the socket channels, then the pending operations.
\<close>

definition drop_locals ::
    "('ifc, 'set, 'tcp, 'udp, 'c, 'd) stack_env \<Rightarrow> (handle list \<Rightarrow> handle list) \<Rightarrow>
     ('ifc, 'set, 'c, 'd) stack \<Rightarrow> ('ifc, 'set, 'c, 'd) stack" where
  "drop_locals E ord s =
     (let s1 = s\<lparr>udp_chans := fold (drop_udp_state (E_uch E)) (hm_drain ord (udp_states s)) (udp_chans s),
                 udp_states := []\<rparr>;
          s2 = s1\<lparr>tcp_chans := fold (drop_tcp_state (E_tch E)) (hm_drain ord (tcp_states s1)) (tcp_chans s1),
                  tcp_states := []\<rparr>;
          s3 = s2\<lparr>listeners := []\<rparr>
      in fold (drop_pending_op E) (hm_drain ord (pending s3)) (s3\<lparr>pending := []\<rparr>))"

text \<open>The failing of one pending operation when the connection to the proxy is lost.\<close>

definition abort_op ::
    "('ifc, 'set, 'tcp, 'udp, 'c, 'd) stack_env \<Rightarrow> pending_op \<Rightarrow>
     ('ifc, 'set, 'c, 'd) stack \<Rightarrow> ('ifc, 'set, 'c, 'd) stack" where
  "abort_op E op s =
     (case op of
        PendingConnect la pa ch r \<Rightarrow>
          (let s1 = reply_to r (RErr (IoError ConnectionAborted ''proxy connection lost'')) s
           in s1\<lparr>tcp_chans := drop_tcp_channels (E_tch E) ch (tcp_chans s1)\<rparr>)
      | PendingAccept r \<Rightarrow>
          reply_to r (RErr (IoError ConnectionAborted ''proxy connection lost'')) s)"

definition abort_pending ::
    "('ifc, 'set, 'tcp, 'udp, 'c, 'd) stack_env \<Rightarrow> (handle list \<Rightarrow> handle list) \<Rightarrow>
     ('ifc, 'set, 'c, 'd) stack \<Rightarrow> ('ifc, 'set, 'c, 'd) stack" where
  "abort_pending E ord s =
     fold (abort_op E) (hm_drain ord (pending s)) (s\<lparr>pending := []\<rparr>)"

definition stack_iteration ::
    "('ifc, 'set, 'tcp, 'udp, 'c, 'd) stack_env \<Rightarrow> ('ifc, 'set, 'dev) poll_api \<Rightarrow> stack_config \<Rightarrow>
     tick \<Rightarrow> 'dev \<times> ('ifc, 'set, 'c, 'd) stack \<Rightarrow>
     ('dev \<times> ('ifc, 'set, 'c, 'd) stack) flow option" where
  "stack_iteration E P cfg tk ds = (case ds of (dev, s) \<Rightarrow> do {
     (go, s1) \<leftarrow> (case tk_wake tk of
        Command cmd \<Rightarrow> handle_command E cfg cmd s
      | CommandsClosed \<Rightarrow> Some (False, s)
      | WriteNotified \<Rightarrow> Some (True, s)
      | Timeout \<Rightarrow> Some (True, s));
     (if \<not> go then Some (Return (dev, drop_locals E (tk_ord tk) s1)) else do {
        s2 \<leftarrow> poll_write_channels E (tk_ord tk) s1;
        (let (changed1, ifc3, dev3, ss3) =
               poll_ingress P (tk_now tk) INGRESS_BATCH_SIZE False (iface s2, dev, sockets s2);
             (egress, ifc4, dev4, ss4) = poll_egress P (tk_now tk) (ifc3, dev3, ss3);
             changed = (changed1 \<or> egress = PollSocketStateChanged)
         in do {
           s5 \<leftarrow> poll_read_channels E (tk_ord tk) (s2\<lparr>iface := ifc4, sockets := ss4\<rparr>);
           s6 \<leftarrow> (if changed then process_pending E (tk_ord tk) s5 else Some s5);
           (if tk_ipc_dead tk
            then Some (Return (dev4, drop_locals E (tk_ord tk) (abort_pending E (tk_ord tk) s6)))
            else Some (Continue (dev4, s6)))
         })
      })
   })"

section \<open>The loop\<close>

definition run_stack ::
    "('ifc, 'set, 'tcp, 'udp, 'c, 'd) stack_env \<Rightarrow> ('ifc, 'set, 'dev) poll_api \<Rightarrow> stack_config \<Rightarrow>
     tick list \<Rightarrow> 'dev \<times> ('ifc, 'set, 'c, 'd) stack \<Rightarrow>
     (('dev \<times> ('ifc, 'set, 'c, 'd) stack) flow \<times> tick list) option" where
  "run_stack E P cfg tks ds = task_run (stack_iteration E P cfg) tks ds"

section \<open>The ledger over a run\<close>

lemma poll_one_frame:
  "tcp_write_one E h s = Some s' \<Longrightarrow> pending s' = pending s \<and> events s' = events s"
  "udp_write_one E h s = Some s' \<Longrightarrow> pending s' = pending s \<and> events s' = events s"
  "tcp_read_one E h s = Some s' \<Longrightarrow> pending s' = pending s \<and> events s' = events s"
  "udp_read_one E h s = Some s' \<Longrightarrow> pending s' = pending s \<and> events s' = events s"
  by (auto simp: tcp_write_one_def udp_write_one_def tcp_read_one_def udp_read_one_def
      bind_eq_Some_conv)

lemma for_handles_frame:
  assumes "for_handles f hs s = Some s'"
    and "\<And>h s s'. f h s = Some s' \<Longrightarrow> pending s' = pending s \<and> events s' = events s"
  shows "pending s' = pending s \<and> events s' = events s"
  using assms(1)
  by (rule for_handles_invariant [where P = "\<lambda>t. pending t = pending s \<and> events t = events s"])
     (auto dest: assms(2))

lemma poll_write_channels_frame:
  assumes "poll_write_channels E ord s = Some s'"
  shows "pending s' = pending s \<and> events s' = events s"
proof -
  from assms obtain s1 where
    s1: "for_handles (tcp_write_one E) (ord (hm_keys (tcp_states s))) s = Some s1"
      "for_handles (udp_write_one E) (ord (hm_keys (udp_states s1))) s1 = Some s'"
    by (auto simp: poll_write_channels_def bind_eq_Some_conv)
  have "pending s1 = pending s \<and> events s1 = events s"
    using s1(1) by (rule for_handles_frame) (rule poll_one_frame)
  moreover have "pending s' = pending s1 \<and> events s' = events s1"
    using s1(2) by (rule for_handles_frame) (rule poll_one_frame)
  ultimately show ?thesis by simp
qed

lemma poll_read_channels_frame:
  assumes "poll_read_channels E ord s = Some s'"
  shows "pending s' = pending s \<and> events s' = events s"
proof -
  from assms obtain s1 where
    s1: "for_handles (tcp_read_one E) (ord (hm_keys (tcp_states s))) s = Some s1"
      "for_handles (udp_read_one E) (ord (hm_keys (udp_states s1))) s1 = Some s'"
    by (auto simp: poll_read_channels_def bind_eq_Some_conv)
  have "pending s1 = pending s \<and> events s1 = events s"
    using s1(1) by (rule for_handles_frame) (rule poll_one_frame)
  moreover have "pending s' = pending s1 \<and> events s' = events s1"
    using s1(2) by (rule for_handles_frame) (rule poll_one_frame)
  ultimately show ?thesis by simp
qed

lemma drop_ops_events:
  "pending (fold (drop_pending_op E) ops s) = pending s \<and>
   events (fold (drop_pending_op E) ops s) = events s @ map (\<lambda>op. Dropped (op_response op)) ops"
  by (induction ops arbitrary: s) simp_all

lemma settled_drop_locals:
  assumes "any_order ord" and "hm_ok (pending s)"
  shows "mset (map ev_response (events (drop_locals E ord s))) = ledger s"
  using arg_cong [OF mset_hm_drain [OF assms], of "image_mset op_response"]
  by (simp add: drop_locals_def Let_def drop_ops_events ledger_def o_def image_mset.compositionality)

lemma abort_op_frame:
  "pending (abort_op E op s) = pending s"
  "events (abort_op E op s) = events s @
     [Reply (op_response op) (RErr (IoError ConnectionAborted ''proxy connection lost''))]"
  by (simp_all add: abort_op_def split: pending_op.split)

lemma abort_ops_frame:
  "pending (fold (abort_op E) ops s) = pending s \<and>
   events (fold (abort_op E) ops s) = events s @ map (\<lambda>op. Reply (op_response op)
     (RErr (IoError ConnectionAborted ''proxy connection lost''))) ops"
  by (induction ops arbitrary: s) (simp_all add: abort_op_frame)

lemma ledger_abort_pending:
  assumes "any_order ord" and "hm_ok (pending s)"
  shows "hm_ok (pending (abort_pending E ord s)) \<and> ledger (abort_pending E ord s) = ledger s"
  using arg_cong [OF mset_hm_drain [OF assms], of "image_mset op_response"]
  by (simp add: abort_pending_def abort_ops_frame ledger_def o_def image_mset.compositionality)

definition tick_responses :: "tick \<Rightarrow> response multiset" where
  "tick_responses tk = (case tk_wake tk of Command cmd \<Rightarrow> cmd_responses cmd | _ \<Rightarrow> {#})"

text \<open>An iteration that does not stop at its wake-up: the states it goes through.\<close>

lemma stack_iteration_cases [consumes 1, case_names closed iteration]:
  assumes "stack_iteration E P cfg tk (dev, s) = Some r"
  obtains
    (closed) s1 where "r = Return (dev, drop_locals E (tk_ord tk) s1)"
      "(tk_wake tk = CommandsClosed \<and> s1 = s) \<or>
       (\<exists>cmd. tk_wake tk = Command cmd \<and> handle_command E cfg cmd s = Some (False, s1))"
  | (iteration) s1 s2 c3 ifc3 dev3 ss3 eg ifc4 dev4 ss4 s5 s6 where
      "(\<exists>cmd. tk_wake tk = Command cmd \<and> handle_command E cfg cmd s = Some (True, s1)) \<or>
       (tk_wake tk \<in> {WriteNotified, Timeout} \<and> s1 = s)"
      "poll_write_channels E (tk_ord tk) s1 = Some s2"
      "poll_ingress P (tk_now tk) INGRESS_BATCH_SIZE False (iface s2, dev, sockets s2) = (c3, ifc3, dev3, ss3)"
      "poll_egress P (tk_now tk) (ifc3, dev3, ss3) = (eg, ifc4, dev4, ss4)"
      "poll_read_channels E (tk_ord tk) (s2\<lparr>iface := ifc4, sockets := ss4\<rparr>) = Some s5"
      "(if c3 \<or> eg = PollSocketStateChanged then process_pending E (tk_ord tk) s5 else Some s5) = Some s6"
      "r = (if tk_ipc_dead tk
            then Return (dev4, drop_locals E (tk_ord tk) (abort_pending E (tk_ord tk) s6))
            else Continue (dev4, s6))"
proof -
  from assms obtain go s1 where go: "(case tk_wake tk of Command cmd \<Rightarrow> handle_command E cfg cmd s
      | CommandsClosed \<Rightarrow> Some (False, s) | WriteNotified \<Rightarrow> Some (True, s) | Timeout \<Rightarrow> Some (True, s))
      = Some (go, s1)"
    by (auto simp: stack_iteration_def bind_eq_Some_conv)
  show thesis
  proof (cases go)
    case False
    show ?thesis
    proof (rule closed [of s1])
      show "r = Return (dev, drop_locals E (tk_ord tk) s1)"
        using assms go False by (simp add: stack_iteration_def)
    qed (use go False in \<open>cases "tk_wake tk"; simp\<close>)
  next
    case True
    from assms go True obtain s2 where s2: "poll_write_channels E (tk_ord tk) s1 = Some s2"
      by (auto simp: stack_iteration_def bind_eq_Some_conv)
    obtain c3 ifc3 dev3 ss3 where i: "poll_ingress P (tk_now tk) INGRESS_BATCH_SIZE False
        (iface s2, dev, sockets s2) = (c3, ifc3, dev3, ss3)" by (rule prod_cases4)
    obtain eg ifc4 dev4 ss4 where e: "poll_egress P (tk_now tk) (ifc3, dev3, ss3) = (eg, ifc4, dev4, ss4)"
      by (rule prod_cases4)
    from assms go True s2 i e obtain s5 where
      s5: "poll_read_channels E (tk_ord tk) (s2\<lparr>iface := ifc4, sockets := ss4\<rparr>) = Some s5"
      by (auto simp: stack_iteration_def Let_def bind_eq_Some_conv)
    from assms go True s2 i e s5 obtain s6 where
      s6: "(if c3 \<or> eg = PollSocketStateChanged then process_pending E (tk_ord tk) s5 else Some s5) = Some s6"
      by (auto simp: stack_iteration_def Let_def bind_eq_Some_conv)
    show ?thesis
    proof (rule iteration [OF _ s2 i e s5 s6])
      show "r = (if tk_ipc_dead tk
            then Return (dev4, drop_locals E (tk_ord tk) (abort_pending E (tk_ord tk) s6))
            else Continue (dev4, s6))"
        using assms go True s2 i e s5 s6 by (simp add: stack_iteration_def Let_def split: if_splits)
    qed (use go True in \<open>cases "tk_wake tk"; simp\<close>)
  qed
qed

lemma iteration_ledger:
  assumes "any_order (tk_ord tk)" and "hm_ok (pending s)"
    and "stack_iteration E P cfg tk (dev, s) = Some r"
  shows "case r of
      Continue (dev', s') \<Rightarrow> hm_ok (pending s') \<and> ledger s' = ledger s + tick_responses tk
    | Return (dev', s') \<Rightarrow> mset (map ev_response (events s')) = ledger s + tick_responses tk"
  using assms(3)
proof (cases rule: stack_iteration_cases)
  case (closed s1)
  then have "s1 = s" "tick_responses tk = {#}"
    by (auto simp: tick_responses_def dest: ledger_handle_command [OF assms(2)])
  with closed(1) settled_drop_locals [OF assms(1,2)] show ?thesis by simp
next
  case (iteration s1 s2 c3 ifc3 dev3 ss3 eg ifc4 dev4 ss4 s5 s6)
  have s1: "hm_ok (pending s1) \<and> ledger s1 = ledger s + tick_responses tk"
    using iteration(1) assms(2)
    by (auto simp: tick_responses_def dest: ledger_handle_command [OF assms(2)])
  from poll_write_channels_frame [OF iteration(2)] poll_read_channels_frame [OF iteration(5)]
  have "pending s5 = pending s1 \<and> events s5 = events s1" by simp
  with s1 have "hm_ok (pending s5) \<and> ledger s5 = ledger s + tick_responses tk"
    by (simp add: ledger_def)
  with iteration(6) have s6: "hm_ok (pending s6) \<and> ledger s6 = ledger s + tick_responses tk"
    using ledger_process_pending [of s5 E "tk_ord tk" s6] by (auto split: if_splits)
  then show ?thesis
    using iteration(7) ledger_abort_pending [OF assms(1), of s6 E]
      settled_drop_locals [OF assms(1), of "abort_pending E (tk_ord tk) s6" E] by auto
qed

interpretation stack_task: task_ledger "stack_iteration E P cfg" "\<lambda>(dev, s). hm_ok (pending s)"
    "\<lambda>ds tk. any_order (tk_ord tk)" "\<lambda>(dev, s). ledger s" tick_responses
    "\<lambda>(dev, s). mset (map ev_response (events s))"
  for E :: "('ifc, 'set, 'tcp, 'udp, 'c, 'd) stack_env" and P :: "('ifc, 'set, 'dev) poll_api" and cfg
proof (unfold_locales, goal_cases)
  case (1 ds tk ds')
  with iteration_ledger [of tk "snd ds" E P cfg "fst ds" "Continue ds'"] show ?case by (simp add: split_beta)
next
  case (2 ds tk ds')
  with iteration_ledger [of tk "snd ds" E P cfg "fst ds" "Continue ds'"] show ?case by (simp add: split_beta)
next
  case (3 ds tk ds')
  with iteration_ledger [of tk "snd ds" E P cfg "fst ds" "Return ds'"] show ?case by (simp add: split_beta)
qed


text \<open>
  While the task runs, what it was given is exactly what is pending, answered or
  dropped: no request disappears.
\<close>

lemma run_stack_keeps_ledger:
  assumes "hm_ok (pending s)" and "\<forall>tk \<in> set tks. any_order (tk_ord tk)"
    and "run_stack E P cfg tks (dev, s) = Some (Continue (dev', s'), rest)"
  shows "ledger s' + sum_list (map tick_responses rest) = ledger s + sum_list (map tick_responses tks)"
  using stack_task.run_balance [of "(dev, s)" E P cfg tks "Continue (dev', s')" rest] assms
  by (simp add: run_stack_def inputs_ok_const)

text \<open>Ticks of a network on which nothing happens, over maps iterated in list order.\<close>

definition quiet_tick :: "wake \<Rightarrow> tick" where
  "quiet_tick w = \<lparr>tk_wake = w, tk_now = 0, tk_ord = (\<lambda>hs. hs), tk_ipc_dead = False\<rparr>"

lemma quiet_tick_order: "any_order (tk_ord (quiet_tick w))"
  by (simp add: quiet_tick_def any_order_def)

lemma poll_idle [simp]:
  "poll_ingress idle_poll t n b x = (b, x)" "poll_egress idle_poll t x = (PollNone, x)"
  by (cases n; simp add: idle_poll_def) (simp add: idle_poll_def)

abbreviation cfg0 :: stack_config where
  "cfg0 \<equiv> \<lparr>sc_mac = [], sc_ip = V4 1, sc_prefix_len = 24, sc_gateway = V4 2\<rparr>"


lemma run_stack_keeps_ledger_witness:
  "\<exists>s'. run_stack ref_env idle_poll cfg0 [quiet_tick (Command (GetIps 7))]
       ((), ref_stack\<lparr>pending := [(3, PendingAccept 5)]\<rparr>) = Some (Continue ((), s'), []) \<and>
     ledger s' = {#5, 7#}"
proof -
  let ?s = "ref_stack\<lparr>pending := [(3, PendingAccept 5)]\<rparr>"
  let ?tks = "[quiet_tick (Command (GetIps 7))]"
  have "\<exists>s'. run_stack ref_env idle_poll cfg0 ?tks ((), ?s) = Some (Continue ((), s'), [])"
    by (simp add: run_stack_def stack_iteration_def quiet_tick_def handle_get_ips_def
        poll_write_channels_def poll_read_channels_def ref_stack_def Let_def)
  then obtain s' where s': "run_stack ref_env idle_poll cfg0 ?tks ((), ?s)
      = Some (Continue ((), s'), [])" by blast
  have "hm_ok (pending ?s)" "\<forall>tk \<in> set ?tks. any_order (tk_ord tk)"
    by (auto simp: hm_ok_def quiet_tick_order)
  from run_stack_keeps_ledger [OF this s'] s' show ?thesis
    by (auto simp: tick_responses_def quiet_tick_def ledger_def ref_stack_def)
qed

section \<open>Losing the proxy\<close>

lemma process_pending_one_replies:
  assumes "process_pending_one E h s = Some s'"
  shows "\<exists>rs. events s' = events s @ map (\<lambda>(r, a). Reply r a) rs"
  using assms
proof (cases rule: process_pending_one_cases)
  case (accepted r st a l p ss1 st1)
  then show ?thesis
    by (intro exI [of _ "[(r, RConnected a l p \<lparr>tc_write_tx = next_chan s, tc_read_rx = next_chan s + 1\<rparr>)]"])
       (simp add: finish_accept_def create_tcp_channels_def Let_def)
qed (auto intro: exI [of _ "[]"] exI [of _ "[(_, _)]"])

lemma process_pending_replies:
  assumes "process_pending E ord s = Some s'"
  shows "\<exists>rs. events s' = events s @ map (\<lambda>(r, a). Reply r a) rs"
proof (rule for_handles_invariant [where P = "\<lambda>t. \<exists>rs. events t = events s @ map (\<lambda>(r, a). Reply r a) rs"])
  show "for_handles (process_pending_one E) (ord (hm_keys (pending s))) s = Some s'"
    using assms by (simp add: process_pending_def Let_def)
next
  show "\<exists>rs. events s = events s @ map (\<lambda>(r, a). Reply r a) rs" by (intro exI [of _ "[]"]) simp
next
  fix h t t' assume "\<exists>rs. events t = events s @ map (\<lambda>(r, a). Reply r a) rs"
    and "process_pending_one E h t = Some t'"
  with process_pending_one_replies [OF this(2)] show "\<exists>rs. events t' = events s @ map (\<lambda>(r, a). Reply r a) rs"
    by (metis append.assoc map_append)
qed



end
