(* ===== verification/Stack_Invariant.thy ===== *)
theory Stack_Invariant
  imports Stack_Run
begin

text \<open>
  The invariant of the stack task and that no run panics: every handle in the task's maps
  is a socket of the right kind in the socket set, so none of the lookups of
  \<^verbatim>\<open>src/stack/mod.rs\<close> that panic on an unknown handle does. It rests on what smoltcp and
  tokio document (\<open>libs_ok\<close>) and on an application that closes only handles it was given.
\<close>

section \<open>The invariant, over the maps\<close>

type_synonym ('tcp, 'udp) sview = "handle \<Rightarrow> ('tcp, 'udp) sock option"

definition is_tcp :: "('tcp, 'udp) sview \<Rightarrow> handle \<Rightarrow> bool" where
  "is_tcp v h = (case v h of Some (SockTcp _) \<Rightarrow> True | _ \<Rightarrow> False)"

definition is_udp :: "('tcp, 'udp) sview \<Rightarrow> handle \<Rightarrow> bool" where
  "is_udp v h = (case v h of Some (SockUdp _) \<Rightarrow> True | _ \<Rightarrow> False)"

text \<open>Sockets are only added.\<close>

definition grows :: "('tcp, 'udp) sview \<Rightarrow> ('tcp, 'udp) sview \<Rightarrow> bool" where
  "grows v v' \<longleftrightarrow> (\<forall>h. (is_tcp v h \<longrightarrow> is_tcp v' h) \<and> (is_udp v h \<longrightarrow> is_udp v' h))"

text \<open>
  Every handle the task keeps is a socket of the right type; a pending accept has its
  listener and a pending connect is not one; the listeners have different, nonzero ports;
  and a socket of a backlog is in one backlog only and not yet handed out.
\<close>

definition maps_inv ::
    "('tcp, 'udp) sview \<Rightarrow> (handle \<rightharpoonup> pending_op) \<Rightarrow> (handle \<rightharpoonup> listener_state) \<Rightarrow>
     (handle \<rightharpoonup> tcp_socket_state) \<Rightarrow> (handle \<rightharpoonup> udp_socket_state) \<Rightarrow> bool" where
  "maps_inv v P L T U \<longleftrightarrow>
     (\<forall>h st. T h = Some st \<longrightarrow> is_tcp v h) \<and>
     (\<forall>h st. U h = Some st \<longrightarrow> is_udp v h) \<and>
     (\<forall>h r. P h = Some (PendingAccept r) \<longrightarrow> L h \<noteq> None) \<and>
     (\<forall>h la pa ch r. P h = Some (PendingConnect la pa ch r) \<longrightarrow> is_tcp v h \<and> L h = None) \<and>
     (\<forall>h st. L h = Some st \<longrightarrow>
        is_tcp v h \<and> sa_port (ls_addr st) \<noteq> 0 \<and> distinct (ls_listening_handles st)) \<and>
     (\<forall>h st k. L h = Some st \<longrightarrow> k \<in> set (ls_listening_handles st) \<longrightarrow> is_tcp v k \<and> T k = None) \<and>
     (\<forall>h st h' st'. L h = Some st \<longrightarrow> L h' = Some st' \<longrightarrow> h \<noteq> h' \<longrightarrow>
        sa_port (ls_addr st) \<noteq> sa_port (ls_addr st')) \<and>
     (\<forall>h st h' st'. L h = Some st \<longrightarrow> L h' = Some st' \<longrightarrow> h \<noteq> h' \<longrightarrow>
        set (ls_listening_handles st) \<inter> set (ls_listening_handles st') = {})"

lemmas maps_invD =
  maps_inv_def [THEN iffD1, THEN conjunct1, rule_format]
  maps_inv_def [THEN iffD1, THEN conjunct2, THEN conjunct1, rule_format]
  maps_inv_def [THEN iffD1, THEN conjunct2, THEN conjunct2, THEN conjunct1, rule_format]
  maps_inv_def [THEN iffD1, THEN conjunct2, THEN conjunct2, THEN conjunct2, THEN conjunct1, rule_format]
  maps_inv_def [THEN iffD1, THEN conjunct2, THEN conjunct2, THEN conjunct2, THEN conjunct2, THEN conjunct1, rule_format]
  maps_inv_def [THEN iffD1, THEN conjunct2, THEN conjunct2, THEN conjunct2, THEN conjunct2, THEN conjunct2, THEN conjunct1, rule_format]
  maps_inv_def [THEN iffD1, THEN conjunct2, THEN conjunct2, THEN conjunct2, THEN conjunct2, THEN conjunct2, THEN conjunct2, THEN conjunct1, rule_format]
  maps_inv_def [THEN iffD1, THEN conjunct2, THEN conjunct2, THEN conjunct2, THEN conjunct2, THEN conjunct2, THEN conjunct2, THEN conjunct2, rule_format]

lemma maps_invI:
  assumes "\<And>h st. T h = Some st \<Longrightarrow> is_tcp v h"
    and "\<And>h st. U h = Some st \<Longrightarrow> is_udp v h"
    and "\<And>h r. P h = Some (PendingAccept r) \<Longrightarrow> L h \<noteq> None"
    and "\<And>h la pa ch r. P h = Some (PendingConnect la pa ch r) \<Longrightarrow> is_tcp v h \<and> L h = None"
    and "\<And>h st. L h = Some st \<Longrightarrow> is_tcp v h \<and> sa_port (ls_addr st) \<noteq> 0 \<and> distinct (ls_listening_handles st)"
    and "\<And>h st k. L h = Some st \<Longrightarrow> k \<in> set (ls_listening_handles st) \<Longrightarrow> is_tcp v k \<and> T k = None"
    and "\<And>h st h' st'. L h = Some st \<Longrightarrow> L h' = Some st' \<Longrightarrow> h \<noteq> h' \<Longrightarrow>
      sa_port (ls_addr st) \<noteq> sa_port (ls_addr st')"
    and "\<And>h st h' st'. L h = Some st \<Longrightarrow> L h' = Some st' \<Longrightarrow> h \<noteq> h' \<Longrightarrow>
      set (ls_listening_handles st) \<inter> set (ls_listening_handles st') = {}"
  shows "maps_inv v P L T U"
  unfolding maps_inv_def using assms by blast

lemma grows_refl [simp]: "grows v v"
  by (simp add: grows_def)

lemma grows_trans: "grows u v \<Longrightarrow> grows v w \<Longrightarrow> grows u w"
  by (simp add: grows_def)

lemma growsD: "grows v v' \<Longrightarrow> is_tcp v h \<Longrightarrow> is_tcp v' h" "grows v v' \<Longrightarrow> is_udp v h \<Longrightarrow> is_udp v' h"
  by (simp_all add: grows_def)

lemma grows_upd:
  "v h = None \<Longrightarrow> grows v (v(h := x))"
  "is_tcp v h \<Longrightarrow> grows v (v(h \<mapsto> SockTcp t))"
  "is_udp v h \<Longrightarrow> grows v (v(h \<mapsto> SockUdp u))"
  by (auto simp: grows_def is_tcp_def is_udp_def split: option.splits sock.splits)

lemma is_tcp_upd [simp]:
  "is_tcp (v(h \<mapsto> SockTcp t)) k \<longleftrightarrow> k = h \<or> is_tcp v k"
  "is_udp (v(h \<mapsto> SockUdp u)) k \<longleftrightarrow> k = h \<or> is_udp v k"
  by (auto simp: is_tcp_def is_udp_def)

lemma fresh_not: "v h = None \<Longrightarrow> \<not> is_tcp v h" "v h = None \<Longrightarrow> \<not> is_udp v h"
  by (simp_all add: is_tcp_def is_udp_def)

lemma same_sockets_grows:
  assumes "same_sockets v v'"
  shows "grows v v'"
  unfolding grows_def
proof
  fix h
  show "(is_tcp v h \<longrightarrow> is_tcp v' h) \<and> (is_udp v h \<longrightarrow> is_udp v' h)"
    using assms [unfolded same_sockets_def, rule_format, of h]
    by (auto simp: is_tcp_def is_udp_def split: option.splits sock.splits)
qed

subsection \<open>What the handlers do to the maps\<close>

lemma inv_grow: "maps_inv v P L T U \<Longrightarrow> grows v v' \<Longrightarrow> maps_inv v' P L T U"
  unfolding maps_inv_def by (meson growsD)

lemma inv_restrict:
  assumes "maps_inv v P L T U"
    and "\<And>h x. T' h = Some x \<Longrightarrow> T h \<noteq> None" and "\<And>h x. U' h = Some x \<Longrightarrow> U h \<noteq> None"
    and "\<And>h r. P' h = Some (PendingAccept r) \<Longrightarrow> L' h \<noteq> None"
    and "\<And>h la pa ch r. P' h = Some (PendingConnect la pa ch r) \<Longrightarrow> P h = P' h"
    and "\<And>h st. L' h = Some st \<Longrightarrow> L h = Some st"
  shows "maps_inv v P' L' T' U'"
proof (intro maps_invI, goal_cases)
  case (1 h st) then show ?case using assms(2) maps_invD(1) [OF assms(1)] by fastforce
next
  case (2 h st) then show ?case using assms(3) maps_invD(2) [OF assms(1)] by fastforce
next
  case (3 h r) then show ?case by (rule assms(4))
next
  case (4 h la pa ch r)
  with assms(5) maps_invD(4) [OF assms(1)] have "is_tcp v h \<and> L h = None" by metis
  with assms(6) show ?case by (cases "L' h") auto
next
  case (5 h st) then show ?case using maps_invD(5) [OF assms(1) assms(6)] by blast
next
  case (6 h st k)
  then have k: "is_tcp v k \<and> T k = None" using maps_invD(6) [OF assms(1) assms(6)] by blast
  with assms(2) [of k] show ?case by (cases "T' k") auto
next
  case (7 h st h' st') then show ?case using maps_invD(7) [OF assms(1) assms(6) assms(6)] by blast
next
  case (8 h st h' st') then show ?case using maps_invD(8) [OF assms(1) assms(6) assms(6)] by blast
qed

lemma inv_forget:
  assumes "maps_inv v P L T U"
  shows "maps_inv v (P(h := None)) L T U"
  using maps_invD(3) [OF assms] by (intro inv_restrict [OF assms]) (auto split: if_splits)

lemma inv_connect:
  assumes "maps_inv v P L T U" and "v h = None" and "grows v v'" and "is_tcp v' h"
  shows "maps_inv v' (P(h \<mapsto> PendingConnect la pa ch r)) L (T(h \<mapsto> st)) U"
proof -
  have "L h = None" "\<And>k st. L k = Some st \<Longrightarrow> h \<notin> set (ls_listening_handles st)"
    using maps_invD(5,6) [OF assms(1)] fresh_not(1) [of v h, OF assms(2)] by (metis not_None_eq)+
  with inv_grow [OF assms(1,3)] assms(4) show ?thesis unfolding maps_inv_def by auto
qed

lemma pairwise_upd:
  assumes "\<And>a x b y. L a = Some x \<Longrightarrow> L b = Some y \<Longrightarrow> a \<noteq> b \<Longrightarrow> R x y"
    and "\<And>x y. R x y \<Longrightarrow> R y x" and "\<And>a x. L a = Some x \<Longrightarrow> a \<noteq> h \<Longrightarrow> R new x"
    and "(L(h \<mapsto> new)) a = Some x" and "(L(h \<mapsto> new)) b = Some y" and "a \<noteq> b"
  shows "R x y"
  using assms(4-6)
  by (cases "a = h"; cases "b = h") (simp_all, metis assms(3), metis assms(2,3), metis assms(1))

lemmas pairwise_ports = pairwise_upd [where R = "\<lambda>x y. sa_port (ls_addr x) \<noteq> sa_port (ls_addr y)"]
lemmas pairwise_backlogs = pairwise_upd
  [where R = "\<lambda>x y. set (ls_listening_handles x) \<inter> set (ls_listening_handles y) = {}"]

lemma inv_listen:
  assumes "maps_inv v P L T U" and "grows v v'" and "\<forall>k \<in> set (h # hs). v k = None \<and> is_tcp v' k"
    and "distinct (h # hs)" and "sa_port addr \<noteq> 0"
    and "\<And>k st. L k = Some st \<Longrightarrow> sa_port (ls_addr st) \<noteq> sa_port addr"
  shows "maps_inv v' P (L(h \<mapsto> \<lparr>ls_addr = addr, ls_listening_handles = h # hs\<rparr>)) T U"
proof -
  have fresh: "\<not> is_tcp v k" if "k \<in> set (h # hs)" for k
    using assms(3) that by (auto simp: fresh_not)
  have t: "T k = None" if "k \<in> set (h # hs)" for k
    using fresh [OF that] maps_invD(1) [OF assms(1), of k] by (cases "T k") auto
  have l: "k \<notin> set (ls_listening_handles st)" if "k \<in> set (h # hs)" "L j = Some st" for k j st
    using fresh [OF that(1)] maps_invD(6) [OF assms(1) that(2)] by blast
  have p: "P h \<noteq> Some (PendingConnect la pa ch r)" for la pa ch r
    using fresh [of h] maps_invD(4) [OF assms(1)] by auto
  note inv = maps_invD [OF inv_grow [OF assms(1,2)]]
  show ?thesis
  proof (intro maps_invI, goal_cases)
    case (1 k st) then show ?case using inv(1) by auto
  next
    case (2 k st) then show ?case using inv(2) by auto
  next
    case (3 k r) then show ?case using inv(3) by auto
  next
    case (4 k la pa ch r) then show ?case using inv(4) p by (cases "k = h") auto
  next
    case (5 k st) then show ?case using inv(5) assms(3-5) by (auto split: if_splits)
  next
    case (6 k st j) then show ?case using inv(6) assms(3) t by (auto split: if_splits)
  next
    case (7 j st1 k st2)
    show ?case by (rule pairwise_ports [OF inv(7) _ _ 7]) (simp_all, metis assms(6))
  next
    case (8 j st1 k st2)
    show ?case
      by (rule pairwise_backlogs [OF inv(8) _ _ 8]) (simp_all add: Int_commute, use l in auto)
  qed
qed

lemma inv_accept:
  assumes "maps_inv v P L T U" and "L h = Some st" and "ls_listening_handles st = pre @ a # post"
    and "grows v v'" and "set new \<subseteq> {k. v k = None \<and> is_tcp v' k}" and "distinct new"
  shows "maps_inv v' P (L(h \<mapsto> st\<lparr>ls_listening_handles := pre @ post @ new\<rparr>)) (T(a \<mapsto> ts)) U"
proof -
  have inv: "maps_inv v' P L T U" using inv_grow [OF assms(1,4)] .
  have nt: "\<not> is_tcp v k" if "k \<in> set new" for k
    using that assms(5) by (auto simp: fresh_not)
  have fresh: "T k = None" "k \<notin> set (ls_listening_handles st')" "k \<noteq> a"
    if "k \<in> set new" "L j = Some st'" for k j st'
  proof -
    show "T k = None" using nt [OF that(1)] maps_invD(1) [OF assms(1), of k] by (cases "T k") auto
    show "k \<notin> set (ls_listening_handles st')"
      using nt [OF that(1)] maps_invD(6) [OF assms(1) that(2), of k] by auto
    show "k \<noteq> a" using nt [OF that(1)] maps_invD(6) [OF assms(1,2), of a] assms(3) by auto
  qed
  have a: "a \<notin> set new" using fresh(3) [OF _ assms(2)] by blast
  note st = maps_invD(5) [OF inv assms(2)] maps_invD(6) [OF inv assms(2)]
  have other: "a \<notin> set (ls_listening_handles st')" if "L j = Some st'" "j \<noteq> h" for j st'
    using maps_invD(8) [OF inv assms(2) that(1)] that(2) assms(3) by auto
  have tcp: "is_tcp v' k" if "k \<in> set (a # pre @ post @ new)" for k
    using that st(2) assms(3,5) by auto
  note inv = maps_invD [OF inv]
  show ?thesis
  proof (intro maps_invI, goal_cases)
    case (1 k ts') then show ?case using inv(1) tcp by (auto split: if_splits)
  next
    case (2 k us) then show ?case using inv(2) by auto
  next
    case (3 k r) then show ?case using inv(3) by auto
  next
    case (4 k la pa ch r) then show ?case using inv(4) assms(2) by force
  next
    case (5 k st')
    then show ?case using inv(5) st assms(3,6) fresh(2) [OF _ assms(2)] by (auto split: if_splits)
  next
    case (6 k st' j)
    then show ?case using inv(6) st assms(3) tcp other fresh [OF _ assms(2)] a by (auto split: if_splits)
  next
    case (7 j st1 k st2)
    show ?case by (rule pairwise_ports [OF inv(7) _ _ 7]) (simp_all, metis inv(7) assms(2))
  next
    case (8 j st1 k st2)
    show ?case
    proof (rule pairwise_backlogs [OF inv(8) _ _ 8])
      fix b x assume "L b = Some x" "b \<noteq> h"
      with inv(8) [OF assms(2) this(1)] assms(3) fresh(2) show
        "set (ls_listening_handles (st\<lparr>ls_listening_handles := pre @ post @ new\<rparr>)) \<inter> set (ls_listening_handles x) = {}"
        by auto
    qed (simp_all add: Int_commute)
  qed
qed

lemma inv_relisten: "maps_inv v P L T U \<Longrightarrow> L h = Some st \<Longrightarrow> maps_inv v P (L(h \<mapsto> st)) T U"
  by (simp add: fun_upd_idem)

lemma inv_wait_accept:
  assumes "maps_inv v P L T U" and "L h \<noteq> None"
  shows "maps_inv v (P(h \<mapsto> PendingAccept r)) L T U"
  using maps_invD(3) [OF assms(1)] assms(2)
  by (intro inv_restrict [OF assms(1)]) (auto split: if_splits)

lemma inv_unlisten:
  assumes "maps_inv v P L T U"
  shows "maps_inv v (P(h := None)) (L(h := None)) T U"
  using maps_invD(3) [OF assms] by (intro inv_restrict [OF assms]) (auto split: if_splits)

lemma inv_close:
  assumes "maps_inv v P L T U"
  shows "maps_inv v P L (T(h := None)) U" and "maps_inv v P L T (U(h := None))"
  using maps_invD(3) [OF assms] by (intro inv_restrict [OF assms]; auto split: if_splits)+

lemma inv_tcp_update:
  assumes "maps_inv v P L T U" and "T h \<noteq> None"
  shows "maps_inv v P L (T(h \<mapsto> st)) U"
  using maps_invD(3) [OF assms(1)] assms(2)
  by (intro inv_restrict [OF assms(1)]) (auto split: if_splits)

lemma inv_udp_bind:
  assumes "maps_inv v P L T U" and "grows v v'" and "is_udp v' h"
  shows "maps_inv v' P L T (U(h \<mapsto> us))"
  using assms(3) inv_grow [OF assms(1,2)] unfolding maps_inv_def by simp

end
