(* ===== verification/Stack_Safety.thy ===== *)
theory Stack_Safety
  imports Stack_Invariant
begin

text \<open>
  The invariant of \<^verbatim>\<open>Stack_Invariant\<close> at the level of the task's state: every handler and
  every poll keeps it and none of them panics, the loops of the data path end, and so no
  run of \<^verbatim>\<open>run_stack\<close> fails.
\<close>

section \<open>The invariant of the task\<close>

definition libs_ok ::
    "('ifc, 'set, 'tcp, 'udp, 'c, 'd) stack_env \<Rightarrow> ('set \<Rightarrow> ('tcp, 'udp) sview) \<Rightarrow>
     (ip_address \<Rightarrow> bool) \<Rightarrow> ('c \<Rightarrow> bytes chan) \<Rightarrow> ('d \<Rightarrow> (bytes \<times> socket_addr) chan) \<Rightarrow> bool" where
  "libs_ok E view allowed tcv ucv \<longleftrightarrow>
     socket_set_refines (E_set E) view \<and> iface_refines (E_ifc E) allowed \<and>
     mpsc_refines (E_tch E) tcv \<and> mpsc_refines (E_uch E) ucv"

fun reply_ok :: "('tcp, 'udp) sview \<Rightarrow> reply \<Rightarrow> bool" where
  "reply_ok v (RConnected h la pa ch) = is_tcp v h"
| "reply_ok v (RListening h addr) = is_tcp v h"
| "reply_ok v (RUdpBound h addr ch) = is_udp v h"
| "reply_ok v RUnit = True"
| "reply_ok v (RIps ips) = True"
| "reply_ok v (RErr e) = True"

fun event_ok :: "('tcp, 'udp) sview \<Rightarrow> event \<Rightarrow> bool" where
  "event_ok v (Reply r a) = reply_ok v a"
| "event_ok v (Dropped r) = True"

definition stack_ok ::
    "('ifc, 'set, 'tcp, 'udp, 'c, 'd) stack_env \<Rightarrow> ('set \<Rightarrow> ('tcp, 'udp) sview) \<Rightarrow>
     (ip_address \<Rightarrow> bool) \<Rightarrow> ('ifc, 'set, 'c, 'd) stack \<Rightarrow> bool" where
  "stack_ok E view allowed s \<longleftrightarrow>
     hm_ok (pending s) \<and> hm_ok (listeners s) \<and> hm_ok (tcp_states s) \<and> hm_ok (udp_states s) \<and>
     maps_inv (view (sockets s)) (map_of (pending s)) (map_of (listeners s))
       (map_of (tcp_states s)) (map_of (udp_states s)) \<and>
     (\<forall>a \<in> set (ip_addrs (E_ifc E) (iface s)). allowed (cidr_address a)) \<and>
     (\<forall>e \<in> set (events s). event_ok (view (sockets s)) e)"

lemma reply_ok_grows: "reply_ok v a \<Longrightarrow> grows v v' \<Longrightarrow> reply_ok v' a"
  by (cases a) (auto dest: growsD)

lemma event_ok_grows: "event_ok v e \<Longrightarrow> grows v v' \<Longrightarrow> event_ok v' e"
  by (cases e) (auto dest: reply_ok_grows)

lemma stack_okD:
  assumes "stack_ok E view allowed s"
  shows "hm_ok (pending s)" "hm_ok (listeners s)" "hm_ok (tcp_states s)" "hm_ok (udp_states s)"
    "maps_inv (view (sockets s)) (map_of (pending s)) (map_of (listeners s))
       (map_of (tcp_states s)) (map_of (udp_states s))"
    "\<forall>a \<in> set (ip_addrs (E_ifc E) (iface s)). allowed (cidr_address a)"
    "\<forall>e \<in> set (events s). event_ok (view (sockets s)) e"
  using assms by (simp_all add: stack_ok_def)

text \<open>What is to be shown of a handler that adds events and keeps the addresses.\<close>

lemma stack_ok_step:
  assumes "stack_ok E view allowed s" and "grows (view (sockets s)) (view (sockets s'))"
    and "hm_ok (pending s') \<and> hm_ok (listeners s') \<and> hm_ok (tcp_states s') \<and> hm_ok (udp_states s')"
    and "maps_inv (view (sockets s')) (map_of (pending s')) (map_of (listeners s'))
       (map_of (tcp_states s')) (map_of (udp_states s'))"
    and "ip_addrs (E_ifc E) (iface s') = ip_addrs (E_ifc E) (iface s)"
    and "\<forall>e \<in> set (events s'). e \<in> set (events s) \<or> event_ok (view (sockets s')) e"
  shows "stack_ok E view allowed s'"
  using assms(1,3-6) event_ok_grows [OF _ assms(2)] unfolding stack_ok_def by auto

lemma stack_ok_reply:
  "stack_ok E view allowed s \<Longrightarrow> event_ok (view (sockets s)) (Reply r a) \<Longrightarrow>
     stack_ok E view allowed (reply_to r a s)"
  by (auto simp: stack_ok_def)

lemma iface_connect_addrs:
  "iface_refines I allowed \<Longrightarrow> tcp_connect I ifc s rem loc = (x, ifc') \<Longrightarrow>
     ip_addrs I ifc' = ip_addrs I ifc"
  unfolding iface_refines_def by (metis snd_conv)

section \<open>The handlers keep it\<close>

lemma add_remove_view:
  assumes "socket_set_refines SS view" and "add_tcp SS ss t = (h, ss1)" and "remove_sock SS ss1 h = Some ss2"
  shows "view ss2 = view ss"
proof -
  note a = set_add_tcp [OF assms(1,2)]
  then have "view ss1 h \<noteq> None" by simp
  from set_remove [OF assms(1) this] assms(3) a show ?thesis by auto
qed

lemma tcp_connect_ok:
  assumes L: "libs_ok E view allowed tcv ucv" and ok: "stack_ok E view allowed s"
    and "handle_tcp_connect E cfg lip addr r s = Some s'"
  shows "stack_ok E view allowed s'"
  using assms(3)
proof (cases rule: handle_tcp_connect_cases)
  case (failed h ss1 sock e ifc' ss2 rem loc)
  have SS: "socket_set_refines (E_set E) view" and I: "iface_refines (E_ifc E) allowed"
    using L by (simp_all add: libs_ok_def)
  from failed add_remove_view [OF SS failed(1,3)] iface_connect_addrs [OF I failed(2)] stack_okD [OF ok]
  show ?thesis by (intro stack_ok_step [OF ok]) simp_all
next
  case (started h ss1 sock sock' ifc' channels state s3 rem loc la)
  have SS: "socket_set_refines (E_set E) view" and I: "iface_refines (E_ifc E) allowed"
    using L by (simp_all add: libs_ok_def)
  let ?v = "view (sockets s)" and ?v' = "view (put_tcp (E_set E) ss1 h sock')"
  from set_add_tcp [OF SS started(1)] have a: "?v h = None" "view ss1 = ?v(h \<mapsto> SockTcp (new_tcp E))" by auto
  then have v': "?v' = ?v(h \<mapsto> SockTcp sock')" using set_put(1) [OF SS, of ss1 h sock'] by simp
  have fr: "pending s3 = pending s" "events s3 = events s" "listeners s3 = listeners s"
    "tcp_states s3 = tcp_states s" "udp_states s3 = udp_states s" "iface s3 = ifc'"
    "sockets s3 = put_tcp (E_set E) ss1 h sock'"
    using create_tcp_channels_frame [OF started(3)] by simp_all
  have g: "grows ?v ?v'" using v' a(1) grows_upd(1) by metis
  have "map_of (pending s) h = None"
    using maps_invD(3-5) [OF stack_okD(5) [OF ok]] fresh_not(1) [of ?v h, OF a(1)]
    by (metis not_None_eq pending_op.exhaust)
  then have "events s' = events s" using started(4) fr by (simp add: insert_pending_def)
  moreover have "maps_inv ?v' ((map_of (pending s))(h \<mapsto> PendingConnect la addr channels r))
      (map_of (listeners s)) ((map_of (tcp_states s))(h \<mapsto> state)) (map_of (udp_states s))"
    using inv_connect [OF stack_okD(5) [OF ok] a(1) g] v' by simp
  ultimately show ?thesis
    using started(4) fr g iface_connect_addrs [OF I started(2)] stack_okD(1-4) [OF ok]
    by (intro stack_ok_step [OF ok]) (simp_all add: hm_simps)
qed

lemma create_listeners_view:
  assumes SS: "socket_set_refines (E_set E) view" and "create_listeners E ep n hs ss = (res, ss')"
  shows "\<exists>new. (res = Inr (hs @ new) \<or> (\<exists>e. res = Inl (e, hs @ new))) \<and> distinct new \<and>
     (\<forall>k. if k \<in> set new then view ss k = None \<and> is_tcp (view ss') k else view ss' k = view ss k)"
  using assms(2)
proof (induction n arbitrary: hs ss)
  case 0
  then show ?case by (intro exI [of _ "[]"]) simp
next
  case (Suc n)
  show ?case
  proof (cases "tcp_listen (E_tcp E) (new_tcp E) ep")
    case (Inl e)
    with Suc.prems show ?thesis by (intro exI [of _ "[]"]) (auto simp: Let_def)
  next
    case (Inr sock)
    obtain h ss1 where h: "add_tcp (E_set E) ss sock = (h, ss1)" by fastforce
    with Inr Suc.prems have "create_listeners E ep n (hs @ [h]) ss1 = (res, ss')"
      by (simp add: Let_def)
    from Suc.IH [OF this] obtain new where
      new: "res = Inr ((hs @ [h]) @ new) \<or> (\<exists>e. res = Inl (e, (hs @ [h]) @ new))" "distinct new"
        "\<And>k. if k \<in> set new then view ss1 k = None \<and> is_tcp (view ss') k else view ss' k = view ss1 k"
      by blast
    from set_add_tcp [OF SS h] have a: "view ss h = None" "view ss1 = (view ss)(h \<mapsto> SockTcp sock)" by auto
    from new(3) [of h] a(2) have hn: "h \<notin> set new" "view ss' h = Some (SockTcp sock)"
      by (auto split: if_splits)
    have "if k \<in> set (h # new) then view ss k = None \<and> is_tcp (view ss') k else view ss' k = view ss k" for k
      using new(3) [of k] a hn by (auto simp: is_tcp_def split: if_splits)
    with new(1,2) hn(1) show ?thesis by (intro exI [of _ "h # new"]) simp
  qed
qed

lemma remove_all_view:
  assumes "socket_set_refines SS view" and "distinct hs" and "\<forall>k \<in> set hs. view ss k \<noteq> None"
  shows "\<exists>ss'. remove_all SS hs ss = Some ss' \<and> view ss' = (\<lambda>k. if k \<in> set hs then None else view ss k)"
  using assms(2,3)
proof (induction hs arbitrary: ss)
  case Nil
  then show ?case by simp
next
  case (Cons h hs)
  from Cons.prems set_remove [OF assms(1), of ss h] obtain ss1 where
    s1: "remove_sock SS ss h = Some ss1" "view ss1 = (view ss)(h := None)" by auto
  with Cons.prems have "\<forall>k \<in> set hs. view ss1 k \<noteq> None" by auto
  with Cons.IH [of ss1] Cons.prems obtain ss' where
    "remove_all SS hs ss1 = Some ss'" "view ss' = (\<lambda>k. if k \<in> set hs then None else view ss1 k)" by auto
  with s1 show ?case by auto
qed

lemma is_tcp_some: "is_tcp v h \<Longrightarrow> v h \<noteq> None" "is_udp v h \<Longrightarrow> v h \<noteq> None"
  by (auto simp: is_tcp_def is_udp_def split: option.splits)

lemma grows_new:
  "(\<And>k. if k \<in> new then v k = None \<and> is_tcp v' k else v' k = v k) \<Longrightarrow> grows v v'"
  unfolding grows_def by (metis fresh_not is_tcp_def is_udp_def)

lemma tcp_listen_ok:
  assumes L: "libs_ok E view allowed tcv ucv" and ok: "stack_ok E view allowed s"
    and "handle_tcp_listen E addr n r s = Some s'"
  shows "stack_ok E view allowed s'"
proof -
  have SS: "socket_set_refines (E_set E) view" using L by (simp add: libs_ok_def)
  from assms(3) show ?thesis
  proof (cases rule: handle_tcp_listen_cases)
    case (refused e)
    with ok show ?thesis by (simp add: stack_ok_reply)
  next
    case (failed e hs ss1 ss2)
    from create_listeners_view [OF SS failed(1)] have new: "distinct hs"
      "\<And>k. if k \<in> set hs then view (sockets s) k = None \<and> is_tcp (view ss1) k
           else view ss1 k = view (sockets s) k" by auto
    from new(2) have "\<forall>k \<in> set hs. view ss1 k \<noteq> None" by (metis is_tcp_some(1))
    from remove_all_view [OF SS new(1) this] failed(2) new(2)
    have "view ss2 = view (sockets s)" by (auto simp: fun_eq_iff split: if_splits)
    with failed(3) stack_okD [OF ok] show ?thesis by (intro stack_ok_step [OF ok]) auto
  next
    case (listening h hs ss1)
    from create_listeners_view [OF SS listening(1)] have new: "distinct (h # hs)"
      "\<And>k. if k \<in> set (h # hs) then view (sockets s) k = None \<and> is_tcp (view ss1) k
           else view ss1 k = view (sockets s) k" by auto
    have g: "grows (view (sockets s)) (view ss1)" using new(2) by (rule grows_new)
    have "maps_inv (view ss1) (map_of (pending s))
        ((map_of (listeners s))(h \<mapsto> \<lparr>ls_addr = addr, ls_listening_handles = h # hs\<rparr>))
        (map_of (tcp_states s)) (map_of (udp_states s))"
      using stack_okD(5) [OF ok] g _ new(1) listening(2)
    proof (rule inv_listen)
      show "\<forall>k\<in>set (h # hs). view (sockets s) k = None \<and> is_tcp (view ss1) k" using new(2) by metis
      show "map_of (listeners s) k = Some st \<Longrightarrow> sa_port (ls_addr st) \<noteq> sa_port addr" for k st
        using listening(3) by (metis map_of_SomeD)
    qed
    moreover have "is_tcp (view ss1) h" using new(2) [of h] by simp
    ultimately show ?thesis
      using listening(4) g stack_okD(1-4) [OF ok] by (intro stack_ok_step [OF ok]) (simp_all add: hm_simps)
  qed
qed

lemma find_established_total:
  assumes "socket_set_refines (E_set E) view" and "\<forall>k \<in> set hs. is_tcp (view ss) k"
  shows "\<exists>res. find_established E ss addr hs i = Some res"
  using assms(2)
proof (induction hs arbitrary: i)
  case Nil
  then show ?case by simp
next
  case (Cons h hs)
  then obtain t where "get_tcp (E_set E) ss h = Some t"
    using set_get(1) [OF assms(1)] by (auto simp: is_tcp_def split: option.splits sock.splits)
  with Cons show ?case by (auto simp: Let_def split: option.split)
qed

lemma try_accept_total:
  assumes "socket_set_refines (E_set E) view" and "\<forall>k \<in> set (ls_listening_handles st). is_tcp (view ss) k"
  obtains res ss' st' where "try_accept_socket E ss st = Some (res, ss', st')"
proof -
  from find_established_total [OF assms, of "ls_addr st" 0] obtain f where
    "find_established E ss (ls_addr st) (ls_listening_handles st) 0 = Some f" by blast
  then have "try_accept_socket E ss st \<noteq> None"
    by (auto simp: try_accept_socket_def Let_def split: option.split sum.split prod.split)
  then show thesis using that by (cases "try_accept_socket E ss st") auto
qed

text \<open>What accepting does to the maps, in both places that accept.\<close>

lemma accept_inv:
  assumes SS: "socket_set_refines (E_set E) view" and "maps_inv (view ss) P L T U"
    and "L h = Some st" and "try_accept_socket E ss st = Some (res, ss', st')"
  shows "grows (view ss) (view ss') \<and>
     (case res of
        None \<Rightarrow> maps_inv (view ss') P (L(h \<mapsto> st')) T U
      | Some (a, l, p) \<Rightarrow> is_tcp (view ss') a \<and> (\<forall>ts. maps_inv (view ss') P (L(h \<mapsto> st')) (T(a \<mapsto> ts)) U))"
  using assms(4)
proof (cases rule: try_accept_cases)
  case none
  with assms(2,3) show ?thesis by (simp add: inv_relisten)
next
  case (accepted pre a post sock k)
  from set_add_tcp [OF SS accepted(6)] have k: "view ss k = None" "view ss' = (view ss)(k \<mapsto> SockTcp sock)" by auto
  then have g: "grows (view ss) (view ss')" by (simp add: grows_upd)
  have "is_tcp (view ss) a" using maps_invD(6) [OF assms(2,3), of a] accepted(1) by simp
  with growsD(1) [OF g] have "is_tcp (view ss') a" .
  moreover have "set [k] \<subseteq> {j. view ss j = None \<and> is_tcp (view ss') j}" using k by simp
  from inv_accept [OF assms(2,3) accepted(1) g this] accepted(7)
  have "maps_inv (view ss') P (L(h \<mapsto> st')) (T(a \<mapsto> ts)) U" for ts by simp
  ultimately show ?thesis using g accepted(2) by (simp add: split_beta)
next
  case (accepted_no_replacement pre a post e)
  have "is_tcp (view ss) a" using maps_invD(6) [OF assms(2,3), of a] accepted_no_replacement(1) by simp
  moreover have "maps_inv (view ss') P (L(h \<mapsto> st')) (T(a \<mapsto> ts)) U" for ts
    using inv_accept [OF assms(2,3) accepted_no_replacement(1), of "view ss" "[]" ts]
      accepted_no_replacement(6,7) by simp
  ultimately show ?thesis using accepted_no_replacement(2,6) by (simp add: split_beta)
qed

lemma pending_events:
  "e \<in> set (events (insert_pending E h op s)) \<Longrightarrow> e \<in> set (events s) \<or> event_ok v e"
  "e \<in> set (events (discard_pending E h s)) \<Longrightarrow> e \<in> set (events s) \<or> event_ok v e"
  by (auto simp: insert_pending_def discard_pending_def Let_def split: option.splits)

lemma finish_accept_ok:
  assumes ok: "stack_ok E view allowed s" and "grows (view (sockets s)) (view ss')"
    and "is_tcp (view ss') a" and "hm_ok P'"
    and "\<And>ts. maps_inv (view ss') (map_of P') (map_of L') ((map_of (tcp_states s))(a \<mapsto> ts)) (map_of (udp_states s))"
    and "hm_ok L'"
  shows "stack_ok E view allowed
     (finish_accept E a l p r (s\<lparr>sockets := ss', listeners := L', pending := P'\<rparr>))"
  using assms stack_okD(3,4,6,7) [OF ok]
  by (intro stack_ok_step [OF ok])
     (simp_all add: finish_accept_def create_tcp_channels_def Let_def hm_simps)

lemma tcp_accept_ok:
  assumes L: "libs_ok E view allowed tcv ucv" and ok: "stack_ok E view allowed s"
    and "handle_tcp_accept E h r s = Some s'"
  shows "stack_ok E view allowed s'"
proof (cases "map_of (listeners s) h")
  case None
  with assms(3) ok show ?thesis by (auto simp: handle_tcp_accept_def intro!: stack_ok_reply)
next
  case (Some st)
  have SS: "socket_set_refines (E_set E) view" using L by (simp add: libs_ok_def)
  from Some assms(3) obtain res ss1 st1 where t: "try_accept_socket E (sockets s) st = Some (res, ss1, st1)"
    by (auto simp: handle_tcp_accept_def bind_eq_Some_conv)
  note inv = accept_inv [OF SS stack_okD(5) [OF ok] Some t]
  show ?thesis
  proof (cases res)
    case None
    let ?s = "s\<lparr>sockets := ss1, listeners := hm_insert h st1 (listeners s)\<rparr>"
    from None Some t assms(3) have s': "s' = insert_pending E h (PendingAccept r) ?s"
      by (simp add: handle_tcp_accept_def Let_def)
    have "maps_inv (view ss1) ((map_of (pending s))(h \<mapsto> PendingAccept r))
        ((map_of (listeners s))(h \<mapsto> st1)) (map_of (tcp_states s)) (map_of (udp_states s))"
      using inv None by (intro inv_wait_accept) simp_all
    moreover have "\<forall>e \<in> set (events s'). e \<in> set (events s) \<or> event_ok (view ss1) e"
      using s' pending_events(1) by fastforce
    ultimately show ?thesis
      using s' inv None stack_okD(1-4) [OF ok] by (intro stack_ok_step [OF ok]) (simp_all add: hm_simps)
  next
    case (Some x)
    obtain a l p where x: "x = (a, l, p)" by (cases x)
    with Some t assms(3) \<open>map_of (listeners s) h = Some st\<close>
    have "s' = finish_accept E a l p r (s\<lparr>sockets := ss1, listeners := hm_insert h st1 (listeners s),
        pending := pending s\<rparr>)"
      by (simp add: handle_tcp_accept_def Let_def)
    moreover have "stack_ok E view allowed \<dots>"
      using inv Some x stack_okD(1,2) [OF ok] by (intro finish_accept_ok [OF ok]) (simp_all add: hm_simps)
    ultimately show ?thesis by simp
  qed
qed

lemma close_listening_view:
  assumes SS: "socket_set_refines (E_set E) view" and "\<forall>k \<in> set hs. is_tcp (view ss) k"
  shows "\<exists>ss'. close_listening E hs ss = Some ss' \<and> grows (view ss) (view ss')"
  using assms(2)
proof (induction hs arbitrary: ss)
  case Nil
  then show ?case by simp
next
  case (Cons h hs)
  then obtain t where t: "view ss h = Some (SockTcp t)"
    by (auto simp: is_tcp_def split: option.splits sock.splits)
  let ?ss = "if tcp_sock_state (E_tcp E) t = Listen
             then put_tcp (E_set E) ss h (tcp_close (E_tcp E) t) else ss"
  have g: "grows (view ss) (view ?ss)"
    using t set_put(1) [OF SS, of ss h] by (auto intro!: grows_upd(2) simp: is_tcp_def)
  have "\<forall>k \<in> set hs. is_tcp (view ?ss) k" using Cons.prems growsD(1) [OF g] by simp
  from Cons.IH [OF this] g set_get(1) [OF SS t] show ?case by (auto intro: grows_trans)
qed

lemma listener_close_ok:
  assumes L: "libs_ok E view allowed tcv ucv" and ok: "stack_ok E view allowed s"
  shows "\<exists>s'. handle_tcp_listener_close E h s = Some s' \<and> stack_ok E view allowed s'"
proof -
  have SS: "socket_set_refines (E_set E) view" using L by (simp add: libs_ok_def)
  note inv = stack_okD(5) [OF ok]
  show ?thesis
  proof (cases "map_of (listeners s) h")
    case None
    with inv have "maps_inv (view (sockets s)) ((map_of (pending s))(h := None)) (map_of (listeners s))
       (map_of (tcp_states s)) (map_of (udp_states s))" by (intro inv_forget)
    with None stack_okD(1-4) [OF ok] show ?thesis
      by (auto simp: handle_tcp_listener_close_def hm_simps dest: pending_events(2)
          intro!: stack_ok_step [OF ok])
  next
    case (Some st)
    from close_listening_view [OF SS, of "ls_listening_handles st" "sockets s"] maps_invD(6) [OF inv Some]
    obtain ss' where ss': "close_listening E (ls_listening_handles st) (sockets s) = Some ss'"
      "grows (view (sockets s)) (view ss')" by blast
    have "maps_inv (view ss') ((map_of (pending s))(h := None)) ((map_of (listeners s))(h := None))
       (map_of (tcp_states s)) (map_of (udp_states s))"
      using inv_unlisten [OF inv_grow [OF inv ss'(2)]] .
    with Some ss' stack_okD(1-4) [OF ok] show ?thesis
      by (auto simp: handle_tcp_listener_close_def hm_simps dest: pending_events(2)
          intro!: stack_ok_step [OF ok])
  qed
qed

lemma tcp_close_ok:
  assumes L: "libs_ok E view allowed tcv ucv" and ok: "stack_ok E view allowed s"
    and h: "is_tcp (view (sockets s)) h"
  shows "\<exists>s'. handle_tcp_close E h s = Some s' \<and> stack_ok E view allowed s'"
proof -
  have SS: "socket_set_refines (E_set E) view" using L by (simp add: libs_ok_def)
  from h obtain t where t: "view (sockets s) h = Some (SockTcp t)"
    by (auto simp: is_tcp_def split: option.splits sock.splits)
  let ?ss = "put_tcp (E_set E) (sockets s) h (tcp_close (E_tcp E) t)"
  have g: "grows (view (sockets s)) (view ?ss)"
    using t set_put(1) [OF SS, of "sockets s" h] h by (auto intro!: grows_upd(2))
  from inv_close(1) [OF inv_grow [OF stack_okD(5) [OF ok] g]] g stack_okD(1-4) [OF ok]
    set_get(1) [OF SS t] show ?thesis
    by (auto simp: handle_tcp_close_def hm_simps intro!: stack_ok_step [OF ok])
qed

lemma udp_close_ok:
  assumes L: "libs_ok E view allowed tcv ucv" and ok: "stack_ok E view allowed s"
    and h: "is_udp (view (sockets s)) h"
  shows "\<exists>s'. handle_udp_close E h s = Some s' \<and> stack_ok E view allowed s'"
proof -
  have SS: "socket_set_refines (E_set E) view" using L by (simp add: libs_ok_def)
  from h obtain u where u: "view (sockets s) h = Some (SockUdp u)"
    by (auto simp: is_udp_def split: option.splits sock.splits)
  let ?ss = "put_udp (E_set E) (sockets s) h (udp_close (E_udp E) u)"
  have g: "grows (view (sockets s)) (view ?ss)"
    using u set_put(2) [OF SS, of "sockets s" h] h by (auto intro!: grows_upd(3))
  from inv_close(2) [OF inv_grow [OF stack_okD(5) [OF ok] g]] g stack_okD(1-4) [OF ok]
    set_get(2) [OF SS u] show ?thesis
    by (auto simp: handle_udp_close_def hm_simps intro!: stack_ok_step [OF ok])
qed

lemma udp_bind_ok:
  assumes L: "libs_ok E view allowed tcv ucv" and ok: "stack_ok E view allowed s"
  shows "\<exists>s'. handle_udp_bind E addr r s = Some s' \<and> stack_ok E view allowed s'"
proof -
  have SS: "socket_set_refines (E_set E) view" using L by (simp add: libs_ok_def)
  obtain port s1 where p: "(if sa_port addr = 0 then allocate_ephemeral_port s else (sa_port addr, s)) = (port, s1)"
    by fastforce
  then have ok1: "stack_ok E view allowed s1"
    using ok by (auto simp: allocate_ephemeral_port_def stack_ok_def split: if_splits)
  let ?ep = "socket_addr_to_listen_endpoint_with_port addr port"
  let ?new = "udp_new (E_udp E) UDP_PACKET_METADATA_SLOTS UDP_PACKET_BUFFER_SIZE"
  show ?thesis
  proof (cases "udp_bind (E_udp E) ?new ?ep")
    case (Inl e)
    with p ok1 show ?thesis by (simp add: handle_udp_bind_def stack_ok_reply)
  next
    case (Inr socket)
    obtain h ss where h: "add_udp (E_set E) (sockets s1) socket = (h, ss)" by fastforce
    from set_add_udp [OF SS h] have v: "view (sockets s1) h = None"
      "view ss = (view (sockets s1))(h \<mapsto> SockUdp socket)" by auto
    then have g: "grows (view (sockets s1)) (view ss)" and u: "is_udp (view ss) h"
      by (simp_all add: grows_upd is_udp_def)
    from Inr h p g u inv_udp_bind [OF stack_okD(5) [OF ok1] g u] stack_okD(1-4) [OF ok1] show ?thesis
      by (simp add: handle_udp_bind_def create_udp_channels_def Let_def)
         (intro stack_ok_step [OF ok1], simp_all add: hm_simps)
  qed
qed

lemma ip_handlers_ok:
  assumes L: "libs_ok E view allowed tcv ucv" and ok: "stack_ok E view allowed s"
  shows "unat p \<le> addr_bits (ip_addr_to_smoltcp ip) \<Longrightarrow> allowed (ip_addr_to_smoltcp ip) \<Longrightarrow>
      \<exists>s'. handle_add_ip E ip p r s = Some s' \<and> stack_ok E view allowed s'"
    and "\<exists>s'. handle_remove_ip E ip r s = Some s' \<and> stack_ok E view allowed s'"
    and "\<exists>s'. handle_get_ips E r s = Some s' \<and> stack_ok E view allowed s'"
proof -
  have I: "iface_refines (E_ifc E) allowed" using L by (simp add: libs_ok_def)
  let ?as = "ip_addrs (E_ifc E) (iface s)"
  have set: "\<exists>ifc'. set_ip_addrs (E_ifc E) (iface s) as = Some ifc' \<and>
      stack_ok E view allowed (reply_to r a (s\<lparr>iface := ifc'\<rparr>))"
    if "\<forall>a \<in> set as. allowed (cidr_address a)" "reply_ok (view (sockets s)) a" for as a
    using iface_set_addrs [OF I that(1), of "iface s"] ok that by (auto simp: stack_ok_def)
  show "\<exists>s'. handle_remove_ip E ip r s = Some s' \<and> stack_ok E view allowed s'"
    using set [of "filter (\<lambda>a. cidr_address a \<noteq> ip_addr_to_smoltcp ip) ?as" RUnit] stack_okD(6) [OF ok]
    by (auto simp: handle_remove_ip_def Let_def)
  show "\<exists>s'. handle_get_ips E r s = Some s' \<and> stack_ok E view allowed s'"
    using ok by (simp add: handle_get_ips_def stack_ok_reply)
  assume p: "unat p \<le> addr_bits (ip_addr_to_smoltcp ip)" "allowed (ip_addr_to_smoltcp ip)"
  let ?c = "IpCidr (ip_addr_to_smoltcp ip) p"
  have "cidr_new (E_ifc E) (ip_addr_to_smoltcp ip) p = Some ?c" using iface_cidr [OF I] p(1) by simp
  with set [of "?as @ [?c]" RUnit] set [of ?as "RErr (IoError OutOfMemory ''address list full'')"]
    stack_okD(6) [OF ok] p(2) ok
  show "\<exists>s'. handle_add_ip E ip p r s = Some s' \<and> stack_ok E view allowed s'"
    by (auto simp: handle_add_ip_def Let_def stack_ok_reply)
qed

section \<open>No handler panics\<close>

text \<open>What the application owes: it closes only handles it was given, and adds only
  addresses that smoltcp takes.\<close>

fun cmd_ok :: "(ip_address \<Rightarrow> bool) \<Rightarrow> ('ifc, 'set, 'c, 'd) stack \<Rightarrow> stack_command \<Rightarrow> bool" where
  "cmd_ok allowed s (TcpClose h) = (\<exists>r la pa ch. Reply r (RConnected h la pa ch) \<in> set (events s))"
| "cmd_ok allowed s (UdpClose h) = (\<exists>r addr ch. Reply r (RUdpBound h addr ch) \<in> set (events s))"
| "cmd_ok allowed s (AddIp ip p r) =
     (unat p \<le> addr_bits (ip_addr_to_smoltcp ip) \<and> allowed (ip_addr_to_smoltcp ip))"
| "cmd_ok allowed s _ = True"

lemma tcp_connect_total:
  assumes L: "libs_ok E view allowed tcv ucv"
  shows "\<exists>s'. handle_tcp_connect E cfg lip addr r s = Some s'"
proof -
  have SS: "socket_set_refines (E_set E) view" using L by (simp add: libs_ok_def)
  obtain h ss1 where a: "add_tcp (E_set E) (sockets s) (new_tcp E) = (h, ss1)" by fastforce
  from set_add_tcp [OF SS a] have v: "view ss1 h = Some (SockTcp (new_tcp E))" by simp
  from set_get(1) [OF SS v] set_remove [OF SS, of ss1 h] v a show ?thesis
    by (auto simp: handle_tcp_connect_def allocate_ephemeral_port_def Let_def
        split: sum.split prod.split)
qed

lemma tcp_listen_total:
  assumes L: "libs_ok E view allowed tcv ucv"
  shows "\<exists>s'. handle_tcp_listen E addr n r s = Some s'"
proof -
  have SS: "socket_set_refines (E_set E) view" using L by (simp add: libs_ok_def)
  obtain res ss1 where c: "create_listeners E (socket_addr_to_listen_endpoint addr) (max n 1) []
      (sockets s) = (res, ss1)" by fastforce
  show ?thesis
  proof (cases res)
    case (Inr hs)
    with create_listeners_cases [OF c] have "hs \<noteq> []" by auto
    with Inr c show ?thesis by (auto simp: handle_tcp_listen_def Let_def split: list.split)
  next
    case (Inl x)
    then obtain e hs where x: "res = Inl (e, hs)" by (cases x) auto
    with create_listeners_view [OF SS c] have new: "distinct hs"
      "\<And>k. if k \<in> set hs then view (sockets s) k = None \<and> is_tcp (view ss1) k
           else view ss1 k = view (sockets s) k" by auto
    have "\<forall>k \<in> set hs. view ss1 k \<noteq> None" using new(2) is_tcp_some(1) [of "view ss1"] by metis
    from remove_all_view [OF SS new(1) this] x c show ?thesis
      by (auto simp: handle_tcp_listen_def Let_def)
  qed
qed

lemma tcp_accept_total:
  assumes L: "libs_ok E view allowed tcv ucv" and ok: "stack_ok E view allowed s"
  shows "\<exists>s'. handle_tcp_accept E h r s = Some s'"
proof (cases "map_of (listeners s) h")
  case None
  then show ?thesis by (simp add: handle_tcp_accept_def)
next
  case (Some st)
  have SS: "socket_set_refines (E_set E) view" using L by (simp add: libs_ok_def)
  from maps_invD(6) [OF stack_okD(5) [OF ok] Some] try_accept_total [OF SS, of st "sockets s"]
  obtain res ss' st' where "try_accept_socket E (sockets s) st = Some (res, ss', st')" by blast
  with Some show ?thesis by (auto simp: handle_tcp_accept_def Let_def split: option.split)
qed

lemma handle_command_ok:
  assumes "libs_ok E view allowed tcv ucv" and ok: "stack_ok E view allowed s" and "cmd_ok allowed s cmd"
  shows "\<exists>s'. handle_command E cfg cmd s = Some (True, s') \<and> stack_ok E view allowed s'"
proof -
  note L = assms(1)
  have given: "event_ok (view (sockets s)) e" if "e \<in> set (events s)" for e
    using stack_okD(7) [OF ok] that by blast
  show ?thesis
  proof (cases cmd)
    case (TcpConnect lip addr r)
    with tcp_connect_total [OF L, of cfg lip addr r s] tcp_connect_ok [OF L ok] show ?thesis by auto
  next
    case (TcpListen addr n r)
    with tcp_listen_total [OF L, of addr n r s] tcp_listen_ok [OF L ok] show ?thesis by auto
  next
    case (TcpAccept h r)
    with tcp_accept_total [OF L ok, of h r] tcp_accept_ok [OF L ok] show ?thesis by auto
  next
    case (TcpListenerClose h)
    with listener_close_ok [OF L ok, of h] show ?thesis by auto
  next
    case (TcpClose h)
    with assms(3) given have "is_tcp (view (sockets s)) h" by force
    from tcp_close_ok [OF L ok this] TcpClose show ?thesis by auto
  next
    case (UdpBind addr r)
    with udp_bind_ok [OF L ok, of addr r] show ?thesis by auto
  next
    case (UdpClose h)
    with assms(3) given have "is_udp (view (sockets s)) h" by force
    from udp_close_ok [OF L ok this] UdpClose show ?thesis by auto
  next
    case (AddIp ip p r)
    with assms(3) ip_handlers_ok(1) [OF L ok, of p ip r] show ?thesis by auto
  next
    case (RemoveIp ip r)
    with ip_handlers_ok(2) [OF L ok, of ip r] show ?thesis by auto
  next
    case (GetIps r)
    with ip_handlers_ok(3) [OF L ok, of r] show ?thesis by auto
  qed
qed

lemma process_pending_one_ok:
  assumes L: "libs_ok E view allowed tcv ucv" and ok: "stack_ok E view allowed s"
  shows "\<exists>s'. process_pending_one E h s = Some s' \<and> stack_ok E view allowed s'"
proof -
  have SS: "socket_set_refines (E_set E) view" using L by (simp add: libs_ok_def)
  note inv = stack_okD(5) [OF ok]
  have fin: "process_pending_one E h s \<noteq> None"
  proof (cases "map_of (pending s) h")
    case (Some op)
    show ?thesis
    proof (cases op)
      case (PendingConnect la pa ch r)
      with Some maps_invD(4) [OF inv] have "is_tcp (view (sockets s)) h" by blast
      then obtain t where "get_tcp (E_set E) (sockets s) h = Some t"
        using set_get(1) [OF SS] by (auto simp: is_tcp_def split: option.splits sock.splits)
      with Some PendingConnect show ?thesis by (auto simp: process_pending_one_def Let_def)
    next
      case (PendingAccept r)
      with Some maps_invD(3) [OF inv] obtain st where st: "map_of (listeners s) h = Some st" by blast
      from maps_invD(6) [OF inv st] try_accept_total [OF SS, of st "sockets s"]
      obtain res ss' st' where "try_accept_socket E (sockets s) st = Some (res, ss', st')" by blast
      with Some PendingAccept st show ?thesis
        by (auto simp: process_pending_one_def Let_def split: option.split)
    qed
  qed (simp add: process_pending_one_def)
  then obtain s' where s': "process_pending_one E h s = Some s'" by blast
  then have "stack_ok E view allowed s'"
  proof (cases rule: process_pending_one_cases)
    case (waiting ss' ls')
    with ok inv stack_okD(1-4) [OF ok] show ?thesis
      by (intro stack_ok_step [OF ok]) (auto simp: hm_simps fun_upd_idem)
  next
    case (connected la pa ch r t)
    with inv_forget [OF inv, of h] maps_invD(4) [OF inv connected(1)] stack_okD(1-4) [OF ok] show ?thesis
      by (intro stack_ok_step [OF ok]) (auto simp: hm_simps)
  next
    case (refused la pa ch r t s2)
    with inv_close(1) [OF inv_forget [OF inv, of h], of h] stack_okD(1-4) [OF ok] show ?thesis
      by (intro stack_ok_step [OF ok]) (auto simp: hm_simps)
  next
    case (accepted r st a l p ss1 st1)
    from accept_inv [OF SS inv_forget [OF inv, of h] accepted(2,3)] accepted(4) stack_okD(1,2) [OF ok]
    show ?thesis by (simp only:) (intro finish_accept_ok [OF ok], simp_all add: hm_simps)
  next
    case (closed r)
    with maps_invD(3) [OF inv] show ?thesis by blast
  qed
  with s' show ?thesis by blast
qed

lemma process_pending_ok:
  assumes "libs_ok E view allowed tcv ucv" and "stack_ok E view allowed s"
  shows "\<exists>s'. process_pending E ord s = Some s' \<and> stack_ok E view allowed s'"
  unfolding process_pending_def Let_def
  using assms(2) by (rule for_handles_total) (rule process_pending_one_ok [OF assms(1)])

section \<open>The loops of the data path end\<close>

text \<open>The channels alone bound the loops: a write loop takes from a finite queue, a read
  loop fills a bounded one.\<close>

lemma tcp_write_loop_returns:
  assumes "mpsc_refines C cv"
  shows "\<exists>x. tcp_write_loop T C socket c = Some x"
proof (induction "queue (cv c)" arbitrary: socket c rule: length_induct)
  case 1
  from assms show ?case
  proof (cases rule: try_recv_cases [where c = c])
    case (ok x c1 xs)
    with 1 [rule_format, of "queue (cv c1)" c1] show ?thesis
      by (subst tcp_write_loop.simps) (auto split: prod.split option.split)
  qed (subst tcp_write_loop.simps, simp)+
qed

lemma process_tcp_write_returns:
  "mpsc_refines C cv \<Longrightarrow> \<exists>x. process_tcp_write T C socket c pw = Some x"
  using tcp_write_loop_returns [of C cv T]
  by (auto simp: process_tcp_write_def split: option.split prod.split)

lemma udp_write_returns:
  assumes "mpsc_refines C cv"
  shows "\<exists>x. process_udp_write U C socket c st = Some x"
  unfolding process_udp_write_def
proof (induction "queue (cv c)" arbitrary: socket c st rule: length_induct)
  case 1
  from assms show ?case
  proof (cases rule: try_recv_cases [where c = c])
    case (ok x c1 xs)
    with 1 [rule_format, of "queue (cv c1)" c1] show ?thesis
      by (subst udp_write_loop.simps) (auto split: prod.split option.split)
  qed (subst udp_write_loop.simps, simp)+
qed

lemma room_permit_send:
  assumes "mpsc_refines C cv" and "try_reserve C c"
  shows "room (cv (permit_send C c x)) < room (cv c)"
  using assms by (auto simp: mpsc_ops chan_permit_send_def chan_try_reserve_def room_def)

lemma tcp_read_returns:
  assumes "mpsc_refines C cv"
  shows "\<exists>x. process_tcp_read T C socket c = Some x"
  unfolding process_tcp_read_def
proof (induction "room (cv c)" arbitrary: socket c rule: less_induct)
  case less
  have "\<exists>a b. tcp_read_loop T C s1 (permit_send C c buf) = Some (a, b)" if "try_reserve C c" for s1 buf
    using less [OF room_permit_send [OF assms that]] by (metis prod.exhaust)
  then show ?case by (subst tcp_read_loop.simps) (auto split: prod.split option.split)
qed

lemma udp_read_returns:
  assumes "mpsc_refines C cv"
  shows "\<exists>x. process_udp_read U C socket c st = Some x"
  unfolding process_udp_read_def
proof (induction "room (cv c)" arbitrary: socket c st rule: less_induct)
  case less
  have "\<exists>a b d. udp_read_loop U C s1 (permit_send C c buf) st' = Some (a, b, d)"
    if "try_reserve C c" for s1 buf st'
    using less [OF room_permit_send [OF assms that]] by (metis prod_cases3)
  then show ?case by (subst udp_read_loop.simps) (auto split: prod.split option.split)
qed

section \<open>Polling keeps the invariant\<close>

text \<open>Polling leaves the task's maps with the keys they had.\<close>

definition same_keys :: "('ifc, 'set, 'c, 'd) stack \<Rightarrow> ('ifc, 'set, 'c, 'd) stack \<Rightarrow> bool" where
  "same_keys s s' \<longleftrightarrow> dom (map_of (tcp_states s')) = dom (map_of (tcp_states s)) \<and>
     dom (map_of (udp_states s')) = dom (map_of (udp_states s))"

lemma tcp_write_one_ok:
  assumes L: "libs_ok E view allowed tcv ucv" and ok: "stack_ok E view allowed s"
    and "h \<in> dom (map_of (tcp_states s))"
  shows "\<exists>s'. tcp_write_one E h s = Some s' \<and> stack_ok E view allowed s' \<and> same_keys s s'"
proof -
  have SS: "socket_set_refines (E_set E) view" and C: "mpsc_refines (E_tch E) tcv"
    using L by (simp_all add: libs_ok_def)
  from assms(3) obtain st where st: "map_of (tcp_states s) h = Some st" by blast
  with maps_invD(1) [OF stack_okD(5) [OF ok]] have tcp: "is_tcp (view (sockets s)) h" by blast
  then obtain t where t: "view (sockets s) h = Some (SockTcp t)"
    by (auto simp: is_tcp_def split: option.splits sock.splits)
  from process_tcp_write_returns [OF C] obtain t' c' pw' where
    p: "process_tcp_write (E_tcp E) (E_tch E) t (tcp_chans s (ts_write_rx st)) (ts_pending_write st)
      = Some (t', c', pw')" by (metis prod_cases3)
  let ?ss = "put_tcp (E_set E) (sockets s) h t'"
  have g: "grows (view (sockets s)) (view ?ss)"
    using t set_put(1) [OF SS, of "sockets s" h] tcp by (auto intro!: grows_upd(2))
  have "maps_inv (view ?ss) (map_of (pending s)) (map_of (listeners s))
      ((map_of (tcp_states s))(h \<mapsto> st\<lparr>ts_pending_write := pw'\<rparr>)) (map_of (udp_states s))"
    using inv_tcp_update [OF inv_grow [OF stack_okD(5) [OF ok] g]] st by simp
  with st p g set_get(1) [OF SS t] stack_okD(1-4) [OF ok] show ?thesis
    by (auto simp: tcp_write_one_def same_keys_def hm_simps intro!: stack_ok_step [OF ok])
qed

lemma tcp_read_one_ok:
  assumes L: "libs_ok E view allowed tcv ucv" and ok: "stack_ok E view allowed s"
    and "h \<in> dom (map_of (tcp_states s))"
  shows "\<exists>s'. tcp_read_one E h s = Some s' \<and> stack_ok E view allowed s' \<and> same_keys s s'"
proof -
  have SS: "socket_set_refines (E_set E) view" and C: "mpsc_refines (E_tch E) tcv"
    using L by (simp_all add: libs_ok_def)
  from assms(3) obtain st where st: "map_of (tcp_states s) h = Some st" by blast
  with maps_invD(1) [OF stack_okD(5) [OF ok]] have tcp: "is_tcp (view (sockets s)) h" by blast
  then obtain t where t: "view (sockets s) h = Some (SockTcp t)"
    by (auto simp: is_tcp_def split: option.splits sock.splits)
  from tcp_read_returns [OF C] obtain t' c' where
    p: "process_tcp_read (E_tcp E) (E_tch E) t (tcp_chans s (ts_read_tx st)) = Some (t', c')"
    by (metis prod.exhaust)
  let ?ss = "put_tcp (E_set E) (sockets s) h t'"
  have g: "grows (view (sockets s)) (view ?ss)"
    using t set_put(1) [OF SS, of "sockets s" h] tcp by (auto intro!: grows_upd(2))
  with st p set_get(1) [OF SS t] inv_grow [OF stack_okD(5) [OF ok] g] stack_okD(1-4) [OF ok] show ?thesis
    by (auto simp: tcp_read_one_def same_keys_def intro!: stack_ok_step [OF ok])
qed

lemma udp_write_one_ok:
  assumes L: "libs_ok E view allowed tcv ucv" and ok: "stack_ok E view allowed s"
    and "h \<in> dom (map_of (udp_states s))"
  shows "\<exists>s'. udp_write_one E h s = Some s' \<and> stack_ok E view allowed s' \<and> same_keys s s'"
proof -
  have SS: "socket_set_refines (E_set E) view" and C: "mpsc_refines (E_uch E) ucv"
    using L by (simp_all add: libs_ok_def)
  from assms(3) obtain st where st: "map_of (udp_states s) h = Some st" by blast
  with maps_invD(2) [OF stack_okD(5) [OF ok]] have udp: "is_udp (view (sockets s)) h" by blast
  then obtain u where u: "view (sockets s) h = Some (SockUdp u)"
    by (auto simp: is_udp_def split: option.splits sock.splits)
  from udp_write_returns [OF C] obtain u' c' x where
    p: "process_udp_write (E_udp E) (E_uch E) u (udp_chans s (us_write_rx st)) (stats s) = Some (u', c', x)"
    by (metis prod_cases3)
  let ?ss = "put_udp (E_set E) (sockets s) h u'"
  have g: "grows (view (sockets s)) (view ?ss)"
    using u set_put(2) [OF SS, of "sockets s" h] udp by (auto intro!: grows_upd(3))
  with st p set_get(2) [OF SS u] inv_grow [OF stack_okD(5) [OF ok] g] stack_okD(1-4) [OF ok] show ?thesis
    by (auto simp: udp_write_one_def same_keys_def intro!: stack_ok_step [OF ok])
qed

lemma udp_read_one_ok:
  assumes L: "libs_ok E view allowed tcv ucv" and ok: "stack_ok E view allowed s"
    and "h \<in> dom (map_of (udp_states s))"
  shows "\<exists>s'. udp_read_one E h s = Some s' \<and> stack_ok E view allowed s' \<and> same_keys s s'"
proof -
  have SS: "socket_set_refines (E_set E) view" and C: "mpsc_refines (E_uch E) ucv"
    using L by (simp_all add: libs_ok_def)
  from assms(3) obtain st where st: "map_of (udp_states s) h = Some st" by blast
  with maps_invD(2) [OF stack_okD(5) [OF ok]] have udp: "is_udp (view (sockets s)) h" by blast
  then obtain u where u: "view (sockets s) h = Some (SockUdp u)"
    by (auto simp: is_udp_def split: option.splits sock.splits)
  from udp_read_returns [OF C] obtain u' c' x where
    p: "process_udp_read (E_udp E) (E_uch E) u (udp_chans s (us_read_tx st)) (stats s) = Some (u', c', x)"
    by (metis prod_cases3)
  let ?ss = "put_udp (E_set E) (sockets s) h u'"
  have g: "grows (view (sockets s)) (view ?ss)"
    using u set_put(2) [OF SS, of "sockets s" h] udp by (auto intro!: grows_upd(3))
  with st p set_get(2) [OF SS u] inv_grow [OF stack_okD(5) [OF ok] g] stack_okD(1-4) [OF ok] show ?thesis
    by (auto simp: udp_read_one_def same_keys_def intro!: stack_ok_step [OF ok])
qed

lemma poll_all_ok:
  assumes "stack_ok E view allowed s" and "\<And>h. h \<in> set hs \<Longrightarrow> h \<in> dom (map_of (keys s))"
    and "\<And>s h. stack_ok E view allowed s \<Longrightarrow> h \<in> dom (map_of (keys s)) \<Longrightarrow>
      \<exists>s'. f h s = Some s' \<and> stack_ok E view allowed s' \<and> same_keys s s'"
    and "\<And>s s'. same_keys s s' \<Longrightarrow> dom (map_of (keys s')) = dom (map_of (keys s))"
  shows "\<exists>s'. for_handles f hs s = Some s' \<and> stack_ok E view allowed s'"
proof -
  have "\<exists>s'. for_handles f hs s = Some s' \<and> (stack_ok E view allowed s' \<and> dom (map_of (keys s')) = dom (map_of (keys s)))"
    by (rule for_handles_total) (use assms in \<open>auto, metis\<close>)
  then show ?thesis by blast
qed

lemma poll_write_channels_ok:
  assumes L: "libs_ok E view allowed tcv ucv" and ok: "stack_ok E view allowed s" and "any_order ord"
  shows "\<exists>s'. poll_write_channels E ord s = Some s' \<and> stack_ok E view allowed s'"
proof -
  have "\<exists>s1. for_handles (tcp_write_one E) (ord (hm_keys (tcp_states s))) s = Some s1 \<and>
      stack_ok E view allowed s1"
    using any_order_keys [OF assms(3) stack_okD(3) [OF ok]] tcp_write_one_ok [OF L]
    by (intro poll_all_ok [where keys = tcp_states, OF ok]) (auto simp: same_keys_def)
  then obtain s1 where s1: "for_handles (tcp_write_one E) (ord (hm_keys (tcp_states s))) s = Some s1"
    "stack_ok E view allowed s1" by blast
  have "\<exists>s'. for_handles (udp_write_one E) (ord (hm_keys (udp_states s1))) s1 = Some s' \<and>
      stack_ok E view allowed s'"
    using any_order_keys [OF assms(3) stack_okD(4) [OF s1(2)]] udp_write_one_ok [OF L]
    by (intro poll_all_ok [where keys = udp_states, OF s1(2)]) (auto simp: same_keys_def)
  with s1(1) show ?thesis by (simp add: poll_write_channels_def)
qed

lemma poll_read_channels_ok:
  assumes L: "libs_ok E view allowed tcv ucv" and ok: "stack_ok E view allowed s" and "any_order ord"
  shows "\<exists>s'. poll_read_channels E ord s = Some s' \<and> stack_ok E view allowed s'"
proof -
  have "\<exists>s1. for_handles (tcp_read_one E) (ord (hm_keys (tcp_states s))) s = Some s1 \<and>
      stack_ok E view allowed s1"
    using any_order_keys [OF assms(3) stack_okD(3) [OF ok]] tcp_read_one_ok [OF L]
    by (intro poll_all_ok [where keys = tcp_states, OF ok]) (auto simp: same_keys_def)
  then obtain s1 where s1: "for_handles (tcp_read_one E) (ord (hm_keys (tcp_states s))) s = Some s1"
    "stack_ok E view allowed s1" by blast
  have "\<exists>s'. for_handles (udp_read_one E) (ord (hm_keys (udp_states s1))) s1 = Some s' \<and>
      stack_ok E view allowed s'"
    using any_order_keys [OF assms(3) stack_okD(4) [OF s1(2)]] udp_read_one_ok [OF L]
    by (intro poll_all_ok [where keys = udp_states, OF s1(2)]) (auto simp: same_keys_def)
  with s1(1) show ?thesis by (simp add: poll_read_channels_def)
qed

lemma poll_ingress_ok:
  assumes "poll_refines P I view"
    and "poll_ingress P t n b (ifc, dev, ss) = (b', ifc', dev', ss')"
  shows "same_sockets (view ss) (view ss') \<and> ip_addrs I ifc' = ip_addrs I ifc"
  using assms(2)
proof (induction n arbitrary: b ifc dev ss)
  case 0
  then show ?case by simp
next
  case (Suc n)
  obtain r ifc1 dev1 ss1 where r: "poll_ingress_single P t (ifc, dev, ss) = (r, ifc1, dev1, ss1)"
    by (rule prod_cases4)
  with assms(1) have 1: "same_sockets (view ss) (view ss1) \<and> ip_addrs I ifc1 = ip_addrs I ifc"
    by (simp add: poll_refines_def)
  from r Suc.prems 1 show ?case
    by (cases r) (auto dest!: Suc.IH intro: same_sockets_trans)
qed

section \<open>No run panics\<close>

definition tick_ok :: "(ip_address \<Rightarrow> bool) \<Rightarrow> 'dev \<times> ('ifc, 'set, 'c, 'd) stack \<Rightarrow> tick \<Rightarrow> bool" where
  "tick_ok allowed ds tk \<longleftrightarrow> any_order (tk_ord tk) \<and>
     (case tk_wake tk of Command cmd \<Rightarrow> cmd_ok allowed (snd ds) cmd | _ \<Rightarrow> True)"

lemma stack_iteration_ok:
  assumes L: "libs_ok E view allowed tcv ucv" and P: "poll_refines P (E_ifc E) view"
    and ok: "stack_ok E view allowed s" and tk: "tick_ok allowed (dev, s) tk"
  shows "\<exists>r. stack_iteration E P cfg tk (dev, s) = Some r \<and>
     (\<forall>dev' s'. r = Continue (dev', s') \<longrightarrow> stack_ok E view allowed s')"
proof (cases "tk_wake tk = CommandsClosed")
  case True
  then show ?thesis by (simp add: stack_iteration_def)
next
  case False
  have ord: "any_order (tk_ord tk)" using tk by (simp add: tick_ok_def)
  obtain s1 where s1: "(case tk_wake tk of Command cmd \<Rightarrow> handle_command E cfg cmd s
      | CommandsClosed \<Rightarrow> Some (False, s) | WriteNotified \<Rightarrow> Some (True, s) | Timeout \<Rightarrow> Some (True, s))
      = Some (True, s1)" "stack_ok E view allowed s1"
    using False tk ok handle_command_ok [OF L ok, of _ cfg] by (cases "tk_wake tk") (auto simp: tick_ok_def)
  from poll_write_channels_ok [OF L s1(2) ord] obtain s2 where
    s2: "poll_write_channels E (tk_ord tk) s1 = Some s2" "stack_ok E view allowed s2" by blast
  obtain c3 ifc3 dev3 ss3 where i: "poll_ingress P (tk_now tk) INGRESS_BATCH_SIZE False
      (iface s2, dev, sockets s2) = (c3, ifc3, dev3, ss3)" by (rule prod_cases4)
  obtain eg ifc4 dev4 ss4 where e: "poll_egress P (tk_now tk) (ifc3, dev3, ss3) = (eg, ifc4, dev4, ss4)"
    by (rule prod_cases4)
  from e P have "same_sockets (view ss3) (view ss4) \<and> ip_addrs (E_ifc E) ifc4 = ip_addrs (E_ifc E) ifc3"
    by (simp add: poll_refines_def)
  with poll_ingress_ok [OF P i] have g: "grows (view (sockets s2)) (view ss4)"
    and a: "ip_addrs (E_ifc E) ifc4 = ip_addrs (E_ifc E) (iface s2)"
    by (auto intro: same_sockets_grows same_sockets_trans)
  have "stack_ok E view allowed (s2\<lparr>iface := ifc4, sockets := ss4\<rparr>)"
    using g a inv_grow [OF stack_okD(5) [OF s2(2)] g] stack_okD(1-4) [OF s2(2)]
    by (intro stack_ok_step [OF s2(2)]) simp_all
  from poll_read_channels_ok [OF L this ord] obtain s5 where
    s5: "poll_read_channels E (tk_ord tk) (s2\<lparr>iface := ifc4, sockets := ss4\<rparr>) = Some s5"
      "stack_ok E view allowed s5" by blast
  from process_pending_ok [OF L s5(2)] s5(2) obtain s6 where
    s6: "(if c3 \<or> eg = PollSocketStateChanged then process_pending E (tk_ord tk) s5 else Some s5) = Some s6"
      "stack_ok E view allowed s6" by (metis (full_types))
  from s1(1) s2(1) i e s5(1) s6 show ?thesis by (simp add: stack_iteration_def Let_def)
qed

interpretation stack_safe: task_total "stack_iteration E P cfg"
    "\<lambda>(dev, s). libs_ok E view allowed tcv ucv \<and> poll_refines P (E_ifc E) view \<and> stack_ok E view allowed s"
    "tick_ok allowed"
  for E :: "('ifc, 'set, 'tcp, 'udp, 'c, 'd) stack_env" and P :: "('ifc, 'set, 'dev) poll_api"
    and cfg view allowed tcv ucv
proof (unfold_locales, goal_cases)
  case (1 ds tk ds')
  then show ?case
    using stack_iteration_ok [of E view allowed tcv ucv P "snd ds" "fst ds" tk cfg]
    by (cases ds') (auto simp: split_beta)
next
  case (2 ds tk)
  then show ?case
    using stack_iteration_ok [of E view allowed tcv ucv P "snd ds" "fst ds" tk cfg]
    by (auto simp: split_beta)
qed


text \<open>
  C7: The invariant holds after every iteration of a run: the handles in the maps are
  sockets of the right kind, every pending accept has its listener, the listeners have
  different ports, and a socket waiting in a backlog is in exactly one of them and has not
  been handed to the application.
\<close>

theorem run_stack_invariant:
  assumes "libs_ok E view allowed tcv ucv" and "poll_refines P (E_ifc E) view"
    and "stack_ok E view allowed s" and "inputs_ok (stack_iteration E P cfg) (tick_ok allowed) tks (dev, s)"
    and "run_stack E P cfg tks (dev, s) = Some (Continue (dev', s'), rest)"
  shows "stack_ok E view allowed s'"
  using stack_safe.run_invariant [of E view allowed tcv ucv P "(dev, s)" cfg tks "(dev', s')" rest] assms
  by (simp add: run_stack_def)

section \<open>The start\<close>

lemma ref_libs_ok: "libs_ok ref_env map_set_view (\<lambda>a. True) id id"
  by (simp add: libs_ok_def ref_env_def map_set_refines list_iface_refines chan_mpsc_refines)

lemma ref_stack_ok: "stack_ok ref_env map_set_view (\<lambda>a. True) ref_stack"
  by (simp add: stack_ok_def ref_stack_def maps_inv_def)

text \<open>
  Starting the task succeeds on a configuration whose prefix fits its address, with an
  new interface that has room for an address and a route, and it establishes the invariant
  with the configured address as the only one.
\<close>

lemma stack_init_ok:
  assumes "libs_ok E view allowed tcv ucv" and "view no_sockets = Map.empty"
    and "unat (sc_prefix_len cfg) \<le> addr_bits (ip_addr_to_smoltcp (sc_ip cfg))"
    and "allowed (ip_addr_to_smoltcp (sc_ip cfg))" and "0 < addrs_capacity (E_ifc E)"
    and "\<And>m t as ifc a. set_ip_addrs (E_ifc E) (iface_new (E_ifc E) m t) as = Some ifc \<Longrightarrow>
      add_default_ipv4_route (E_ifc E) ifc a \<noteq> None \<and> add_default_ipv6_route (E_ifc E) ifc a \<noteq> None"
  shows "\<exists>s. stack_init E cfg no_sockets now tch uch port st0 = Some s \<and> stack_ok E view allowed s \<and>
     ip_addrs (E_ifc E) (iface s) = [IpCidr (ip_addr_to_smoltcp (sc_ip cfg)) (sc_prefix_len cfg)]"
proof -
  have I: "iface_refines (E_ifc E) allowed" using assms(1) by (simp add: libs_ok_def)
  let ?c = "IpCidr (ip_addr_to_smoltcp (sc_ip cfg)) (sc_prefix_len cfg)"
  let ?ifc0 = "iface_new (E_ifc E) (sc_mac cfg) now"
  have 0: "ip_addrs (E_ifc E) ?ifc0 = []" using I by (simp add: iface_refines_def)
  obtain ifc1 where 1: "set_ip_addrs (E_ifc E) ?ifc0 [?c] = Some ifc1" "ip_addrs (E_ifc E) ifc1 = [?c]"
    using iface_set_addrs [OF I, of "[?c]" ?ifc0] assms(4) by auto
  let ?route = "case sc_gateway cfg of V4 v4 \<Rightarrow> add_default_ipv4_route (E_ifc E) ifc1 (Ipv4 v4)
      | V6 v6 \<Rightarrow> add_default_ipv6_route (E_ifc E) ifc1 (Ipv6 v6)"
  obtain ifc2 where 2: "?route = Some ifc2" using assms(6) [OF 1(1)] by (cases "sc_gateway cfg") auto
  then have 3: "ip_addrs (E_ifc E) (set_any_ip (E_ifc E) ifc2 True) = [?c]"
    using I 1(2) by (auto simp: iface_refines_def split: ip_addr.splits)
  show ?thesis
    using iface_cidr [OF I] assms(2-5) 0 1 2 3
    by (simp add: stack_init_def Let_def stack_ok_def maps_inv_def)
qed

text \<open>Witness: the closed instance of the libraries.\<close>

lemma stack_init_ok_witness:
  "\<exists>s. stack_init ref_env cfg0 (0, Map.empty) 0 (\<lambda>_. chan_new 0) (\<lambda>_. chan_new 0) EPHEMERAL_PORT_START
       stats_default = Some s \<and> stack_ok ref_env map_set_view (\<lambda>a. True) s \<and> iface s = [IpCidr (Ipv4 1) 24]"
  using stack_init_ok [OF ref_libs_ok, of "(0, Map.empty)" cfg0 0 "\<lambda>_. chan_new 0" "\<lambda>_. chan_new 0"
      EPHEMERAL_PORT_START stats_default]
  by (simp add: map_set_view_def ref_env_def list_iface_def fun_eq_iff)


theorem run_stack_invariant_witness:
  "\<exists>s'. run_stack ref_env idle_poll cfg0 [quiet_tick (Command (GetIps 7))] ((), ref_stack)
       = Some (Continue ((), s'), []) \<and> stack_ok ref_env map_set_view (\<lambda>a. True) s'"
proof -
  let ?tks = "[quiet_tick (Command (GetIps 7))]"
  have i: "inputs_ok (stack_iteration ref_env idle_poll cfg0) (tick_ok (\<lambda>a. True)) ?tks ((), ref_stack)"
    by (auto simp: tick_ok_def quiet_tick_order split: option.split flow.split) (auto simp: quiet_tick_def)
  have "\<exists>s'. run_stack ref_env idle_poll cfg0 ?tks ((), ref_stack) = Some (Continue ((), s'), [])"
    by (simp add: run_stack_def stack_iteration_def quiet_tick_def handle_get_ips_def
        poll_write_channels_def poll_read_channels_def ref_stack_def Let_def)
  then obtain s' where s': "run_stack ref_env idle_poll cfg0 ?tks ((), ref_stack) = Some (Continue ((), s'), [])"
    by blast
  from run_stack_invariant [OF ref_libs_ok idle_poll_refines ref_stack_ok i s'] s' show ?thesis by blast
qed

end
