(* ===== verification/Stack_Behaviour.thy ===== *)
theory Stack_Behaviour
  imports Stack_Safety
begin

text \<open>
  What the handlers of the stack task do, operation by operation: listening, accepting,
  closing a listener, managing the interface's addresses, allocating ports.
\<close>

section \<open>Listening\<close>

lemma create_listeners_listening:
  assumes SS: "socket_set_refines (E_set E) view" and T: "tcp_refines (E_tcp E) tv"
    and "lep_port ep \<noteq> 0"
  shows "\<exists>new ss'. create_listeners E ep n hs ss = (Inr (hs @ new), ss') \<and> length new = n \<and> distinct new \<and>
     (\<forall>k. if k \<in> set new
          then view ss k = None \<and> (\<exists>t. view ss' k = Some (SockTcp t) \<and> sk_state (tv t) = Listen \<and>
            sk_listen (tv t) = Some ep)
          else view ss' k = view ss k)"
proof (induction n arbitrary: hs ss)
  case 0
  show ?case by (intro exI [of _ "[]"]) simp
next
  case (Suc n)
  from tcp_listen_new [OF T assms(3)] obtain t where
    t: "tcp_listen (E_tcp E) (new_tcp E) ep = Inr t" "sk_state (tv t) = Listen" "sk_listen (tv t) = Some ep"
    by (metis (no_types, lifting) tcp_sock.select_convs(1,6) tcp_sock.surjective tcp_sock.update_convs(1,6))
  obtain h ss1 where h: "add_tcp (E_set E) ss t = (h, ss1)" by fastforce
  from set_add_tcp [OF SS h] have v: "view ss h = None" "view ss1 = (view ss)(h \<mapsto> SockTcp t)" by auto
  from Suc.IH [of "hs @ [h]" ss1] obtain new ss' where
    new: "create_listeners E ep n (hs @ [h]) ss1 = (Inr ((hs @ [h]) @ new), ss')" "length new = n"
      "distinct new" "\<And>k. if k \<in> set new
          then view ss1 k = None \<and> (\<exists>t. view ss' k = Some (SockTcp t) \<and> sk_state (tv t) = Listen \<and>
            sk_listen (tv t) = Some ep)
          else view ss' k = view ss1 k" by blast
  from new(4) [of h] v(2) have hn: "h \<notin> set new" "view ss' h = Some (SockTcp t)"
    by (auto split: if_splits)
  have "if k \<in> set (h # new)
        then view ss k = None \<and> (\<exists>t. view ss' k = Some (SockTcp t) \<and> sk_state (tv t) = Listen \<and>
          sk_listen (tv t) = Some ep)
        else view ss' k = view ss k" for k
    using new(4) [of k] v hn t by (auto split: if_splits)
  with new(1-3) hn(1) t(1) h show ?case by (intro exI [of _ "h # new"] exI [of _ ss']) simp
qed

lemma lep_port_listen [simp]: "lep_port (socket_addr_to_listen_endpoint addr) = sa_port addr"
  by (simp add: socket_addr_to_listen_endpoint_def)

text \<open>
  C20: Listening on a nonzero port that no listener has succeeds: it creates exactly
  \<^verbatim>\<open>max(backlog, 1)\<close> new sockets, all in state Listen on the given endpoint, records them
  as the listener's backlog under the first of them, leaves every other socket alone, and
  answers with that handle.
\<close>

theorem tcp_listen_opens_backlog:
  assumes "socket_set_refines (E_set E) view" and "tcp_refines (E_tcp E) tv" and "sa_port addr \<noteq> 0"
    and "\<forall>(k, st) \<in> set (listeners s). sa_port (ls_addr st) \<noteq> sa_port addr"
  shows "\<exists>s' h hs. handle_tcp_listen E addr n r s = Some s' \<and>
     events s' = events s @ [Reply r (RListening h addr)] \<and>
     listeners s' = hm_insert h \<lparr>ls_addr = addr, ls_listening_handles = h # hs\<rparr> (listeners s) \<and>
     length (h # hs) = max n 1 \<and> distinct (h # hs) \<and>
     (\<forall>k. if k \<in> set (h # hs)
          then view (sockets s) k = None \<and> (\<exists>t. view (sockets s') k = Some (SockTcp t) \<and>
            sk_state (tv t) = Listen \<and> sk_listen (tv t) = Some (socket_addr_to_listen_endpoint addr))
          else view (sockets s') k = view (sockets s) k)"
proof -
  have "lep_port (socket_addr_to_listen_endpoint addr) \<noteq> 0" using assms(3) by simp
  from create_listeners_listening [OF assms(1,2) this, of "max n 1" "[]" "sockets s"]
  obtain new ss' where new: "create_listeners E (socket_addr_to_listen_endpoint addr) (max n 1) [] (sockets s)
      = (Inr new, ss')" "length new = max n 1" "distinct new"
      "\<forall>k. if k \<in> set new
          then view (sockets s) k = None \<and> (\<exists>t. view ss' k = Some (SockTcp t) \<and>
            sk_state (tv t) = Listen \<and> sk_listen (tv t) = Some (socket_addr_to_listen_endpoint addr))
          else view ss' k = view (sockets s) k" by auto
  from new(2) obtain h hs where hs: "new = h # hs" by (cases new) auto
  have "\<not> list_ex (\<lambda>(_, st). sa_port (ls_addr st) = sa_port addr) (listeners s)"
    using assms(4) by (auto simp: list_ex_iff)
  with assms(3) new hs show ?thesis
    by (intro exI [of _ "reply_to r (RListening h addr) (s\<lparr>sockets := ss',
          listeners := hm_insert h \<lparr>ls_addr = addr, ls_listening_handles = h # hs\<rparr> (listeners s)\<rparr>)"]
          exI [of _ h] exI [of _ hs])
       (simp add: handle_tcp_listen_def Let_def)
qed

text \<open>Witness: a backlog of 0 on an empty stack, which opens one socket.\<close>

theorem tcp_listen_opens_backlog_witness:
  "\<exists>s' h. handle_tcp_listen ref_env (SockV4 0 80) 0 1 ref_stack = Some s' \<and>
     events s' = [Reply 1 (RListening h (SockV4 0 80))]"
proof -
  have "\<forall>(k, st) \<in> set (listeners ref_stack). sa_port (ls_addr st) \<noteq> sa_port (SockV4 0 80)"
    by (simp add: ref_stack_def)
  from tcp_listen_opens_backlog [of ref_env map_set_view id "SockV4 0 80", OF _ _ _ this, of 0 1]
  show ?thesis
    by (auto simp: ref_env_def map_set_refines sk_tcp_refines ref_stack_def)
qed

text \<open>
  Listening on port 0 is refused as invalid, and on a port that any listener has, at
  whatever address, as in use; either way nothing but the answer changes.
\<close>

lemma tcp_listen_refused:
  assumes "sa_port addr = 0 \<or> (\<exists>(k, st) \<in> set (listeners s). sa_port (ls_addr st) = sa_port addr)"
  shows "handle_tcp_listen E addr n r s = Some (reply_to r (RErr
     (if sa_port addr = 0 then IoError InvalidInput ''cannot listen on port 0''
      else IoError AddrInUse ''address already in use'')) s)"
  using assms by (auto simp: handle_tcp_listen_def Let_def list_ex_iff)

text \<open>Witness: a listener at one address keeps another address from its port.\<close>

lemma tcp_listen_refused_witness:
  "let s = ref_stack\<lparr>listeners := [(0, \<lparr>ls_addr = SockV4 1 80, ls_listening_handles = [0]\<rparr>)]\<rparr>
   in handle_tcp_listen ref_env (SockV4 2 80) 1 7 s =
        Some (reply_to 7 (RErr (IoError AddrInUse ''address already in use'')) s)"
  using tcp_listen_refused [of "SockV4 2 80"
      "ref_stack\<lparr>listeners := [(0, \<lparr>ls_addr = SockV4 1 80, ls_listening_handles = [0]\<rparr>)]\<rparr>" ref_env 1 7]
  by (simp add: ref_stack_def Let_def)

section \<open>Accepting\<close>

lemma get_tcp_total:
  assumes "socket_set_refines SS view" and "is_tcp (view ss) h"
  obtains t where "get_tcp SS ss h = Some t" "view ss h = Some (SockTcp t)"
  using assms set_get(1) [OF assms(1)] that by (auto simp: is_tcp_def split: option.splits sock.splits)

lemma find_established_first:
  assumes "socket_set_refines (E_set E) view" and "\<forall>k \<in> set pre. is_tcp (view ss) k \<and> \<not> ready E ss k"
    and "ready E ss a"
  shows "find_established E ss addr (pre @ a # post) i = Some (Some (i + length pre, accept_addrs E ss addr a))"
  using assms(2)
proof (induction pre arbitrary: i)
  case Nil
  from assms(3) show ?case
    by (auto simp: ready_def accept_addrs_def Let_def split: option.splits)
next
  case (Cons k pre)
  then obtain t where "get_tcp (E_set E) ss k = Some t" using get_tcp_total [OF assms(1)] by (metis list.set_intros(1))
  with Cons show ?case by (auto simp: ready_def split: option.split)
qed

text \<open>
  C19: Accepting on a listener hands out the first socket of its backlog that is established:
  the answer carries that socket and its endpoints, the socket leaves the backlog and gets
  fresh channels, and a new socket listening on the same endpoint takes its place at the end, so
  the backlog keeps its size.
\<close>

theorem tcp_accept_hands_out_first:
  assumes "socket_set_refines (E_set E) view" and "tcp_refines (E_tcp E) tv"
    and "map_of (listeners s) h = Some st" and "sa_port (ls_addr st) \<noteq> 0"
    and "ls_listening_handles st = pre @ a # post" and "\<forall>k \<in> set pre. \<not> ready E (sockets s) k"
    and "ready E (sockets s) a" and "\<forall>k \<in> set pre. is_tcp (view (sockets s)) k"
  shows "\<exists>s' k t ch l p. handle_tcp_accept E h r s = Some s' \<and>
     accept_addrs E (sockets s) (ls_addr st) a = (l, p) \<and>
     events s' = events s @ [Reply r (RConnected a l p ch)] \<and>
     map_of (listeners s') h = Some (st\<lparr>ls_listening_handles := pre @ post @ [k]\<rparr>) \<and>
     view (sockets s) k = None \<and> view (sockets s') = (view (sockets s))(k \<mapsto> SockTcp t) \<and>
     sk_state (tv t) = Listen \<and> sk_listen (tv t) = Some (socket_addr_to_listen_endpoint (ls_addr st)) \<and>
     map_of (tcp_states s') a = Some \<lparr>ts_write_rx = tc_write_tx ch, ts_read_tx = tc_read_rx ch,
       ts_pending_write = None\<rparr> \<and> pending s' = pending s"
proof -
  have "lep_port (socket_addr_to_listen_endpoint (ls_addr st)) \<noteq> 0" using assms(4) by simp
  from tcp_listen_new [OF assms(2) this] obtain t where
    t: "tcp_listen (E_tcp E) (new_tcp E) (socket_addr_to_listen_endpoint (ls_addr st)) = Inr t"
      "sk_state (tv t) = Listen" "sk_listen (tv t) = Some (socket_addr_to_listen_endpoint (ls_addr st))"
    by (metis (no_types, lifting) tcp_sock.select_convs(1,6) tcp_sock.surjective tcp_sock.update_convs(1,6))
  obtain k ss1 where k: "add_tcp (E_set E) (sockets s) t = (k, ss1)" by fastforce
  from set_add_tcp [OF assms(1) k] have v: "view (sockets s) k = None"
    "view ss1 = (view (sockets s))(k \<mapsto> SockTcp t)" by auto
  obtain l p where lp: "accept_addrs E (sockets s) (ls_addr st) a = (l, p)" by fastforce
  have "find_established E (sockets s) (ls_addr st) (pre @ a # post) 0 = Some (Some (length pre, l, p))"
    using find_established_first [OF assms(1), of pre "sockets s" a "ls_addr st" post 0] assms(6-8) lp by simp
  with assms(5) t(1) k have "try_accept_socket E (sockets s) st
      = Some (Some (a, l, p), ss1, st\<lparr>ls_listening_handles := pre @ post @ [k]\<rparr>)"
    by (simp add: try_accept_socket_def Let_def nth_append)
  with assms(3) lp v t(2,3) show ?thesis
    by (auto simp: handle_tcp_accept_def finish_accept_def create_tcp_channels_def Let_def hm_simps
        intro!: exI [of _ k] exI [of _ t])
qed

text \<open>Witness: the second socket of a backlog of two is established.\<close>

definition accept_example ::
    "(ip_cidr list, nat \<times> (handle \<Rightarrow> (tcp_sock, udp_sock) sock option),
      bytes chan, (bytes \<times> socket_addr) chan) stack" where
  "accept_example = ref_stack\<lparr>
     sockets := (2, [0 \<mapsto> SockTcp ((sk_new 9 9)\<lparr>sk_state := Listen\<rparr>),
       1 \<mapsto> SockTcp ((sk_new 9 9)\<lparr>sk_state := Established, sk_remote := Some (IpEndpoint (Ipv4 7) 1000)\<rparr>)]),
     listeners := [(0, \<lparr>ls_addr = SockV4 0 80, ls_listening_handles = [0, 1]\<rparr>)]\<rparr>"

theorem tcp_accept_hands_out_first_witness:
  "\<exists>s' ch k. handle_tcp_accept ref_env 0 5 accept_example = Some s' \<and>
     events s' = [Reply 5 (RConnected 1 (SockV4 0 80) (SockV4 7 1000) ch)] \<and>
     map_of (listeners s') 0 = Some \<lparr>ls_addr = SockV4 0 80, ls_listening_handles = [0, k]\<rparr>"
proof -
  let ?st = "\<lparr>ls_addr = SockV4 0 80, ls_listening_handles = [0, 1]\<rparr>"
  have r: "\<not> ready ref_env (sockets accept_example) 0" "ready ref_env (sockets accept_example) 1"
    "accept_addrs ref_env (sockets accept_example) (SockV4 0 80) 1 = (SockV4 0 80, SockV4 7 1000)"
    by (simp_all add: ready_def accept_addrs_def ref_env_def accept_example_def map_set_def sk_tcp_def
        endpoint_to_socket_addr_def sk_new_def)
  have "map_of (listeners accept_example) 0 = Some ?st" "sa_port (ls_addr ?st) \<noteq> 0"
    "ls_listening_handles ?st = [0] @ 1 # []" "\<forall>k \<in> set [0]. \<not> ready ref_env (sockets accept_example) k"
    "\<forall>k \<in> set [0]. is_tcp (map_set_view (sockets accept_example)) k"
    using r(1) by (simp_all add: accept_example_def map_set_view_def is_tcp_def)
  from tcp_accept_hands_out_first [of ref_env map_set_view id, OF _ _ this(1-4) r(2) this(5), of 5]
  show ?thesis
    using r(3) by (auto simp: ref_env_def map_set_refines sk_tcp_refines accept_example_def ref_stack_def)
qed

text \<open>
  When no socket of the listener's backlog is established, an accept waits; and if an
  earlier accept on the same listener was still waiting, its response sender is dropped
  without an answer.
\<close>

lemma tcp_accept_waits_and_displaces:
  assumes "socket_set_refines (E_set E) view" and "map_of (listeners s) h = Some st"
    and "\<forall>k \<in> set (ls_listening_handles st). is_tcp (view (sockets s)) k \<and> \<not> ready E (sockets s) k"
  shows "\<exists>s'. handle_tcp_accept E h r s = Some s' \<and> sockets s' = sockets s \<and>
     map_of (pending s') = (map_of (pending s))(h \<mapsto> PendingAccept r) \<and>
     events s' = events s @ (case map_of (pending s) h of None \<Rightarrow> [] | Some op \<Rightarrow> [Dropped (op_response op)])"
proof -
  obtain res ss1 st1 where t: "try_accept_socket E (sockets s) st = Some (res, ss1, st1)"
    using try_accept_total [OF assms(1), of st "sockets s"] assms(3) by blast
  then have "res = None \<and> ss1 = sockets s \<and> st1 = st"
    using assms(3) by (cases rule: try_accept_cases) auto
  with t assms(2) show ?thesis
    by (auto simp: handle_tcp_accept_def Let_def hm_simps insert_pending_def split: option.split)
qed

text \<open>Witness: a second accept on a listener with nothing to accept.\<close>

lemma tcp_accept_waits_and_displaces_witness:
  "\<exists>s'. handle_tcp_accept ref_env 0 6 (ref_stack\<lparr>listeners := [(0, \<lparr>ls_addr = SockV4 0 80, ls_listening_handles = []\<rparr>)],
       pending := [(0, PendingAccept 5)]\<rparr>) = Some s' \<and> events s' = [Dropped 5]"
proof -
  let ?st = "\<lparr>ls_addr = SockV4 0 80, ls_listening_handles = []\<rparr>"
  let ?s = "ref_stack\<lparr>listeners := [(0, ?st)], pending := [(0, PendingAccept 5)]\<rparr>"
  have "map_of (listeners ?s) 0 = Some ?st"
    "\<forall>k \<in> set (ls_listening_handles ?st). is_tcp (map_set_view (sockets ?s)) k \<and> \<not> ready ref_env (sockets ?s) k"
    by simp_all
  from tcp_accept_waits_and_displaces [of ref_env map_set_view, OF _ this, of 6] show ?thesis
    by (auto simp: ref_env_def map_set_refines ref_stack_def)
qed

section \<open>Closing a listener\<close>

text \<open>The sockets after those of \<open>hs\<close> that are in state Listen were closed.\<close>

definition backlog_closed ::
    "('ifc, 'set, 'tcp, 'udp, 'c, 'd) stack_env \<Rightarrow> handle list \<Rightarrow> ('tcp, 'udp) sview \<Rightarrow> ('tcp, 'udp) sview" where
  "backlog_closed E hs v = (\<lambda>k. case v k of
     Some (SockTcp t) \<Rightarrow> Some (SockTcp (if k \<in> set hs \<and> tcp_sock_state (E_tcp E) t = Listen
       then tcp_close (E_tcp E) t else t))
   | Some (SockUdp u) \<Rightarrow> Some (SockUdp u)
   | None \<Rightarrow> None)"

lemma backlog_closed_Cons:
  "h \<notin> set hs \<Longrightarrow> v h = Some (SockTcp t) \<Longrightarrow>
     backlog_closed E (h # hs) v =
       backlog_closed E hs (v(h \<mapsto> SockTcp (if tcp_sock_state (E_tcp E) t = Listen then tcp_close (E_tcp E) t else t)))"
  by (rule ext) (auto simp: backlog_closed_def split: option.split sock.split)

lemma close_listening_effect:
  assumes SS: "socket_set_refines (E_set E) view" and "distinct hs" and "\<forall>k \<in> set hs. is_tcp (view ss) k"
  shows "\<exists>ss'. close_listening E hs ss = Some ss' \<and> view ss' = backlog_closed E hs (view ss)"
  using assms(2,3)
proof (induction hs arbitrary: ss)
  case Nil
  then show ?case by (auto simp: backlog_closed_def split: option.split sock.split)
next
  case (Cons h hs)
  from Cons.prems obtain t where t: "get_tcp (E_set E) ss h = Some t" "view ss h = Some (SockTcp t)"
    using get_tcp_total [OF SS, of ss h] by auto
  let ?ss = "if tcp_sock_state (E_tcp E) t = Listen
             then put_tcp (E_set E) ss h (tcp_close (E_tcp E) t) else ss"
  have v: "view ?ss = (view ss)(h \<mapsto> SockTcp (if tcp_sock_state (E_tcp E) t = Listen
      then tcp_close (E_tcp E) t else t))"
    using t(2) set_put(1) [OF SS, of ss h] by (auto simp: fun_upd_idem)
  with Cons.prems have "\<forall>k \<in> set hs. is_tcp (view ?ss) k" by simp
  from Cons.IH [OF _ this] Cons.prems(1) obtain ss' where
    "close_listening E hs ?ss = Some ss'" "view ss' = backlog_closed E hs (view ?ss)" by auto
  with t v backlog_closed_Cons [of h hs "view ss" t E] Cons.prems(1) show ?case by auto
qed

text \<open>
  C21: Closing a listener forgets it, drops the response of an accept that was waiting on it,
  and closes those sockets of its backlog that are in state Listen; the others, a
  connection being set up or one established and not yet accepted, stay as they are, and so does
  every other socket.
\<close>

theorem listener_close_effect:
  assumes "libs_ok E view allowed tcv ucv" and "stack_ok E view allowed s"
    and "map_of (listeners s) h = Some st"
  shows "\<exists>s'. handle_tcp_listener_close E h s = Some s' \<and>
     map_of (listeners s') = (map_of (listeners s))(h := None) \<and>
     map_of (pending s') = (map_of (pending s))(h := None) \<and>
     events s' = events s @ (case map_of (pending s) h of None \<Rightarrow> [] | Some op \<Rightarrow> [Dropped (op_response op)]) \<and>
     view (sockets s') = backlog_closed E (ls_listening_handles st) (view (sockets s))"
proof -
  have SS: "socket_set_refines (E_set E) view" using assms(1) by (simp add: libs_ok_def)
  note inv = stack_okD(5) [OF assms(2)]
  have "distinct (ls_listening_handles st)" "\<forall>k \<in> set (ls_listening_handles st). is_tcp (view (sockets s)) k"
    using maps_invD(5,6) [OF inv assms(3)] by auto
  from close_listening_effect [OF SS this] assms(3) show ?thesis
    by (auto simp: handle_tcp_listener_close_def hm_simps discard_pending_def fun_upd_idem split: option.splits)
qed

text \<open>Witness: the listener of the earlier example.\<close>

lemma accept_example_ok: "stack_ok ref_env map_set_view (\<lambda>a. True) accept_example"
  by (auto simp: stack_ok_def accept_example_def ref_stack_def maps_inv_def is_tcp_def map_set_view_def
      hm_ok_def ref_env_def list_iface_def)

theorem listener_close_effect_witness:
  "\<exists>s'. handle_tcp_listener_close ref_env 0 accept_example = Some s' \<and>
     map_of (listeners s') 0 = None \<and>
     map_set_view (sockets s') 1 = map_set_view (sockets accept_example) 1"
proof -
  have "map_of (listeners accept_example) 0 = Some \<lparr>ls_addr = SockV4 0 80, ls_listening_handles = [0, 1]\<rparr>"
    by (simp add: accept_example_def)
  from listener_close_effect [OF ref_libs_ok accept_example_ok this] obtain s' where
    s': "handle_tcp_listener_close ref_env 0 accept_example = Some s'" "map_of (listeners s') 0 = None"
      "map_set_view (sockets s') = backlog_closed ref_env [0, 1] (map_set_view (sockets accept_example))"
    by auto
  moreover have "map_set_view (sockets s') 1 = map_set_view (sockets accept_example) 1"
    unfolding s'(3) by (simp add: backlog_closed_def accept_example_def map_set_view_def ref_env_def sk_tcp_def sk_new_def)
  ultimately show ?thesis by blast
qed

section \<open>Interface addresses\<close>

text \<open>
  C38: Adding an address that smoltcp takes puts it at the end of the interface's list unless
  it is there already or the list is full, and the answer says which: success in the
  first two cases, \<^verbatim>\<open>OutOfMemory\<close> in the last.
\<close>

theorem add_ip_correct:
  assumes "iface_refines (E_ifc E) allowed" and "\<forall>a \<in> set (ip_addrs (E_ifc E) (iface s)). allowed (cidr_address a)"
    and "unat p \<le> addr_bits (ip_addr_to_smoltcp ip)" and "allowed (ip_addr_to_smoltcp ip)"
    and "addrs = ip_addrs (E_ifc E) (iface s)" and "cidr = IpCidr (ip_addr_to_smoltcp ip) p"
    and "full \<longleftrightarrow> cidr \<notin> set addrs \<and> addrs_capacity (E_ifc E) \<le> length addrs"
  shows "\<exists>s'. handle_add_ip E ip p r s = Some s' \<and>
     ip_addrs (E_ifc E) (iface s') = (if cidr \<in> set addrs \<or> full then addrs else addrs @ [cidr]) \<and>
     events s' = events s @ [Reply r (if full then RErr (IoError OutOfMemory ''address list full'') else RUnit)]"
proof -
  have c: "cidr_new (E_ifc E) (ip_addr_to_smoltcp ip) p = Some cidr"
    using iface_cidr [OF assms(1)] assms(3,6) by simp
  have "\<forall>a \<in> set (if full then addrs else addrs @ [cidr]). allowed (cidr_address a)"
    using assms(2,4-6) by auto
  from iface_set_addrs [OF assms(1) this] obtain ifc' where
    "set_ip_addrs (E_ifc E) (iface s) (if full then addrs else addrs @ [cidr]) = Some ifc'"
    "ip_addrs (E_ifc E) ifc' = (if full then addrs else addrs @ [cidr])" by blast
  with c assms(5-7) show ?thesis
    by (auto simp: handle_add_ip_def Let_def list_ex_iff)
qed

text \<open>Witness: a second address on an interface with room for two.\<close>

theorem add_ip_correct_witness:
  "\<exists>s'. handle_add_ip ref_env (V4 5) 24 1 (ref_stack\<lparr>iface := [IpCidr (Ipv4 4) 24]\<rparr>) = Some s' \<and>
     iface s' = [IpCidr (Ipv4 4) 24, IpCidr (Ipv4 5) 24] \<and> events s' = [Reply 1 RUnit]"
proof -
  let ?s = "ref_stack\<lparr>iface := [IpCidr (Ipv4 4) 24]\<rparr>"
  have "iface_refines (E_ifc ref_env) (\<lambda>a. True)" by (simp add: ref_env_def list_iface_refines)
  moreover have "\<forall>a \<in> set (ip_addrs (E_ifc ref_env) (iface ?s)). True" by simp
  moreover have "unat (24 :: u8) \<le> addr_bits (ip_addr_to_smoltcp (V4 5))" by simp
  moreover have "False \<longleftrightarrow> IpCidr (ip_addr_to_smoltcp (V4 5)) 24 \<notin> set (ip_addrs (E_ifc ref_env) (iface ?s)) \<and>
      addrs_capacity (E_ifc ref_env) \<le> length (ip_addrs (E_ifc ref_env) (iface ?s))"
    by (simp add: ref_env_def list_iface_def)
  ultimately show ?thesis
    using add_ip_correct [of ref_env "\<lambda>a. True" ?s 24 "V4 5", OF _ _ _ TrueI refl refl, of False 1]
    by (auto simp: ref_env_def list_iface_def ref_stack_def)
qed

text \<open>
  A prefix longer than the address makes the handler panic: the command takes the whole
  stack task down.
\<close>

lemma add_ip_long_prefix_panics:
  assumes "iface_refines (E_ifc E) allowed" and "addr_bits (ip_addr_to_smoltcp ip) < unat p"
  shows "handle_command E cfg (AddIp ip p r) s = None"
  using iface_cidr [OF assms(1)] assms(2) by (simp add: handle_add_ip_def)

lemma add_ip_long_prefix_panics_witness:
  "handle_command ref_env cfg0 (AddIp (V4 5) 33 1) ref_stack = None"
  using add_ip_long_prefix_panics [of ref_env "\<lambda>a. True" "V4 5" 33 cfg0 1 ref_stack]
  by (simp add: ref_env_def list_iface_refines)

text \<open>
  C39: Removing an address and then asking for the list gives the earlier list without any entry for
  that address, whatever its prefix, and with everything else in its order.
\<close>

theorem remove_then_get_ips:
  assumes "iface_refines (E_ifc E) allowed" and "\<forall>a \<in> set (ip_addrs (E_ifc E) (iface s)). allowed (cidr_address a)"
  shows "\<exists>s' s''. handle_remove_ip E ip r s = Some s' \<and> handle_get_ips E r' s' = Some s'' \<and>
     events s'' = events s @ [Reply r RUnit, Reply r' (RIps
       (filter (\<lambda>(a, p). a \<noteq> ip)
         (map (\<lambda>c. (smoltcp_to_ip_addr (cidr_address c), cidr_prefix_len c)) (ip_addrs (E_ifc E) (iface s)))))]"
proof -
  let ?as = "ip_addrs (E_ifc E) (iface s)"
  let ?keep = "filter (\<lambda>a. cidr_address a \<noteq> ip_addr_to_smoltcp ip) ?as"
  have "\<forall>a \<in> set ?keep. allowed (cidr_address a)" using assms(2) by simp
  from iface_set_addrs [OF assms(1) this] obtain ifc' where
    i: "set_ip_addrs (E_ifc E) (iface s) ?keep = Some ifc'" "ip_addrs (E_ifc E) ifc' = ?keep" by blast
  have eq: "smoltcp_to_ip_addr a = ip \<longleftrightarrow> a = ip_addr_to_smoltcp ip" for a
    by (cases a; cases ip) auto
  have "map (\<lambda>c. (smoltcp_to_ip_addr (cidr_address c), cidr_prefix_len c)) ?keep =
      filter (\<lambda>(a, p). a \<noteq> ip) (map (\<lambda>c. (smoltcp_to_ip_addr (cidr_address c), cidr_prefix_len c)) ?as)"
    by (simp add: filter_map o_def eq)
  with i show ?thesis by (simp add: handle_remove_ip_def handle_get_ips_def Let_def)
qed

theorem remove_then_get_ips_witness:
  "\<exists>s' s''. handle_remove_ip ref_env (V4 4) 1 (ref_stack\<lparr>iface := [IpCidr (Ipv4 4) 24, IpCidr (Ipv4 5) 24]\<rparr>) = Some s' \<and>
     handle_get_ips ref_env 2 s' = Some s'' \<and> events s'' = [Reply 1 RUnit, Reply 2 (RIps [(V4 5, 24)])]"
  using remove_then_get_ips [of ref_env "\<lambda>a. True" "ref_stack\<lparr>iface := [IpCidr (Ipv4 4) 24, IpCidr (Ipv4 5) 24]\<rparr>" "V4 4" 1 2]
  by (simp add: ref_env_def list_iface_refines) (simp add: list_iface_def ref_stack_def)

section \<open>Ephemeral ports\<close>

definition nth_port :: "nat \<Rightarrow> ('ifc, 'set, 'c, 'd) stack \<Rightarrow> u16" where
  "nth_port k s = fst (allocate_ephemeral_port (((snd \<circ> allocate_ephemeral_port) ^^ k) s))"

lemma nth_port: "nth_port k s = ephemeral_port s + of_nat k"
proof -
  have "ephemeral_port (((snd \<circ> allocate_ephemeral_port) ^^ k) s) = ephemeral_port s + of_nat k"
    by (induction k) (simp_all add: allocate_ephemeral_port_def algebra_simps)
  then show ?thesis by (simp add: nth_port_def allocate_ephemeral_port_def)
qed

text \<open>
  C40: From its start value the counter gives the ports 49152 to 65535 in order, each once;
  the allocation after these 16384 gives port 0, and the next ones the ports below the
  ephemeral range.
\<close>

theorem ephemeral_ports_leave_range:
  assumes "ephemeral_port s = EPHEMERAL_PORT_START"
  shows "(k < 16384 \<longrightarrow> unat (nth_port k s) = 49152 + k) \<and>
     (16384 \<le> k \<and> k < 65536 \<longrightarrow> unat (nth_port k s) = k - 16384)"
proof -
  have u: "unat (nth_port k s) = (49152 + k) mod 65536"
    using assms by (simp add: nth_port EPHEMERAL_PORT_START_def unat_word_ariths unat_of_nat)
       (simp add: mod_simps)
  show ?thesis by (auto simp: u mod_if)
qed

theorem ephemeral_ports_leave_range_witness:
  "unat (nth_port 0 ref_stack) = 49152 \<and> unat (nth_port 16384 ref_stack) = 0"
  using ephemeral_ports_leave_range [of ref_stack 0] ephemeral_ports_leave_range [of ref_stack 16384]
  by (simp add: ref_stack_def)

end
