(* ===== verification/Reader.thy ===== *)
theory Reader
  imports Prelude
begin

text \<open>
  The interface of a byte stream that is read in pieces: a read of at most \<open>m\<close> bytes takes
  a prefix of what is buffered, and waits only when nothing is. A polled operation is
  \<open>Ready\<close> with its result or \<open>Pending\<close>.
\<close>

datatype 'a poll = Ready 'a | Pending

text \<open>Reads with buffers of the given sizes; a read that waits leaves the state as it is.\<close>

fun run_reads :: "('s \<Rightarrow> nat \<Rightarrow> bytes poll \<times> 's) \<Rightarrow> nat list \<Rightarrow> 's \<Rightarrow> bytes list \<times> 's" where
  "run_reads rd [] s = ([], s)"
| "run_reads rd (m # ms) s =
     (case rd s m of
        (Ready bs, s') \<Rightarrow> (case run_reads rd ms s' of (bss, s'') \<Rightarrow> (bs # bss, s''))
      | (Pending, s') \<Rightarrow> run_reads rd ms s')"

locale ordered_reader =
  fixes rd :: "'s \<Rightarrow> nat \<Rightarrow> bytes poll \<times> 's"
    and ok :: "'s \<Rightarrow> bool"
    and buffered :: "'s \<Rightarrow> bytes"
  assumes read_ready: "ok s \<Longrightarrow> rd s m = (Ready bs, s') \<Longrightarrow>
      ok s' \<and> buffered s = bs @ buffered s' \<and> length bs \<le> m"
    and read_pending: "ok s \<Longrightarrow> rd s m = (Pending, s') \<Longrightarrow> ok s' \<and> buffered s = [] \<and> buffered s' = []"
begin

lemma reads_in_order:
  assumes "ok s" and "run_reads rd ms s = (bss, s')"
  shows "buffered s = concat bss @ buffered s' \<and> ok s'"
  using assms
proof (induction ms arbitrary: s bss s')
  case Nil
  then show ?case by simp
next
  case (Cons m ms)
  obtain x s1 where r: "rd s m = (x, s1)" by fastforce
  show ?case
  proof (cases x)
    case (Ready bs)
    obtain bss1 s2 where r1: "run_reads rd ms s1 = (bss1, s2)" by fastforce
    with Ready r Cons.prems have "bss = bs # bss1" "s' = s2" by auto
    with Cons.IH [OF _ r1] read_ready [OF Cons.prems(1)] r Ready show ?thesis by auto
  next
    case Pending
    with r Cons.prems have "run_reads rd ms s1 = (bss, s')" by simp
    with Cons.IH [OF _ this] read_pending [OF Cons.prems(1)] r Pending show ?thesis by auto
  qed
qed

end

end
