(* ===== verification/Socket.thy ===== *)
theory Socket
  imports Stack_Data Reader
begin

text \<open>
  The application's sockets, \<^verbatim>\<open>src/socket/mod.rs\<close>: streams, their split halves, UDP sockets
  and listeners over the channels the stack task made for them. An \<^verbatim>\<open>async fn\<close> is what one
  poll of it does; \<open>Pending\<close> is a poll that has to be repeated. The command channel to the
  stack task is a channel of its own, with operations \<open>Q\<close>.
\<close>

section \<open>Waiting on a channel\<close>

text \<open>\<^verbatim>\<open>Receiver::recv\<close> and \<^verbatim>\<open>poll_recv\<close>, and \<^verbatim>\<open>Sender::send\<close>, polled once.\<close>

definition poll_recv :: "('c, 'a) mpsc \<Rightarrow> 'c \<Rightarrow> 'a option poll \<times> 'c" where
  "poll_recv C c =
     (case try_recv C c of
        (RecvOk x, c') \<Rightarrow> (Ready (Some x), c')
      | (RecvEmpty, c') \<Rightarrow> (Pending, c')
      | (RecvDisconnected, c') \<Rightarrow> (Ready None, c'))"

definition poll_send :: "('c, 'a) mpsc \<Rightarrow> 'c \<Rightarrow> 'a \<Rightarrow> bool poll \<times> 'c" where
  "poll_send C c a =
     (case try_send C c a of
        (SendOk, c') \<Rightarrow> (Ready True, c')
      | (SendFull, c') \<Rightarrow> (Pending, c')
      | (SendClosed, c') \<Rightarrow> (Ready False, c'))"

definition broken_pipe :: "string \<Rightarrow> io_error" where
  "broken_pipe m = IoError BrokenPipe m"

section \<open>TcpStream\<close>

record tcp_stream =
  st_handle :: handle
  st_local_addr :: socket_addr
  st_peer_addr :: socket_addr
  st_write_tx :: chan_id
  st_read_rx :: chan_id
  st_read_buf :: bytes

definition tcp_stream_from_channels ::
    "handle \<Rightarrow> socket_addr \<Rightarrow> socket_addr \<Rightarrow> tcp_channels \<Rightarrow> tcp_stream" where
  "tcp_stream_from_channels h local peer channels =
     \<lparr>st_handle = h, st_local_addr = local, st_peer_addr = peer,
      st_write_tx = tc_write_tx channels, st_read_rx = tc_read_rx channels, st_read_buf = []\<rparr>"

text \<open>
  The body the four readers share: the internal buffer first, then the channel. The state
  is the internal buffer and the channel; the bytes are what was copied into a buffer of
  \<open>m\<close> bytes.
\<close>

definition read_buffered :: "('c, bytes) mpsc \<Rightarrow> bytes \<times> 'c \<Rightarrow> nat \<Rightarrow> bytes poll \<times> bytes \<times> 'c" where
  "read_buffered C s m =
     (case s of (read_buf, c) \<Rightarrow>
        if read_buf \<noteq> [] then
          (let len = min (length read_buf) m
           in (Ready (take len read_buf), drop len read_buf, c))
        else
          (case poll_recv C c of
             (Ready (Some data), c') \<Rightarrow>
               (let len = min (length data) m
                in (Ready (take len data),
                    if len < length data then read_buf @ drop len data else read_buf, c'))
           | (Ready None, c') \<Rightarrow> (Ready [], read_buf, c')
           | (Pending, c') \<Rightarrow> (Pending, read_buf, c')))"

definition tcp_stream_read ::
    "('c, bytes) mpsc \<Rightarrow> tcp_stream \<times> 'c \<Rightarrow> nat \<Rightarrow> bytes poll \<times> tcp_stream \<times> 'c" where
  "tcp_stream_read C sc m =
     (case sc of (s, c) \<Rightarrow>
        (case read_buffered C (st_read_buf s, c) m of
           (r, rb, c') \<Rightarrow> (r, s\<lparr>st_read_buf := rb\<rparr>, c')))"

definition tcp_stream_poll_read ::
    "('c, bytes) mpsc \<Rightarrow> tcp_stream \<times> 'c \<Rightarrow> nat \<Rightarrow> bytes poll \<times> tcp_stream \<times> 'c" where
  "tcp_stream_poll_read C sc m =
     (case sc of (s, c) \<Rightarrow>
        (case read_buffered C (st_read_buf s, c) m of
           (r, rb, c') \<Rightarrow> (r, s\<lparr>st_read_buf := rb\<rparr>, c')))"

text \<open>
  Writing puts the whole buffer into the channel as one chunk and wakes the stack task;
  the boolean of the result is whether it was woken.
\<close>

definition write_chunk :: "('c, bytes) mpsc \<Rightarrow> 'c \<Rightarrow> bytes \<Rightarrow> nat io_result poll \<times> bool \<times> 'c" where
  "write_chunk C c buf =
     (case poll_send C c buf of
        (Ready True, c') \<Rightarrow> (Ready (Inr (length buf)), True, c')
      | (Ready False, c') \<Rightarrow> (Ready (Inl (broken_pipe ''stack task gone'')), False, c')
      | (Pending, c') \<Rightarrow> (Pending, False, c'))"

definition try_write_chunk :: "('c, bytes) mpsc \<Rightarrow> 'c \<Rightarrow> bytes \<Rightarrow> nat io_result poll \<times> bool \<times> 'c" where
  "try_write_chunk C c buf =
     (case try_send C c buf of
        (SendOk, c') \<Rightarrow> (Ready (Inr (length buf)), True, c')
      | (SendFull, c') \<Rightarrow> (Ready (Inl (IoError WouldBlock ''channel full'')), False, c')
      | (SendClosed, c') \<Rightarrow> (Ready (Inl (broken_pipe ''stack task gone'')), False, c'))"

definition tcp_stream_write ::
    "('c, bytes) mpsc \<Rightarrow> tcp_stream \<Rightarrow> 'c \<Rightarrow> bytes \<Rightarrow> nat io_result poll \<times> bool \<times> 'c" where
  "tcp_stream_write C s c buf = write_chunk C c buf"

definition tcp_stream_write_all ::
    "('c, bytes) mpsc \<Rightarrow> tcp_stream \<Rightarrow> 'c \<Rightarrow> bytes \<Rightarrow> unit io_result poll \<times> bool \<times> 'c" where
  "tcp_stream_write_all C s c buf =
     (case tcp_stream_write C s c buf of
        (Ready (Inl e), n, c') \<Rightarrow> (Ready (Inl e), n, c')
      | (Ready (Inr _), n, c') \<Rightarrow> (Ready (Inr ()), n, c')
      | (Pending, n, c') \<Rightarrow> (Pending, n, c'))"

definition tcp_stream_poll_write ::
    "('c, bytes) mpsc \<Rightarrow> tcp_stream \<Rightarrow> 'c \<Rightarrow> bytes \<Rightarrow> nat io_result poll \<times> bool \<times> 'c" where
  "tcp_stream_poll_write C s c buf = try_write_chunk C c buf"

text \<open>Closing sends the command if the command channel has room, and is silent otherwise.\<close>

definition send_close :: "('q, stack_command) mpsc \<Rightarrow> stack_command \<Rightarrow> 'q \<Rightarrow> 'q" where
  "send_close Q cmd q = snd (try_send Q q cmd)"

definition tcp_stream_close :: "('q, stack_command) mpsc \<Rightarrow> tcp_stream \<Rightarrow> 'q \<Rightarrow> 'q" where
  "tcp_stream_close Q s q = send_close Q (TcpClose (st_handle s)) q"

text \<open>The drop of a stream: its \<^verbatim>\<open>close\<close>, then its fields.\<close>

definition tcp_stream_drop ::
    "('q, stack_command) mpsc \<Rightarrow> ('c, bytes) mpsc \<Rightarrow> tcp_stream \<Rightarrow> 'q \<Rightarrow> (chan_id \<Rightarrow> 'c) \<Rightarrow>
     'q \<times> (chan_id \<Rightarrow> 'c)" where
  "tcp_stream_drop Q C s q ch =
     (tcp_stream_close Q s q,
      drop_tcp_channels C \<lparr>tc_write_tx = st_write_tx s, tc_read_rx = st_read_rx s\<rparr> ch)"

definition tcp_stream_poll_flush :: "tcp_stream \<Rightarrow> unit io_result poll" where
  "tcp_stream_poll_flush s = Ready (Inr ())"

definition tcp_stream_poll_shutdown ::
    "('q, stack_command) mpsc \<Rightarrow> tcp_stream \<Rightarrow> 'q \<Rightarrow> unit io_result poll \<times> 'q" where
  "tcp_stream_poll_shutdown Q s q = (Ready (Inr ()), tcp_stream_close Q s q)"

section \<open>Split halves\<close>

record tcp_stream_inner =
  in_handle :: handle
  in_local_addr :: socket_addr
  in_peer_addr :: socket_addr

record owned_read_half =
  rh_inner :: tcp_stream_inner
  rh_read_rx :: chan_id
  rh_read_buf :: bytes

record owned_write_half =
  wh_inner :: tcp_stream_inner
  wh_write_tx :: chan_id

definition into_split :: "tcp_stream \<Rightarrow> owned_read_half \<times> owned_write_half" where
  "into_split s =
     (let inner = \<lparr>in_handle = st_handle s, in_local_addr = st_local_addr s, in_peer_addr = st_peer_addr s\<rparr>
      in (\<lparr>rh_inner = inner, rh_read_rx = st_read_rx s, rh_read_buf = st_read_buf s\<rparr>,
          \<lparr>wh_inner = inner, wh_write_tx = st_write_tx s\<rparr>))"

definition tcp_inner_close :: "('q, stack_command) mpsc \<Rightarrow> tcp_stream_inner \<Rightarrow> 'q \<Rightarrow> 'q" where
  "tcp_inner_close Q i q = send_close Q (TcpClose (in_handle i)) q"

definition read_half_read ::
    "('c, bytes) mpsc \<Rightarrow> owned_read_half \<times> 'c \<Rightarrow> nat \<Rightarrow> bytes poll \<times> owned_read_half \<times> 'c" where
  "read_half_read C hc m =
     (case hc of (h, c) \<Rightarrow>
        (case read_buffered C (rh_read_buf h, c) m of
           (r, rb, c') \<Rightarrow> (r, h\<lparr>rh_read_buf := rb\<rparr>, c')))"

definition read_half_poll_read ::
    "('c, bytes) mpsc \<Rightarrow> owned_read_half \<times> 'c \<Rightarrow> nat \<Rightarrow> bytes poll \<times> owned_read_half \<times> 'c" where
  "read_half_poll_read C hc m =
     (case hc of (h, c) \<Rightarrow>
        (case read_buffered C (rh_read_buf h, c) m of
           (r, rb, c') \<Rightarrow> (r, h\<lparr>rh_read_buf := rb\<rparr>, c')))"

definition write_half_write ::
    "('c, bytes) mpsc \<Rightarrow> owned_write_half \<Rightarrow> 'c \<Rightarrow> bytes \<Rightarrow> nat io_result poll \<times> bool \<times> 'c" where
  "write_half_write C w c buf = write_chunk C c buf"

definition write_half_poll_write ::
    "('c, bytes) mpsc \<Rightarrow> owned_write_half \<Rightarrow> 'c \<Rightarrow> bytes \<Rightarrow> nat io_result poll \<times> bool \<times> 'c" where
  "write_half_poll_write C w c buf = try_write_chunk C c buf"

definition write_half_poll_flush :: "owned_write_half \<Rightarrow> unit io_result poll" where
  "write_half_poll_flush w = Ready (Inr ())"

definition write_half_poll_shutdown ::
    "('q, stack_command) mpsc \<Rightarrow> owned_write_half \<Rightarrow> 'q \<Rightarrow> unit io_result poll \<times> 'q" where
  "write_half_poll_shutdown Q w q = (Ready (Inr ()), tcp_inner_close Q (wh_inner w) q)"

text \<open>
  \<^verbatim>\<open>OwnedWriteHalf::write_all\<close>: the loop with \<open>written\<close> bytes behind it. \<open>None\<close> is a loop
  that does not end; a poll that waits returns with the position to go on from.
\<close>

partial_function (option) write_half_write_all ::
    "('c, bytes) mpsc \<Rightarrow> owned_write_half \<Rightarrow> 'c \<Rightarrow> bytes \<Rightarrow> nat \<Rightarrow>
     (unit io_result poll \<times> nat \<times> 'c) option" where
  "write_half_write_all C w c buf written =
     (if written < length buf then
        (case write_half_write C w c (drop written buf) of
           (Ready (Inl e), n, c') \<Rightarrow> Some (Ready (Inl e), written, c')
         | (Ready (Inr k), n, c') \<Rightarrow>
             if k = 0 then Some (Ready (Inl (IoError WriteZero ''failed to write whole buffer'')), written, c')
             else write_half_write_all C w c' buf (written + k)
         | (Pending, n, c') \<Rightarrow> Some (Pending, written, c'))
      else Some (Ready (Inr ()), written, c))"

text \<open>
  The two halves may be dropped by different threads at once. The drop of a half looks at
  the reference count, closes the socket if it is the last one, and only then gives up its
  reference; a step of \<open>split_step\<close> is one of these two actions of one half.
\<close>

datatype half_phase = Held | Checked | Released

record 'q split_state =
  sp_count :: nat
  sp_read :: half_phase
  sp_write :: half_phase
  sp_commands :: 'q

definition split_init :: "'q \<Rightarrow> 'q split_state" where
  "split_init q = \<lparr>sp_count = 2, sp_read = Held, sp_write = Held, sp_commands = q\<rparr>"

definition half_drop ::
    "('q, stack_command) mpsc \<Rightarrow> tcp_stream_inner \<Rightarrow> 'q split_state \<Rightarrow> 'q split_state" where
  "half_drop Q inner st =
     (if sp_count st = 1 then st\<lparr>sp_commands := tcp_inner_close Q inner (sp_commands st)\<rparr> else st)"

inductive split_step ::
    "('q, stack_command) mpsc \<Rightarrow> tcp_stream_inner \<Rightarrow> 'q split_state \<Rightarrow> 'q split_state \<Rightarrow> bool"
  for Q inner where
  read_drop: "sp_read st = Held \<Longrightarrow> split_step Q inner st ((half_drop Q inner st)\<lparr>sp_read := Checked\<rparr>)"
| read_release: "sp_read st = Checked \<Longrightarrow>
    split_step Q inner st (st\<lparr>sp_read := Released, sp_count := sp_count st - 1\<rparr>)"
| write_drop: "sp_write st = Held \<Longrightarrow> split_step Q inner st ((half_drop Q inner st)\<lparr>sp_write := Checked\<rparr>)"
| write_release: "sp_write st = Checked \<Longrightarrow>
    split_step Q inner st (st\<lparr>sp_write := Released, sp_count := sp_count st - 1\<rparr>)"

section \<open>UdpSocket\<close>

record udp_socket =
  ud_handle :: handle
  ud_local_addr :: socket_addr
  ud_write_tx :: chan_id
  ud_read_rx :: chan_id

definition udp_socket_from_channels :: "handle \<Rightarrow> socket_addr \<Rightarrow> udp_channels \<Rightarrow> udp_socket" where
  "udp_socket_from_channels h local channels =
     \<lparr>ud_handle = h, ud_local_addr = local, ud_write_tx = uc_write_tx channels,
      ud_read_rx = uc_read_rx channels\<rparr>"

definition udp_send_to ::
    "('d, bytes \<times> socket_addr) mpsc \<Rightarrow> udp_socket \<Rightarrow> 'd \<Rightarrow> bytes \<Rightarrow> socket_addr \<Rightarrow>
     nat io_result poll \<times> bool \<times> 'd" where
  "udp_send_to C s c buf addr =
     (case poll_send C c (buf, addr) of
        (Ready True, c') \<Rightarrow> (Ready (Inr (length buf)), True, c')
      | (Ready False, c') \<Rightarrow> (Ready (Inl (broken_pipe ''stack task gone'')), False, c')
      | (Pending, c') \<Rightarrow> (Pending, False, c'))"

definition udp_recv_from ::
    "('d, bytes \<times> socket_addr) mpsc \<Rightarrow> udp_socket \<Rightarrow> 'd \<Rightarrow> nat \<Rightarrow>
     (bytes \<times> socket_addr) io_result poll \<times> 'd" where
  "udp_recv_from C s c m =
     (case poll_recv C c of
        (Ready (Some (data, addr)), c') \<Rightarrow>
          (let len = min (length data) m in (Ready (Inr (take len data, addr)), c'))
      | (Ready None, c') \<Rightarrow> (Ready (Inl (broken_pipe ''socket closed'')), c')
      | (Pending, c') \<Rightarrow> (Pending, c'))"

definition udp_socket_close :: "('q, stack_command) mpsc \<Rightarrow> udp_socket \<Rightarrow> 'q \<Rightarrow> 'q" where
  "udp_socket_close Q s q = send_close Q (UdpClose (ud_handle s)) q"

section \<open>TcpListener\<close>

record tcp_listener =
  li_handle :: handle
  li_local_addr :: socket_addr

definition tcp_listener_from_handle :: "handle \<Rightarrow> socket_addr \<Rightarrow> tcp_listener" where
  "tcp_listener_from_handle h local = \<lparr>li_handle = h, li_local_addr = local\<rparr>"

text \<open>
  How a request to the stack task ends: the command could not be sent, the response sender
  was dropped, or an answer came. An answer of another type than the request's response
  channel carries does not exist in the source, and is \<open>None\<close> here.
\<close>

datatype call_result = SendFailed | ResponseDropped | Answered reply

definition call_failed :: io_error where
  "call_failed = broken_pipe ''stack task gone''"

fun connected :: "call_result \<Rightarrow> tcp_stream io_result option" where
  "connected SendFailed = Some (Inl call_failed)"
| "connected ResponseDropped = Some (Inl call_failed)"
| "connected (Answered (RErr e)) = Some (Inl e)"
| "connected (Answered (RConnected h l p ch)) = Some (Inr (tcp_stream_from_channels h l p ch))"
| "connected (Answered _) = None"

definition tcp_listener_accept ::
    "(stack_command \<Rightarrow> call_result) \<Rightarrow> tcp_listener \<Rightarrow> response \<Rightarrow>
     (tcp_stream \<times> socket_addr) io_result option" where
  "tcp_listener_accept call l r =
     map_option (\<lambda>x. case x of Inl e \<Rightarrow> Inl e | Inr s \<Rightarrow> Inr (s, st_peer_addr s))
       (connected (call (TcpAccept (li_handle l) r)))"

definition tcp_listener_close :: "('q, stack_command) mpsc \<Rightarrow> tcp_listener \<Rightarrow> 'q \<Rightarrow> 'q" where
  "tcp_listener_close Q l q = send_close Q (TcpListenerClose (li_handle l)) q"

section \<open>Channels, polled\<close>

lemma poll_recv_cases [consumes 1, case_names ready closed waiting]:
  assumes "mpsc_refines C view"
  obtains
    (ready) x c' xs where "poll_recv C c = (Ready (Some x), c')" "queue (view c) = x # xs"
      "view c' = (view c)\<lparr>queue := xs\<rparr>"
  | (closed) c' where "poll_recv C c = (Ready None, c')" "queue (view c) = []" "view c' = view c"
      "\<not> has_sender (view c)"
  | (waiting) c' where "poll_recv C c = (Pending, c')" "queue (view c) = []" "view c' = view c"
      "has_sender (view c)"
  using assms
proof (cases rule: try_recv_cases [where c = c])
  case (ok x c' xs)
  then show thesis using that(1) by (simp add: poll_recv_def)
next
  case (empty c')
  then show thesis using that(3) by (simp add: poll_recv_def)
next
  case (disconnected c')
  then show thesis using that(2) by (simp add: poll_recv_def)
qed

section \<open>Reading\<close>

text \<open>What a reader has still to deliver: its own buffer, then the chunks of the channel.\<close>

abbreviation unread :: "('c \<Rightarrow> bytes chan) \<Rightarrow> bytes \<times> 'c \<Rightarrow> bytes" where
  "unread view s \<equiv> fst s @ concat (queue (view (snd s)))"

lemma read_buffered_ready:
  assumes "mpsc_refines C view" and "read_buffered C s m = (Ready bs, s')"
  shows "unread view s = bs @ unread view s'" and "length bs \<le> m"
proof -
  obtain rb c where s: "s = (rb, c)" by (cases s)
  have "unread view s = bs @ unread view s' \<and> length bs \<le> m"
  proof (cases "rb = []")
    case False
    with assms(2) s show ?thesis by (auto simp: read_buffered_def Let_def)
  next
    case True
    with assms(1) show ?thesis
    proof (cases rule: poll_recv_cases [where c = c])
      case (ready x c' xs)
      with assms(2) s True show ?thesis by (auto simp: read_buffered_def Let_def)
    next
      case (closed c')
      with assms(2) s True show ?thesis by (auto simp: read_buffered_def Let_def)
    next
      case (waiting c')
      with assms(2) s True show ?thesis by (auto simp: read_buffered_def Let_def)
    qed
  qed
  then show "unread view s = bs @ unread view s'" and "length bs \<le> m" by simp_all
qed

lemma read_buffered_pending:
  assumes "mpsc_refines C view" and "read_buffered C s m = (Pending, s')"
  shows "unread view s = []" and "unread view s' = []"
proof -
  obtain rb c where s: "s = (rb, c)" by (cases s)
  with assms(2) have rb: "rb = []" by (auto simp: read_buffered_def Let_def split: if_splits)
  from assms(1) have "unread view s = [] \<and> unread view s' = []"
  proof (cases rule: poll_recv_cases [where c = c])
    case (ready x c' xs)
    with assms(2) s rb show ?thesis by (auto simp: read_buffered_def Let_def)
  next
    case (closed c')
    with assms(2) s rb show ?thesis by (auto simp: read_buffered_def Let_def)
  next
    case (waiting c')
    with assms(2) s rb show ?thesis by (auto simp: read_buffered_def Let_def)
  qed
  then show "unread view s = []" and "unread view s' = []" by simp_all
qed

lemma read_buffered_eof:
  assumes "mpsc_refines C view" and "0 < m" and "[] \<notin> set (queue (view c))"
  shows "fst (read_buffered C (rb, c) m) = Ready [] \<longleftrightarrow>
    rb = [] \<and> queue (view c) = [] \<and> \<not> has_sender (view c)"
proof (cases "rb = []")
  case False
  with assms(2) show ?thesis by (auto simp: read_buffered_def Let_def)
next
  case True
  from assms(1) show ?thesis
  proof (cases rule: poll_recv_cases [where c = c])
    case (ready x c' xs)
    with assms(2,3) True show ?thesis by (auto simp: read_buffered_def Let_def)
  next
    case (closed c')
    with True show ?thesis by (auto simp: read_buffered_def Let_def)
  next
    case (waiting c')
    with True show ?thesis by (auto simp: read_buffered_def Let_def)
  qed
qed

abbreviation stream_unread :: "('c \<Rightarrow> bytes chan) \<Rightarrow> tcp_stream \<times> 'c \<Rightarrow> bytes" where
  "stream_unread view sc \<equiv> unread view (st_read_buf (fst sc), snd sc)"

abbreviation half_unread :: "('c \<Rightarrow> bytes chan) \<Rightarrow> owned_read_half \<times> 'c \<Rightarrow> bytes" where
  "half_unread view hc \<equiv> unread view (rh_read_buf (fst hc), snd hc)"

text \<open>Every reader that goes through \<open>read_buffered\<close> is an ordered reader.\<close>

lemma ordered_reader_via:
  assumes via: "\<And>s m r s'. rd s m = (r, s') \<Longrightarrow> read_buffered C (f s) m = (r, f s')"
  shows "ordered_reader rd (\<lambda>s. mpsc_refines C view) (\<lambda>s. unread view (f s))"
proof (unfold_locales, goal_cases)
  case (1 s m bs s')
  show ?case using 1(1) read_buffered_ready [OF 1(1) via [OF 1(2)]] by (intro conjI)
next
  case (2 s m s')
  show ?case using 2(1) read_buffered_pending [OF 2(1) via [OF 2(2)]] by (intro conjI)
qed

interpretation stream_read:
  ordered_reader "tcp_stream_read C" "\<lambda>sc. mpsc_refines C view" "stream_unread view" for C view
  by (rule ordered_reader_via) (auto simp: tcp_stream_read_def split: prod.splits)

interpretation stream_poll_read:
  ordered_reader "tcp_stream_poll_read C" "\<lambda>sc. mpsc_refines C view" "stream_unread view" for C view
  by (rule ordered_reader_via) (auto simp: tcp_stream_poll_read_def split: prod.splits)

interpretation half_read:
  ordered_reader "read_half_read C" "\<lambda>hc. mpsc_refines C view" "half_unread view" for C view
  by (rule ordered_reader_via) (auto simp: read_half_read_def split: prod.splits)

interpretation half_poll_read:
  ordered_reader "read_half_poll_read C" "\<lambda>hc. mpsc_refines C view" "half_unread view" for C view
  by (rule ordered_reader_via) (auto simp: read_half_poll_read_def split: prod.splits)

text \<open>
  C16: A TCP stream is read in order and without loss or duplication, also across a split:
  whatever buffer sizes the application reads with, the bytes it gets from the stream,
  then from the read half it splits off, then what is still unread, are together exactly
  the bytes that were unread at the start.
\<close>

theorem tcp_reads_in_order:
  assumes "mpsc_refines C view"
    and "run_reads (tcp_stream_read C) ms (s, c) = (bss, s', c')"
    and "into_split s' = (r, w)"
    and "run_reads (read_half_poll_read C) ms' (r, c') = (bss', r', c'')"
  shows "st_read_buf s @ concat (queue (view c)) =
    concat bss @ concat bss' @ rh_read_buf r' @ concat (queue (view c''))"
  using stream_read.reads_in_order [OF assms(1,2)] half_poll_read.reads_in_order [OF assms(1,4)] assms(3)
  by (auto simp: into_split_def Let_def)

definition stream0 :: tcp_stream where
  "stream0 = \<lparr>st_handle = 0, st_local_addr = SockV4 1 1, st_peer_addr = SockV4 2 2,
     st_write_tx = 0, st_read_rx = 1, st_read_buf = [1]\<rparr>"

lemmas read_eval = tcp_stream_read_def read_half_poll_read_def read_buffered_def poll_recv_def
  chan_mpsc_def chan_try_recv_def chan_new_def into_split_def stream0_def

lemma stream0_reads:
  "run_reads (tcp_stream_read chan_mpsc) [2, 1] (stream0, (chan_new 8)\<lparr>queue := [[2, 3], [4]]\<rparr>) =
   ([[1], [2]], stream0\<lparr>st_read_buf := [3]\<rparr>, (chan_new 8)\<lparr>queue := [[4]]\<rparr>)"
  by (simp add: read_eval)

theorem tcp_reads_in_order_witness:
  "run_reads (read_half_poll_read chan_mpsc) [5]
     (fst (into_split (stream0\<lparr>st_read_buf := [3]\<rparr>)), (chan_new 8)\<lparr>queue := [[4]]\<rparr>) =
   ([[3]], (fst (into_split stream0))\<lparr>rh_read_buf := []\<rparr>, (chan_new 8)\<lparr>queue := [[4]]\<rparr>) \<and>
   st_read_buf stream0 @ concat [[2, 3], [4]] = concat [[1], [2]] @ concat [[3]] @ [] @ concat [[4]]"
proof -
  have r: "run_reads (read_half_poll_read chan_mpsc) [5]
     (fst (into_split (stream0\<lparr>st_read_buf := [3]\<rparr>)), (chan_new 8)\<lparr>queue := [[4]]\<rparr>) =
   ([[3]], (fst (into_split stream0))\<lparr>rh_read_buf := []\<rparr>, (chan_new 8)\<lparr>queue := [[4]]\<rparr>)"
    by (simp add: read_eval Let_def)
  from tcp_reads_in_order [OF chan_mpsc_refines stream0_reads prod.collapse [symmetric] r] r
  show ?thesis by simp
qed



section \<open>Writing\<close>

lemma poll_send_cases [consumes 1, case_names sent closed waiting]:
  assumes "mpsc_refines C view"
  obtains
    (sent) c' where "poll_send C c a = (Ready True, c')" "view c' = (view c)\<lparr>queue := queue (view c) @ [a]\<rparr>"
      "has_receiver (view c)" "length (queue (view c)) < capacity (view c)"
  | (closed) c' where "poll_send C c a = (Ready False, c')" "view c' = view c" "\<not> has_receiver (view c)"
  | (waiting) c' where "poll_send C c a = (Pending, c')" "view c' = view c" "has_receiver (view c)"
      "capacity (view c) \<le> length (queue (view c))"
proof -
  obtain r c' where r: "try_send C c a = (r, c')" by (cases "try_send C c a")
  then have "(r, view c') = chan_try_send (view c) a"
    using mpsc_try_send [OF assms, of c a] by simp
  with r show thesis
    by (auto simp: chan_try_send_def poll_send_def split: if_splits intro: that)
qed

text \<open>
  \<^verbatim>\<open>OwnedWriteHalf::write_all\<close> returns from its loop after every poll. It queues the
  whole buffer as one chunk, or nothing when the buffer is empty, and then reports success;
  it waits, or fails with a broken pipe, without having queued anything.
\<close>

lemma write_half_write_all_returns:
  assumes "mpsc_refines C view"
  shows "\<exists>r n c'. write_half_write_all C w c buf 0 = Some (r, n, c') \<and>
    (r = Ready (Inr ()) \<and> queue (view c') = queue (view c) @ (if buf = [] then [] else [buf]) \<and> n = length buf
     \<or> r = Ready (Inl (broken_pipe ''stack task gone'')) \<and> view c' = view c \<and> buf \<noteq> [] \<and> \<not> has_receiver (view c)
     \<or> r = Pending \<and> view c' = view c \<and> n = 0 \<and> buf \<noteq> [] \<and> capacity (view c) \<le> length (queue (view c)))"
proof (cases "buf = []")
  case True
  then show ?thesis by (simp add: write_half_write_all.simps)
next
  case False
  note unfold = write_half_write_all.simps [of C w c buf 0]
  from assms show ?thesis
  proof (cases rule: poll_send_cases [where c = c and a = buf])
    case (sent c')
    have "write_half_write_all C w c' buf (length buf) = Some (Ready (Inr ()), length buf, c')"
      by (simp add: write_half_write_all.simps)
    with sent False show ?thesis
      by (simp add: unfold write_half_write_def write_chunk_def)
  next
    case (closed c')
    with False show ?thesis by (simp add: unfold write_half_write_def write_chunk_def)
  next
    case (waiting c')
    with False show ?thesis by (simp add: unfold write_half_write_def write_chunk_def)
  qed
qed

lemma write_half_write_all_returns_witness:
  "\<exists>n c'. write_half_write_all chan_mpsc (snd (into_split stream0)) (chan_new 8) [1, 2] 0 =
     Some (Ready (Inr ()), n, c') \<and> queue c' = [[1, 2]]"
  using write_half_write_all_returns [OF chan_mpsc_refines, of "snd (into_split stream0)" "chan_new 8" "[1, 2]"]
  by (auto simp: chan_new_def)

text \<open>
  The \<^verbatim>\<open>AsyncWrite\<close> of a stream never waits: with the channel full it fails with
  \<open>WouldBlock\<close> and queues nothing, where \<^verbatim>\<open>write\<close> on the same stream waits; otherwise the
  two do the same.
\<close>

lemma poll_write_never_waits:
  assumes "mpsc_refines C view"
  shows "if has_receiver (view c) \<and> capacity (view c) \<le> length (queue (view c))
    then fst (tcp_stream_poll_write C s c buf) = Ready (Inl (IoError WouldBlock ''channel full'')) \<and>
      view (snd (snd (tcp_stream_poll_write C s c buf))) = view c \<and>
      fst (tcp_stream_write C s c buf) = Pending
    else tcp_stream_poll_write C s c buf = tcp_stream_write C s c buf \<and>
      fst (tcp_stream_write C s c buf) \<noteq> Pending"
proof -
  obtain r c' where r: "try_send C c buf = (r, c')" by (cases "try_send C c buf")
  then have "(r, view c') = chan_try_send (view c) buf"
    using mpsc_try_send [OF assms, of c buf] by simp
  with r show ?thesis
    by (auto simp: tcp_stream_poll_write_def tcp_stream_write_def try_write_chunk_def write_chunk_def
        poll_send_def chan_try_send_def split: if_splits)
qed

lemma poll_write_never_waits_witness:
  "fst (tcp_stream_poll_write chan_mpsc stream0 (chan_new 0) [1]) = Ready (Inl (IoError WouldBlock ''channel full''))"
  using poll_write_never_waits [OF chan_mpsc_refines, of "chan_new 0" stream0 "[1]"]
  by (simp add: chan_new_def)

section \<open>Dropping the halves\<close>

text \<open>
  What holds of the halves while they are dropped: the count is the number of references
  still held; no close was sent while both were; and at most one half saw itself alone.
\<close>

definition split_inv ::
    "('q, stack_command) mpsc \<Rightarrow> tcp_stream_inner \<Rightarrow> 'q \<Rightarrow> 'q split_state \<Rightarrow> bool" where
  "split_inv Q inner q st \<longleftrightarrow>
     sp_count st = (if sp_read st = Released then 0 else 1) + (if sp_write st = Released then 0 else 1) \<and>
     (sp_commands st = q \<or>
      sp_commands st = tcp_inner_close Q inner q \<and> sp_read st \<noteq> Held \<and> sp_write st \<noteq> Held)"

lemma split_step_inv:
  "split_step Q inner st st' \<Longrightarrow> split_inv Q inner q st \<Longrightarrow> split_inv Q inner q st'"
  by (induction rule: split_step.induct)
     (auto simp: split_inv_def half_drop_def split: if_splits)

lemma split_steps_inv:
  "(split_step Q inner)\<^sup>*\<^sup>* st st' \<Longrightarrow> split_inv Q inner q st \<Longrightarrow> split_inv Q inner q st'"
  by (induction rule: rtranclp_induct) (auto dest: split_step_inv)

text \<open>
  C18: However the two halves of a split stream are dropped, the socket is closed at most
  once, and not before both drops have begun.
\<close>

theorem split_drop_closes_once:
  assumes "(split_step Q inner)\<^sup>*\<^sup>* (split_init q) st"
  shows "sp_commands st = q \<or>
    sp_commands st = tcp_inner_close Q inner q \<and> sp_read st \<noteq> Held \<and> sp_write st \<noteq> Held"
  using split_steps_inv [OF assms, of q] by (simp add: split_inv_def split_init_def)

lemma four_steps: "R a b \<Longrightarrow> R b c \<Longrightarrow> R c d \<Longrightarrow> R d e \<Longrightarrow> R\<^sup>*\<^sup>* a e"
  by (blast intro: converse_rtranclp_into_rtranclp)

text \<open>The steps of dropping one half after the other, and of dropping them together.\<close>

lemma drop_one_after_the_other:
  "(split_step Q inner)\<^sup>*\<^sup>* (split_init q)
     \<lparr>sp_count = 0, sp_read = Released, sp_write = Released, sp_commands = tcp_inner_close Q inner q\<rparr>"
proof -
  let ?st = "\<lambda>n r w c. \<lparr>sp_count = n, sp_read = r, sp_write = w, sp_commands = c\<rparr>"
  have "split_step Q inner (split_init q) (?st 2 Checked Held q)"
    using read_drop [of "split_init q" Q inner] by (simp add: split_init_def half_drop_def)
  moreover have "split_step Q inner (?st 2 Checked Held q) (?st 1 Released Held q)"
    using read_release [of "?st 2 Checked Held q" Q inner] by simp
  moreover have "split_step Q inner (?st 1 Released Held q) (?st 1 Released Checked (tcp_inner_close Q inner q))"
    using write_drop [of "?st 1 Released Held q" Q inner] by (simp add: half_drop_def)
  moreover have "split_step Q inner (?st 1 Released Checked (tcp_inner_close Q inner q))
      (?st 0 Released Released (tcp_inner_close Q inner q))"
    using write_release [of "?st 1 Released Checked (tcp_inner_close Q inner q)" Q inner] by simp
  ultimately show ?thesis by (rule four_steps)
qed

theorem split_drop_closes_once_witness:
  "sp_commands \<lparr>sp_count = 0, sp_read = Released, sp_write = Released,
     sp_commands = tcp_inner_close chan_mpsc (rh_inner (fst (into_split stream0))) (chan_new 1)\<rparr> \<noteq> chan_new 1 \<and>
   sp_read \<lparr>sp_count = 0, sp_read = Released, sp_write = Released,
     sp_commands = tcp_inner_close chan_mpsc (rh_inner (fst (into_split stream0))) (chan_new 1)\<rparr> \<noteq> Held"
  using split_drop_closes_once [OF drop_one_after_the_other
      [of chan_mpsc "rh_inner (fst (into_split stream0))" "chan_new 1"]]
  by (simp add: tcp_inner_close_def send_close_def chan_mpsc_def chan_try_send_def chan_new_def)

text \<open>
  Two drops that run at the same time can both see the other half alive: the halves
  are then both gone and no close was sent.
\<close>

lemma split_drop_can_miss_close:
  "\<exists>st. (split_step Q inner)\<^sup>*\<^sup>* (split_init q) st \<and>
     sp_read st = Released \<and> sp_write st = Released \<and> sp_count st = 0 \<and> sp_commands st = q"
proof -
  let ?st = "\<lambda>n r w c. \<lparr>sp_count = n, sp_read = r, sp_write = w, sp_commands = c\<rparr>"
  have "split_step Q inner (split_init q) (?st 2 Checked Held q)"
    using read_drop [of "split_init q" Q inner] by (simp add: split_init_def half_drop_def)
  moreover have "split_step Q inner (?st 2 Checked Held q) (?st 2 Checked Checked q)"
    using write_drop [of "?st 2 Checked Held q" Q inner] by (simp add: half_drop_def)
  moreover have "split_step Q inner (?st 2 Checked Checked q) (?st 1 Released Checked q)"
    using read_release [of "?st 2 Checked Checked q" Q inner] by simp
  moreover have "split_step Q inner (?st 1 Released Checked q) (?st 0 Released Released q)"
    using write_release [of "?st 1 Released Checked q" Q inner] by simp
  ultimately have "(split_step Q inner)\<^sup>*\<^sup>* (split_init q) (?st 0 Released Released q)"
    by (rule four_steps)
  then show ?thesis by fastforce
qed

end
