(* ===== verification/Wire.thy ===== *)
theory Wire
  imports Prelude
begin

text \<open>
  The interface between the writer and the reader of a byte stream: an encoder whose
  output a decoder takes off the front of any stream, leaving the rest. Whoever meets it
  can send a sequence of messages back to back and gets the same sequence out.
\<close>

fun decode_stream ::
    "(bytes \<Rightarrow> ('m \<times> bytes) option) \<Rightarrow> nat \<Rightarrow> bytes \<Rightarrow> 'm list \<times> bytes" where
  "decode_stream dec 0 s = ([], s)"
| "decode_stream dec (Suc n) s =
     (case dec s of
        None \<Rightarrow> ([], s)
      | Some (m, s') \<Rightarrow> (case decode_stream dec n s' of (ms, r) \<Rightarrow> (m # ms, r)))"

locale wire_codec =
  fixes enc :: "'m \<Rightarrow> bytes"
    and dec :: "bytes \<Rightarrow> ('m \<times> bytes) option"
    and ok :: "'m \<Rightarrow> bool"
  assumes dec_enc: "ok m \<Longrightarrow> dec (enc m @ rest) = Some (m, rest)"
begin

lemma stream_roundtrip:
  "(\<And>m. m \<in> set ms \<Longrightarrow> ok m) \<Longrightarrow>
     decode_stream dec (length ms) (concat (map enc ms) @ rest) = (ms, rest)"
  by (induction ms) (simp_all add: dec_enc)

lemma enc_prefix_free:
  "ok m \<Longrightarrow> ok m' \<Longrightarrow> enc m @ r = enc m' @ r' \<Longrightarrow> m = m' \<and> r = r'"
  by (metis dec_enc option.inject prod.inject)

text \<open>No byte string is the encoding of two different message sequences.\<close>

lemma stream_unique:
  assumes "\<And>m. m \<in> set ms \<Longrightarrow> ok m" and "\<And>m. m \<in> set ms' \<Longrightarrow> ok m"
    and "length ms = length ms'"
    and "concat (map enc ms) @ r = concat (map enc ms') @ r'"
  shows "ms = ms' \<and> r = r'"
proof -
  from assms(1) have "decode_stream dec (length ms) (concat (map enc ms) @ r) = (ms, r)"
    by (rule stream_roundtrip)
  moreover from assms(2) have
      "decode_stream dec (length ms') (concat (map enc ms') @ r') = (ms', r')"
    by (rule stream_roundtrip)
  ultimately show ?thesis by (metis assms(3,4) prod.inject)
qed

end

end
