(* ===== verification/Protocol.thy ===== *)
theory Protocol
  imports Net_Addr Wire
begin

text \<open>
  The wire protocol between library and proxy, \<^verbatim>\<open>src/protocol.rs\<close>: the control
  messages, the one-byte message type, the length-prefix framing over a byte stream, and
  the two address helpers of the handshake. The JSON encoder and decoder
  (\<^verbatim>\<open>serde_json\<close>) are parameters.
\<close>

unbundle bit_operations_syntax

section \<open>Control messages\<close>

definition MSG_TYPE_CONTROL :: u8 where "MSG_TYPE_CONTROL = 0x00"
definition MSG_TYPE_FRAME :: u8 where "MSG_TYPE_FRAME = 0x01"

datatype client_hello = ClientHello

record proxy_config =
  pc_tap_ip :: ip_addr
  pc_tap_mac :: bytes
  pc_prefix_len :: u8
  pc_mtu :: u16

definition default_mtu :: u16 where "default_mtu = 1500"

record interface_stats =
  rx_bytes :: u64
  rx_packets :: u64
  rx_errors :: u64
  rx_dropped :: u64
  tx_bytes :: u64
  tx_packets :: u64
  tx_errors :: u64
  tx_dropped :: u64

datatype proxy_command =
    AddRoute u64 ip_addr u8
  | RemoveRoute u64 ip_addr u8
  | GetIfaceStats u64

datatype proxy_response =
    RespOk u64
  | RespError u64 string
  | RespIfaceStats u64 "string \<rightharpoonup> interface_stats"

fun resp_id :: "proxy_response \<Rightarrow> u64" where
  "resp_id (RespOk i) = i"
| "resp_id (RespError i e) = i"
| "resp_id (RespIfaceStats i m) = i"

definition resp_ok :: "u64 \<Rightarrow> proxy_response" where
  "resp_ok i = RespOk i"

definition resp_error :: "u64 \<Rightarrow> string \<Rightarrow> proxy_response" where
  "resp_error i e = RespError i e"

section \<open>Message encoding\<close>

datatype message = Control bytes | Frame bytes

text \<open>Two lower-case hexadecimal digits, \<^verbatim>\<open>{:02x}\<close> of a byte.\<close>

definition hex_digit :: "nat \<Rightarrow> char" where
  "hex_digit n = ''0123456789abcdef'' ! (n mod 16)"

definition hex2 :: "u8 \<Rightarrow> string" where
  "hex2 b = [hex_digit (unat b div 16), hex_digit (unat b)]"

definition encode_control :: "('a \<Rightarrow> string + bytes) \<Rightarrow> 'a \<Rightarrow> bytes io_result" where
  "encode_control to_vec m =
     (case to_vec m of
        Inl e \<Rightarrow> Inl (IoError InvalidData e)
      | Inr json \<Rightarrow> Inr (MSG_TYPE_CONTROL # json))"

definition decode_control :: "(bytes \<Rightarrow> string + 'a) \<Rightarrow> bytes \<Rightarrow> 'a io_result" where
  "decode_control from_slice data =
     (case from_slice data of
        Inl e \<Rightarrow> Inl (IoError InvalidData e)
      | Inr v \<Rightarrow> Inr v)"

definition encode_frame :: "bytes \<Rightarrow> bytes" where
  "encode_frame frame = MSG_TYPE_FRAME # frame"

definition decode_message :: "bytes \<Rightarrow> message io_result" where
  "decode_message data =
     (case data of
        [] \<Rightarrow> Inl (IoError InvalidData ''empty message'')
      | msg_type # payload \<Rightarrow>
          if msg_type = MSG_TYPE_CONTROL then Inr (Control payload)
          else if msg_type = MSG_TYPE_FRAME then Inr (Frame payload)
          else Inl (IoError InvalidData (''unknown message type: 0x'' @ hex2 msg_type)))"

section \<open>Length-prefix framing\<close>

text \<open>
  \<^verbatim>\<open>impl Write\<close> and \<^verbatim>\<open>impl Read\<close> are the two functions the code calls on them,
  \<^verbatim>\<open>write_all\<close> and \<^verbatim>\<open>read_exact\<close>, over some writer or reader state.
\<close>

definition write_framed_sync ::
    "('w \<Rightarrow> bytes \<Rightarrow> unit io_result \<times> 'w) \<Rightarrow> 'w \<Rightarrow> bytes \<Rightarrow> unit io_result \<times> 'w" where
  "write_framed_sync write_all w m =
     (let len = to_be_bytes 4 (of_nat (length m) :: u32)
      in case write_all w len of
           (Inl e, w1) \<Rightarrow> (Inl e, w1)
         | (Inr _, w1) \<Rightarrow>
             (case write_all w1 m of
                (Inl e, w2) \<Rightarrow> (Inl e, w2)
              | (Inr _, w2) \<Rightarrow> (Inr (), w2)))"

definition read_framed_sync ::
    "('r \<Rightarrow> nat \<Rightarrow> bytes io_result \<times> 'r) \<Rightarrow> 'r \<Rightarrow> bytes \<Rightarrow> nat io_result \<times> 'r \<times> bytes" where
  "read_framed_sync read_exact r buf =
     (case read_exact r 4 of
        (Inl e, r1) \<Rightarrow> (Inl e, r1, buf)
      | (Inr len_buf, r1) \<Rightarrow>
          (let len = unat (from_be_bytes len_buf :: u32)
           in if len = 0 then (Inl (IoError InvalidData ''zero-length frame''), r1, buf)
              else
                (let buf1 = (if length buf < len then buf @ replicate (len - length buf) 0 else buf)
                 in case read_exact r1 len of
                      (Inl e, r2) \<Rightarrow> (Inl e, r2, buf1)
                    | (Inr bs, r2) \<Rightarrow> (Inr len, r2, bs @ drop len buf1))))"

text \<open>The standard library's writer into a \<^verbatim>\<open>Vec<u8>\<close> and reader from a \<^verbatim>\<open>&[u8]\<close>.\<close>

definition vec_write_all :: "bytes \<Rightarrow> bytes \<Rightarrow> unit io_result \<times> bytes" where
  "vec_write_all w bs = (Inr (), w @ bs)"

definition slice_read_exact :: "bytes \<Rightarrow> nat \<Rightarrow> bytes io_result \<times> bytes" where
  "slice_read_exact s n =
     (if n \<le> length s then (Inr (take n s), drop n s)
      else (Inl (IoError UnexpectedEof ''failed to fill whole buffer''), []))"

section \<open>Address helpers\<close>

text \<open>
  The IPv6 branch increments the octet array from its last byte, carrying while a byte
  overflows. \<open>incr_loop i octets\<close> is the loop with the next index \<open>i - 1\<close> still to do.
\<close>

fun incr_loop :: "nat \<Rightarrow> bytes \<Rightarrow> bytes" where
  "incr_loop 0 octets = octets"
| "incr_loop (Suc i) octets =
     (let val = octets ! i + 1; overflow = (256 \<le> unat (octets ! i) + 1);
          octets' = octets[i := val]
      in if \<not> overflow then octets' else incr_loop i octets')"

fun default_client_ip :: "bool \<Rightarrow> ip_addr \<Rightarrow> ip_addr option" where
  "default_client_ip chk (V4 v4) =
     (let ip_u32 = from_be_bytes (octets4 v4)
      in map_option V4 (rust_add chk ip_u32 1))"
| "default_client_ip chk (V6 v6) = Some (V6 (from_be_bytes (incr_loop 16 (octets16 v6))))"

fun validate_ip_in_subnet :: "bool \<Rightarrow> ip_addr \<Rightarrow> ip_addr \<Rightarrow> u8 \<Rightarrow> bool option" where
  "validate_ip_in_subnet chk (V4 ip) (V4 tap) plen =
     (case (if 32 \<le> plen then Some (- 1 :: u32)
            else rust_shl chk (- 1) (unat (32 - plen))) of
        None \<Rightarrow> None
      | Some m \<Rightarrow>
          (let ip_u32 = from_be_bytes (octets4 ip); tap_u32 = from_be_bytes (octets4 tap)
           in Some ((ip_u32 AND m) = (tap_u32 AND m))))"
| "validate_ip_in_subnet chk (V6 ip) (V6 tap) plen =
     (case (if 128 \<le> plen then Some (- 1 :: u128)
            else rust_shl chk (- 1) (unat (128 - plen))) of
        None \<Rightarrow> None
      | Some m \<Rightarrow>
          (let ip_bits = from_be_bytes (octets16 ip); tap_bits = from_be_bytes (octets16 tap)
           in Some ((ip_bits AND m) = (tap_bits AND m))))"
| "validate_ip_in_subnet chk _ _ plen = Some False"

section \<open>Lemmas: the address helpers\<close>

lemma incr_loop_append:
  "i \<le> length xs \<Longrightarrow> incr_loop i (xs @ ys) = incr_loop i xs @ ys"
  by (induction i arbitrary: xs) (auto simp: Let_def nth_append list_update_append)

lemma length_incr_loop [simp]: "length (incr_loop i bs) = length bs"
  by (induction i arbitrary: bs) (auto simp: Let_def)

lemma incr_loop_val:
  "be_val (incr_loop (length bs) bs) = (be_val bs + 1) mod 256 ^ length bs"
proof (induction bs rule: rev_induct)
  case Nil
  then show ?case by simp
next
  case (snoc b bs)
  show ?case
  proof (cases "unat b + 1 < 256")
    case True
    have "be_val (bs @ [b]) + 1 < 256 ^ length (bs @ [b])"
    proof -
      have "be_val bs + 1 \<le> 256 ^ length bs" using be_val_bound [of bs] by simp
      then have "(be_val bs + 1) * 256 \<le> 256 ^ length bs * 256" by (rule mult_le_mono1)
      with True show ?thesis by (simp add: mult.commute)
    qed
    with True show ?thesis by (simp add: Let_def unat_word_ariths)
  next
    case False
    with unat_byte_bound [of b] have b: "unat b = 255" by linarith
    then have "b = 255" by (simp add: word_eq_iff_unsigned [where 'a = nat])
    then have "incr_loop (length (bs @ [b])) (bs @ [b]) = incr_loop (length bs) bs @ [0]"
      by (simp add: Let_def incr_loop_append)
    then have "be_val (incr_loop (length (bs @ [b])) (bs @ [b])) =
        (be_val bs + 1) mod 256 ^ length bs * 256"
      using snoc.IH by simp
    also have "\<dots> = ((be_val bs + 1) * 256) mod (256 ^ length bs * 256)"
      by (simp only: mod_mult_mult2)
    also have "\<dots> = (be_val (bs @ [b]) + 1) mod 256 ^ length (bs @ [b])"
      using b by (simp add: mult.commute)
    finally show ?thesis .
  qed
qed

text \<open>Two addresses agree on their leading bits: the meaning of a subnet.\<close>

fun same_subnet :: "ip_addr \<Rightarrow> ip_addr \<Rightarrow> nat \<Rightarrow> bool" where
  "same_subnet (V4 a) (V4 b) p = (unat a div 2 ^ (32 - p) = unat b div 2 ^ (32 - p))"
| "same_subnet (V6 a) (V6 b) p = (unat a div 2 ^ (128 - p) = unat b div 2 ^ (128 - p))"
| "same_subnet _ _ p = False"

lemma validate_subnet:
  assumes "0 < plen"
  shows "validate_ip_in_subnet chk ip tap plen = Some (same_subnet ip tap (unat plen))"
proof -
  have p: "0 < unat plen" using assms by (simp add: word_less_nat_alt)
  have v4: "validate_ip_in_subnet chk (V4 a) (V4 b) plen = Some (same_subnet (V4 a) (V4 b) (unat plen))" for a b
  proof (cases "32 \<le> plen")
    case True
    then have "32 \<le> unat plen" by (simp add: word_le_nat_alt)
    with True show ?thesis by (simp add: word_eq_iff_unsigned [where 'a = nat])
  next
    case False
    then have l: "plen < 32" by simp
    then have "unat (32 - plen) = 32 - unat plen" "unat plen < 32" by (simp_all add: unat_rsub_byte word_less_nat_alt)
    with False p show ?thesis by (simp add: rust_shl_minus1 and_high_mask_eq_iff Let_def del: push_bit_minus_one_eq_not_mask)
  qed
  have v6: "validate_ip_in_subnet chk (V6 a) (V6 b) plen = Some (same_subnet (V6 a) (V6 b) (unat plen))" for a b
  proof (cases "128 \<le> plen")
    case True
    then have "128 \<le> unat plen" by (simp add: word_le_nat_alt)
    with True show ?thesis by (simp add: word_eq_iff_unsigned [where 'a = nat])
  next
    case False
    then have l: "plen < 128" by simp
    then have "unat (128 - plen) = 128 - unat plen" "unat plen < 128" by (simp_all add: unat_rsub_byte word_less_nat_alt)
    with False p show ?thesis by (simp add: rust_shl_minus1 and_high_mask_eq_iff Let_def del: push_bit_minus_one_eq_not_mask)
  qed
  show ?thesis using v4 v6 by (cases ip; cases tap) simp_all
qed

lemma default_client_ip_v6: "default_client_ip chk (V6 a) = Some (V6 (a + 1))"
proof -
  have "be_val (incr_loop 16 (octets16 a)) = (be_val (octets16 a) + 1) mod 256 ^ 16"
    using incr_loop_val [of "octets16 a"] by simp
  also have "be_val (octets16 a) = unat a"
    using unat_from_be_bytes [of "octets16 a", where 'a = 128] by simp
  finally have "from_be_bytes (incr_loop 16 (octets16 a)) = (of_nat ((unat a + 1) mod 256 ^ 16) :: u128)"
    by (simp add: from_be_bytes_def)
  also have "\<dots> = a + 1"
    by (simp add: word_eq_iff_unsigned [where 'a = nat] unat_of_nat unat_word_ariths)
  finally show ?thesis by simp
qed

lemma default_client_ip_v4:
  "default_client_ip chk (V4 a) = (if chk \<and> a = - 1 then None else Some (V4 (a + 1)))"
proof -
  have "2 ^ 32 \<le> unat a + 1 \<longleftrightarrow> a = - 1"
    using unsigned_less [of a, where 'a = nat]
    by (auto simp: word_eq_iff_unsigned [where 'a = nat] unsigned_minus_1_eq_mask mask_eq_exp_minus_1)
  then show ?thesis by (simp add: rust_add_def)
qed
section \<open>Lemmas: framing\<close>

definition framed :: "bytes \<Rightarrow> bytes" where
  "framed m = to_be_bytes 4 (of_nat (length m) :: u32) @ m"

lemma write_framed_vec: "write_framed_sync vec_write_all w m = (Inr (), w @ framed m)"
  by (simp add: write_framed_sync_def vec_write_all_def framed_def Let_def)

definition frame_len :: "bytes \<Rightarrow> nat" where
  "frame_len s = unat (from_be_bytes (take 4 s) :: u32)"

lemma read_framed_slice:
  "read_framed_sync slice_read_exact s buf =
     (if length s < 4 then (Inl (IoError UnexpectedEof ''failed to fill whole buffer''), [], buf)
      else if frame_len s = 0 then (Inl (IoError InvalidData ''zero-length frame''), drop 4 s, buf)
      else if length s < 4 + frame_len s
        then (Inl (IoError UnexpectedEof ''failed to fill whole buffer''), [],
              buf @ replicate (frame_len s - length buf) 0)
      else (Inr (frame_len s), drop (4 + frame_len s) s,
            take (frame_len s) (drop 4 s) @ drop (frame_len s) buf))"
  by (auto simp: read_framed_sync_def slice_read_exact_def frame_len_def Let_def add.commute)

lemma frame_len_framed: "length m < 2 ^ 32 \<Longrightarrow> frame_len (framed m @ rest) = length m"
  by (simp add: frame_len_def framed_def from_to_be_bytes unat_of_nat)

lemma length_framed [simp]: "length (framed m) = 4 + length m"
  by (simp add: framed_def)

lemma framed_parts: "take 4 (framed m) = to_be_bytes 4 (of_nat (length m) :: u32)" "drop 4 (framed m) = m"
  by (simp_all add: framed_def)

lemma read_framed_framed:
  assumes "0 < length m" "length m < 2 ^ 32"
  shows "read_framed_sync slice_read_exact (framed m @ rest) buf =
     (Inr (length m), rest, m @ drop (length m) buf)"
  using assms by (simp add: read_framed_slice frame_len_framed framed_parts)

definition unframe :: "bytes \<Rightarrow> (bytes \<times> bytes) option" where
  "unframe s = (case read_framed_sync slice_read_exact s [] of
     (Inr n, s', buf) \<Rightarrow> Some (take n buf, s') | (Inl e, _) \<Rightarrow> None)"

definition frame_ok :: "bytes \<Rightarrow> bool" where
  "frame_ok m \<longleftrightarrow> 0 < length m \<and> length m < 2 ^ 32"

interpretation fr: wire_codec framed unframe frame_ok
  by unfold_locales (simp add: unframe_def frame_ok_def read_framed_framed)

section \<open>Properties\<close>

text \<open>
  C27: Any sequence of messages of 1 to $2^{32}-1$ bytes, written one after the other with
  \<^verbatim>\<open>write_framed_sync\<close>, is read back by repeated \<^verbatim>\<open>read_framed_sync\<close> as exactly that
  sequence, and what follows it in the stream is left unread.
\<close>

theorem framed_stream_roundtrip:
  assumes "\<And>m. m \<in> set ms \<Longrightarrow> 0 < length m \<and> length m < 2 ^ 32"
  shows "decode_stream unframe (length ms)
           (foldl (\<lambda>w m. snd (write_framed_sync vec_write_all w m)) [] ms @ rest) = (ms, rest)"
proof -
  have "foldl (\<lambda>w m. snd (write_framed_sync vec_write_all w m)) w ms = w @ concat (map framed ms)" for w
    by (induction ms arbitrary: w) (simp_all add: write_framed_vec)
  with fr.stream_roundtrip [of ms rest] assms show ?thesis by (simp add: frame_ok_def)
qed

theorem framed_stream_roundtrip_witness:
  "decode_stream unframe (length [[1, 7], [0, 8, 9 :: u8]])
     (foldl (\<lambda>w m. snd (write_framed_sync vec_write_all w m)) [] [[1, 7], [0, 8, 9]] @ [5])
     = ([[1, 7], [0, 8, 9]], [5])"
  by (rule framed_stream_roundtrip) auto

text \<open>
  \<^verbatim>\<open>read_framed_sync\<close> on a byte slice, every branch: a stream that ends inside the
  prefix or inside the body is \<^verbatim>\<open>UnexpectedEof\<close>, a zero length is \<^verbatim>\<open>InvalidData\<close>,
  and otherwise exactly the prefix and the body are consumed, the body is the front of
  the buffer and the rest of a longer buffer is kept.
\<close>

lemma read_framed_sync_branches:
  "read_framed_sync slice_read_exact s buf =
     (if length s < 4 then (Inl (IoError UnexpectedEof ''failed to fill whole buffer''), [], buf)
      else if frame_len s = 0 then (Inl (IoError InvalidData ''zero-length frame''), drop 4 s, buf)
      else if length s < 4 + frame_len s
        then (Inl (IoError UnexpectedEof ''failed to fill whole buffer''), [],
              buf @ replicate (frame_len s - length buf) 0)
      else (Inr (frame_len s), drop (4 + frame_len s) s,
            take (frame_len s) (drop 4 s) @ drop (frame_len s) buf))"
  by (rule read_framed_slice)

text \<open>
  C28: \<^verbatim>\<open>decode_message\<close> accepts exactly the encodings: a frame message is the encoding
  of its frame, a control message is the control byte before its payload, and it fails
  exactly on the empty message and on a type byte above 1.
\<close>

theorem decode_message_exact:
  "(decode_message d = Inr (Frame f) \<longleftrightarrow> d = encode_frame f) \<and>
   (decode_message d = Inr (Control p) \<longleftrightarrow> d = MSG_TYPE_CONTROL # p) \<and>
   ((\<exists>e. decode_message d = Inl e) \<longleftrightarrow> d = [] \<or> 1 < hd d)"
proof -
  have "t = 0 \<or> t = 1 \<or> 1 < t" for t :: u8
    by (metis word_gt_0 linorder_neqE word_less_1 not_less_iff_gr_or_eq)
  then show ?thesis
    by (cases d) (force simp: decode_message_def encode_frame_def MSG_TYPE_CONTROL_def MSG_TYPE_FRAME_def)+
qed

text \<open>
  A control message survives the wire: if the JSON decoder inverts the JSON encoder on
  the message, what \<^verbatim>\<open>encode_control\<close> produces decodes to a control message whose payload
  \<^verbatim>\<open>decode_control\<close> turns back into the message.
\<close>

lemma control_roundtrip:
  assumes json: "\<And>v. to_vec m = Inr v \<Longrightarrow> from_slice v = Inr m"
    and "encode_control to_vec m = Inr bs"
  shows "\<exists>payload. decode_message bs = Inr (Control payload) \<and>
           decode_control from_slice payload = Inr m"
  using assms
  by (cases "to_vec m") (auto simp: encode_control_def decode_control_def decode_message_def)

lemma control_roundtrip_witness:
  "\<exists>payload. decode_message [0, 123, 125] = Inr (Control payload) \<and>
     decode_control (\<lambda>bs. if bs = [123, 125] then Inr ClientHello else Inl ''expected object'')
       payload = Inr ClientHello"
  by (rule control_roundtrip [where to_vec = "\<lambda>_. Inr [123, 125]"])
     (auto simp: encode_control_def MSG_TYPE_CONTROL_def)

text \<open>
  C35: \<^verbatim>\<open>validate_ip_in_subnet\<close>, for every prefix length but 0, says exactly whether the two
  addresses are of one family and agree on their leading \<open>plen\<close> bits, in both build
  profiles, for both families and for lengths beyond the address width.
\<close>

theorem validate_ip_in_subnet_correct:
  assumes "0 < plen"
  shows "validate_ip_in_subnet chk ip tap plen = Some (same_subnet ip tap (unat plen))"
  using assms by (rule validate_subnet)

theorem validate_ip_in_subnet_correct_witness:
  "validate_ip_in_subnet True (V4 0x0A000005) (V4 0x0A000001) 24 = Some True"
  using validate_ip_in_subnet_correct [of 24 True "V4 0x0A000005" "V4 0x0A000001"] by simp

text \<open>
  The prefix length 0, which every address should match, does not: the shift by the
  full width panics when overflow checks are on, and when they are off it leaves the mask
  of all ones, so that only equal addresses match.
\<close>

lemma validate_ip_in_subnet_prefix_zero:
  "validate_ip_in_subnet True (V4 a) (V4 b) 0 = None \<and>
   validate_ip_in_subnet False (V4 a) (V4 b) 0 = Some (a = b) \<and>
   validate_ip_in_subnet True (V6 c) (V6 d) 0 = None \<and>
   validate_ip_in_subnet False (V6 c) (V6 d) 0 = Some (c = d)"
  by (simp add: rust_shl_def)

text \<open>
  C37: The byte-wise carry of \<^verbatim>\<open>default_client_ip\<close> is addition of one modulo $2^{128}$; on
  IPv4 it is addition of one, which panics on 255.255.255.255 when overflow checks are on
  and wraps to 0.0.0.0 when they are off.
\<close>

theorem default_client_ip_is_successor:
  "default_client_ip chk (V6 b) = Some (V6 (b + 1)) \<and>
   default_client_ip chk (V4 a) = (if chk \<and> a = - 1 then None else Some (V4 (a + 1)))"
  by (simp only: default_client_ip_v6 default_client_ip_v4 simp_thms)



end
