(* ===== verification/Text.thy ===== *)
theory Text
  imports Protocol "HOL-Library.Monad_Syntax"
begin

text \<open>
  The standard library's text conversions that the sources use: printing of unsigned
  integers and of IP addresses (\<^verbatim>\<open>Display\<close>), their parsers (\<^verbatim>\<open>FromStr\<close>), and splitting of
  strings. The parsers are those of \<^verbatim>\<open>core::net::parser\<close>: a reader takes a string and
  returns a value with the rest, or \<open>None\<close> without having moved. Texts are ASCII.
\<close>

section \<open>Numbers\<close>

fun to_radix :: "nat \<Rightarrow> nat \<Rightarrow> string" where
  "to_radix b n = (if b < 2 \<or> n < b then [hex_digit n] else to_radix b (n div b) @ [hex_digit (n mod b)])"

declare to_radix.simps [simp del]

abbreviation dec :: "nat \<Rightarrow> string" where
  "dec n \<equiv> to_radix 10 n"

text \<open>\<^verbatim>\<open>char::to_digit\<close>.\<close>

definition to_digit :: "nat \<Rightarrow> char \<Rightarrow> nat option" where
  "to_digit radix c =
     (let n = of_char c;
          v = (if 48 \<le> n \<and> n \<le> 57 then n - 48
               else if 97 \<le> n \<and> n \<le> 122 then n - 87
               else if 65 \<le> n \<and> n \<le> 90 then n - 55 else 36)
      in if v < radix then Some v else None)"

definition is_digit :: "nat \<Rightarrow> char \<Rightarrow> bool" where
  "is_digit radix c \<longleftrightarrow> to_digit radix c \<noteq> None"

definition digits_val :: "nat \<Rightarrow> string \<Rightarrow> nat" where
  "digits_val radix ds =
     foldl (\<lambda>v c. v * radix + (case to_digit radix c of Some d \<Rightarrow> d | None \<Rightarrow> 0)) 0 ds"

text \<open>
  \<^verbatim>\<open>FromStr\<close> of an unsigned type with values below \<open>limit\<close>: a leading plus sign is
  allowed, at least one digit is needed, and an overflow is an error.
\<close>

definition parse_uint :: "nat \<Rightarrow> string \<Rightarrow> nat option" where
  "parse_uint limit s =
     (let ds = (case s of [] \<Rightarrow> [] | c # r \<Rightarrow> if c = CHR ''+'' then r else s)
      in if ds = [] \<or> \<not> list_all (is_digit 10) ds \<or> limit \<le> digits_val 10 ds then None
         else Some (digits_val 10 ds))"

section \<open>Splitting\<close>

text \<open>\<^verbatim>\<open>str::split\<close> with a character.\<close>

fun split_on :: "char \<Rightarrow> string \<Rightarrow> string list" where
  "split_on c [] = [[]]"
| "split_on c (x # xs) =
     (if x = c then [] # split_on c xs
      else (case split_on c xs of [] \<Rightarrow> [[x]] | p # ps \<Rightarrow> (x # p) # ps))"

section \<open>Reading IP addresses\<close>

type_synonym 'a reader = "string \<Rightarrow> ('a \<times> string) option"

definition read_given_char :: "char \<Rightarrow> unit reader" where
  "read_given_char c s = (case s of x # r \<Rightarrow> if x = c then Some ((), r) else None | [] \<Rightarrow> None)"

definition read_separator :: "char \<Rightarrow> nat \<Rightarrow> 'a reader \<Rightarrow> 'a reader" where
  "read_separator sep index inner s =
     (if 0 < index then do { (_, r) \<leftarrow> read_given_char sep s; inner r } else inner s)"

definition read_number :: "nat \<Rightarrow> nat \<Rightarrow> bool \<Rightarrow> nat \<Rightarrow> nat reader" where
  "read_number radix max_digits allow_zero_prefix limit s =
     (let ds = takeWhile (is_digit radix) s
      in if max_digits < length ds then None
         else if ds = [] then None
         else if \<not> allow_zero_prefix \<and> hd ds = CHR ''0'' \<and> 1 < length ds then None
         else if limit \<le> digits_val radix ds then None
         else Some (digits_val radix ds, drop (length ds) s))"

fun read_octets :: "nat \<Rightarrow> nat \<Rightarrow> bytes reader" where
  "read_octets i 0 s = Some ([], s)"
| "read_octets i (Suc k) s = do {
     (d, r) \<leftarrow> read_separator CHR ''.'' i (read_number 10 3 False 256) s;
     (ds, r') \<leftarrow> read_octets (Suc i) k r;
     Some (of_nat d # ds, r')
   }"

definition read_ipv4_addr :: "u32 reader" where
  "read_ipv4_addr s = map_option (apfst from_be_bytes) (read_octets 0 4 s)"

text \<open>The eight 16-bit segments of an IPv6 address, as numbers.\<close>

fun pair_up :: "bytes \<Rightarrow> nat list" where
  "pair_up (a # b # bs) = (unat a * 256 + unat b) # pair_up bs"
| "pair_up _ = []"

definition segments :: "u128 \<Rightarrow> nat list" where
  "segments a = pair_up (octets16 a)"

definition segment_bytes :: "nat \<Rightarrow> bytes" where
  "segment_bytes g = [of_nat (g div 256), of_nat g]"

definition from_segments :: "nat list \<Rightarrow> u128" where
  "from_segments gs = from_be_bytes (concat (map segment_bytes gs))"

text \<open>\<open>read_groups i k\<close> reads groups into the slots from \<open>i\<close>, of which \<open>k\<close> are left.\<close>

fun read_groups :: "nat \<Rightarrow> nat \<Rightarrow> string \<Rightarrow> nat list \<times> bool \<times> string" where
  "read_groups i 0 s = ([], False, s)"
| "read_groups i (Suc k) s =
     (case (if 0 < k then read_separator CHR '':'' i read_ipv4_addr s else None) of
        Some (v4, r) \<Rightarrow> (pair_up (octets4 v4), True, r)
      | None \<Rightarrow>
          (case read_separator CHR '':'' i (read_number 16 4 True 65536) s of
             Some (g, r) \<Rightarrow> (case read_groups (Suc i) k r of (gs, v4, r') \<Rightarrow> (g # gs, v4, r'))
           | None \<Rightarrow> ([], False, s)))"

definition read_ipv6_addr :: "u128 reader" where
  "read_ipv6_addr s =
     (case read_groups 0 8 s of
        (head, head_ipv4, r) \<Rightarrow>
          if length head = 8 then Some (from_segments head, r)
          else if head_ipv4 then None
          else do {
            (_, r1) \<leftarrow> read_given_char CHR '':'' r;
            (_, r2) \<leftarrow> read_given_char CHR '':'' r1;
            (case read_groups 0 (8 - (length head + 1)) r2 of
               (tail, _, r3) \<Rightarrow>
                 Some (from_segments (head @ replicate (8 - length head - length tail) 0 @ tail), r3))
          })"

definition parse_ip_addr :: "string \<Rightarrow> ip_addr option" where
  "parse_ip_addr s =
     (case (case read_ipv4_addr s of
              Some (a, r) \<Rightarrow> Some (V4 a, r)
            | None \<Rightarrow> map_option (apfst V6) (read_ipv6_addr s)) of
        Some (a, []) \<Rightarrow> Some a
      | _ \<Rightarrow> None)"

section \<open>Printing IP addresses\<close>

fun joined :: "char \<Rightarrow> string list \<Rightarrow> string" where
  "joined c [] = []"
| "joined c [p] = p"
| "joined c (p # q # ps) = p @ c # joined c (q # ps)"

definition show_ipv4 :: "u32 \<Rightarrow> string" where
  "show_ipv4 a = joined CHR ''.'' (map (\<lambda>b. dec (unat b)) (octets4 a))"

text \<open>The search for the longest run of zero segments; a span is its start and length.\<close>

fun zero_span :: "nat \<Rightarrow> nat \<times> nat \<Rightarrow> nat \<times> nat \<Rightarrow> nat list \<Rightarrow> nat \<times> nat" where
  "zero_span i current longest [] = longest"
| "zero_span i (start, len) longest (g # gs) =
     (if g = 0 then
        (let start' = (if len = 0 then i else start); len' = len + 1
         in zero_span (Suc i) (start', len') (if snd longest < len' then (start', len') else longest) gs)
      else zero_span (Suc i) (0, 0) longest gs)"

definition show_segments :: "nat list \<Rightarrow> string" where
  "show_segments gs = joined CHR '':'' (map (to_radix 16) gs)"

definition show_ipv6 :: "u128 \<Rightarrow> string" where
  "show_ipv6 a =
     (let gs = segments a
      in if take 6 gs = [0, 0, 0, 0, 0, 65535]
         then ''::ffff:'' @ show_ipv4 (from_be_bytes (drop 12 (octets16 a)))
         else case zero_span 0 (0, 0) (0, 0) gs of
                (start, len) \<Rightarrow>
                  if 1 < len
                  then show_segments (take start gs) @ ''::'' @ show_segments (drop (start + len) gs)
                  else show_segments gs)"

fun show_ip_addr :: "ip_addr \<Rightarrow> string" where
  "show_ip_addr (V4 a) = show_ipv4 a"
| "show_ip_addr (V6 a) = show_ipv6 a"

section \<open>Lemmas: numbers\<close>

lemma less_16_cases:
  "n < 16 \<Longrightarrow> n \<in> {0, 1, 2, 3, 4, 5, 6, 7, 8, 9, 10, 11, 12, 13, 14, 15 :: nat}"
  by (auto simp: numeral_eq_Suc less_Suc_eq)

lemma to_digit_hex: "n < b \<Longrightarrow> b \<le> 16 \<Longrightarrow> to_digit b (hex_digit n) = Some n"
  using less_16_cases [of n] by (auto simp: to_digit_def hex_digit_def Let_def)

lemma hex_digit_0: "n < 16 \<Longrightarrow> hex_digit n = CHR ''0'' \<longleftrightarrow> n = 0"
  using less_16_cases [of n] by (auto simp: hex_digit_def)

lemma digits_val_snoc [simp]:
  "digits_val b (ds @ [c]) = digits_val b ds * b + (case to_digit b c of Some d \<Rightarrow> d | None \<Rightarrow> 0)"
  by (simp add: digits_val_def)

lemma digits_val_Nil [simp]: "digits_val b [] = 0"
  by (simp add: digits_val_def)

lemma digits_val_single [simp]:
  "digits_val b [c] = (case to_digit b c of Some d \<Rightarrow> d | None \<Rightarrow> 0)"
  by (simp add: digits_val_def)

lemma to_radix_val: "2 \<le> b \<Longrightarrow> b \<le> 16 \<Longrightarrow> digits_val b (to_radix b n) = n"
proof (induction b n rule: to_radix.induct)
  case (1 b n)
  then show ?case
    by (cases "n < b") (simp_all add: to_radix.simps [of b n] to_digit_hex)
qed

lemma to_radix_digits: "2 \<le> b \<Longrightarrow> b \<le> 16 \<Longrightarrow> list_all (is_digit b) (to_radix b n)"
proof (induction b n rule: to_radix.induct)
  case (1 b n)
  then show ?case
    by (cases "n < b") (simp_all add: to_radix.simps [of b n] to_digit_hex is_digit_def)
qed

lemma to_radix_not_Nil [simp]: "to_radix b n \<noteq> []"
  by (subst to_radix.simps) simp

lemma to_radix_length: "2 \<le> b \<Longrightarrow> n < b ^ k \<Longrightarrow> 0 < k \<Longrightarrow> length (to_radix b n) \<le> k"
proof (induction b n arbitrary: k rule: to_radix.induct)
  case (1 b n)
  show ?case
  proof (cases "n < b")
    case True
    with 1 show ?thesis by (simp add: to_radix.simps [of b n])
  next
    case False
    with 1 obtain j where k: "k = Suc j" "0 < j" by (cases k; cases "k - 1") auto
    with 1 have "n div b < b ^ j" by (simp add: less_mult_imp_div_less mult.commute)
    with 1 False k have "length (to_radix b (n div b)) \<le> j" by simp
    with 1 False k show ?thesis by (simp add: to_radix.simps [of b n])
  qed
qed

lemma to_radix_hd: "2 \<le> b \<Longrightarrow> b \<le> 16 \<Longrightarrow> hd (to_radix b n) = CHR ''0'' \<Longrightarrow> n = 0"
proof (induction b n rule: to_radix.induct)
  case (1 b n)
  then show ?case
    by (cases "n < b") (auto simp: to_radix.simps [of b n] hex_digit_0 div_eq_0_iff)
qed

lemma takeWhile_digits:
  assumes "list_all P ds" and "rest = [] \<or> \<not> P (hd rest)"
  shows "takeWhile P (ds @ rest) = ds"
  using assms by (cases rest) (auto simp: list_all_iff takeWhile_append)

text \<open>A printed number is read back.\<close>

lemma read_number_to_radix:
  assumes "2 \<le> b" "b \<le> 16" and "n < limit" "n < b ^ k" "0 < k"
    and "rest = [] \<or> \<not> is_digit b (hd rest)"
  shows "read_number b k z limit (to_radix b n @ rest) = Some (n, rest)"
proof -
  have tw: "takeWhile (is_digit b) (to_radix b n @ rest) = to_radix b n"
    using assms by (intro takeWhile_digits to_radix_digits)
  have len: "length (to_radix b n) \<le> k" using assms by (intro to_radix_length)
  have zero: "length (to_radix b n) = 1" if "hd (to_radix b n) = CHR ''0''"
  proof -
    have "n = 0" using to_radix_hd [OF assms(1,2) that] .
    with assms show ?thesis by (simp add: to_radix.simps [of b 0])
  qed
  show ?thesis
    using assms(1-3) len zero by (auto simp: read_number_def tw Let_def to_radix_val)
qed

lemma parse_uint_dec: "n < limit \<Longrightarrow> parse_uint limit (dec n) = Some n"
proof -
  assume n: "n < limit"
  have d: "list_all (is_digit 10) (dec n)" by (simp add: to_radix_digits)
  then have "hd (dec n) \<noteq> CHR ''+''"
    by (cases "dec n") (auto simp: is_digit_def to_digit_def)
  then have "(case dec n of [] \<Rightarrow> [] | c # r \<Rightarrow> if c = CHR ''+'' then r else dec n) = dec n"
    by (cases "dec n") auto
  with n d show ?thesis by (simp add: parse_uint_def Let_def to_radix_val)
qed

lemma split_on_none: "c \<notin> set a \<Longrightarrow> split_on c a = [a]"
  by (induction a) auto

lemma split_on_two: "c \<notin> set a \<Longrightarrow> c \<notin> set b \<Longrightarrow> split_on c (a @ c # b) = [a, b]"
  by (induction a) (auto simp: split_on_none)

section \<open>Lemmas: IPv4\<close>

lemma punctuation_not_digit [simp]:
  "\<not> is_digit b CHR ''.'' \<or> 36 < b" "\<not> is_digit b CHR '':'' \<or> 36 < b" "\<not> is_digit b CHR ''/'' \<or> 36 < b"
  by (auto simp: is_digit_def to_digit_def)

lemma sep_not_digit [simp]:
  "\<not> is_digit 10 CHR ''.''" "\<not> is_digit 10 CHR '':''" "\<not> is_digit 16 CHR ''.''" "\<not> is_digit 16 CHR '':''"
  "\<not> is_digit 10 CHR ''/''" "\<not> is_digit 16 CHR ''/''"
  by (auto simp: is_digit_def to_digit_def)

lemma read_octets_show:
  assumes "bs \<noteq> []" and "rest = [] \<or> \<not> is_digit 10 (hd rest)"
  shows "read_octets i (length bs) ((if 0 < i then ''.'' else []) @ joined CHR ''.'' (map (\<lambda>b. dec (unat b)) bs) @ rest) =
    Some (bs, rest)"
  using assms(1)
proof (induction bs arbitrary: i)
  case Nil
  then show ?case by simp
next
  case (Cons b bs)
  have b: "unat b < 256" by (rule unat_byte_bound)
  then have b3: "unat b < 10 ^ 3" by (rule order_less_le_trans) simp
  show ?case
  proof (cases bs)
    case Nil
    with b b3 assms(2) show ?thesis
      by (simp add: read_separator_def read_given_char_def read_number_to_radix)
  next
    case (Cons b' bs')
    let ?t = "''.'' @ joined CHR ''.'' (map (\<lambda>b. dec (unat b)) bs) @ rest"
    have "read_separator CHR ''.'' i (read_number 10 3 False 256)
        ((if 0 < i then ''.'' else []) @ dec (unat b) @ ?t) = Some (unat b, ?t)"
      using b b3 read_number_to_radix [of 10 "unat b" 256 3 ?t False]
      by (simp add: read_separator_def read_given_char_def)
    moreover have "joined CHR ''.'' (map (\<lambda>b. dec (unat b)) (b # bs)) @ rest = dec (unat b) @ ?t"
      using Cons by simp
    moreover have "read_octets (Suc i) (length bs) ?t = Some (bs, rest)"
      using Cons.IH [of "Suc i"] Cons by simp
    ultimately show ?thesis by simp
  qed
qed

lemma read_ipv4_show:
  assumes "rest = [] \<or> \<not> is_digit 10 (hd rest)"
  shows "read_ipv4_addr (show_ipv4 a @ rest) = Some (a, rest)"
proof -
  have "octets4 a \<noteq> []" using length_octets(1) [of a] by (metis list.size(3) zero_neq_numeral)
  from read_octets_show [OF this assms, of 0] show ?thesis
    by (simp add: read_ipv4_addr_def show_ipv4_def)
qed

text \<open>An IPv4 address has a dot, so a text without one is not read as such.\<close>

lemma read_number_rest: "read_number b k z l s = Some (v, r) \<Longrightarrow> set r \<subseteq> set s"
  by (auto simp: read_number_def Let_def dest: in_set_dropD split: if_splits)

lemma read_separator_rest:
  assumes "read_separator c i (read_number b k z l) s = Some (v, r)"
  shows "set r \<subseteq> set s"
proof (cases "0 < i")
  case True
  with assms obtain s' where "s = c # s'" "read_number b k z l s' = Some (v, r)"
    by (cases s) (auto simp: read_separator_def read_given_char_def split: if_splits)
  then show ?thesis using read_number_rest [of b k z l s' v r] by auto
next
  case False
  with assms show ?thesis using read_number_rest [of b k z l s v r] by (simp add: read_separator_def)
qed

lemma read_octets_no_dot:
  assumes "CHR ''.'' \<notin> set s"
  shows "read_octets i (Suc (Suc k)) s = None"
proof (cases "read_separator CHR ''.'' i (read_number 10 3 False 256) s")
  case None
  then show ?thesis by simp
next
  case (Some p)
  obtain v r where p: "p = (v, r)" by (cases p)
  have "set r \<subseteq> set s" using Some unfolding p by (rule read_separator_rest)
  with assms have "CHR ''.'' \<notin> set r" by auto
  then have "read_given_char CHR ''.'' r = None" by (cases r) (auto simp: read_given_char_def)
  with Some p show ?thesis by (simp add: read_separator_def)
qed

lemma read_ipv4_no_dot: "CHR ''.'' \<notin> set s \<Longrightarrow> read_ipv4_addr s = None"
  using read_octets_no_dot [of s 0 2] by (simp add: read_ipv4_addr_def numeral_eq_Suc)

section \<open>Lemmas: IPv6\<close>

lemma pair_up_append: "even (length a) \<Longrightarrow> pair_up (a @ b) = pair_up a @ pair_up b"
  by (induction a rule: pair_up.induct) auto

lemma pair_up_bytes: "even (length bs) \<Longrightarrow> concat (map segment_bytes (pair_up bs)) = bs"
proof (induction bs rule: pair_up.induct)
  case (1 a b bs)
  have "unat b < 256" by (rule unat_byte_bound)
  then have "(unat a * 256 + unat b) div 256 = unat a" by simp
  moreover have "(of_nat (unat a * 256 + unat b) :: u8) = b"
    by (simp add: word_eq_iff_unsigned [where 'a = nat] unat_word_ariths)
  ultimately show ?case using 1 by (simp add: segment_bytes_def del: of_nat_add)
qed auto

lemma pair_up_bound: "g \<in> set (pair_up bs) \<Longrightarrow> g < 65536"
proof (induction bs rule: pair_up.induct)
  case (1 a b bs)
  have "unat a * 256 + unat b < 65536" using unat_byte_bound [of a] unat_byte_bound [of b] by linarith
  with 1 show ?case by auto
qed auto

lemma length_pair_up: "length (pair_up bs) = length bs div 2"
  by (induction bs rule: pair_up.induct) auto

lemma from_segments_inv [simp]: "from_segments (segments a) = a"
  by (simp add: from_segments_def segments_def pair_up_bytes)

lemma length_segments [simp]: "length (segments a) = 8"
  by (simp add: segments_def length_pair_up)

lemma segments_bound: "g \<in> set (segments a) \<Longrightarrow> g < 65536"
  by (simp add: segments_def pair_up_bound)

text \<open>Groups from slot \<open>i\<close> on, each but the first slot's with its colon.\<close>

fun group_text :: "nat \<Rightarrow> nat list \<Rightarrow> string" where
  "group_text i [] = []"
| "group_text i (g # gs) = (if 0 < i then '':'' else []) @ to_radix 16 g @ group_text (Suc i) gs"

lemma group_text_Suc: "gs \<noteq> [] \<Longrightarrow> group_text (Suc i) gs = CHR '':'' # show_segments gs"
proof (induction gs arbitrary: i)
  case Nil
  then show ?case by simp
next
  case (Cons g gs)
  then show ?case by (cases gs) (auto simp: show_segments_def)
qed

lemma group_text_0: "group_text 0 gs = show_segments gs"
proof (cases gs)
  case (Cons g gs')
  then show ?thesis using group_text_Suc [of gs' 0] by (cases gs') (simp_all add: show_segments_def)
qed (simp add: show_segments_def)

lemma not_digit_notin: "list_all (is_digit b) t \<Longrightarrow> \<not> is_digit b c \<Longrightarrow> c \<notin> set t"
  by (auto simp: list_all_iff)

lemma to_radix_chars:
  assumes "b = 10 \<or> b = 16"
  shows "CHR ''.'' \<notin> set (to_radix b n)" "CHR ''/'' \<notin> set (to_radix b n)" "CHR '':'' \<notin> set (to_radix b n)"
  using assms to_radix_digits [of b n] not_digit_notin [of b "to_radix b n"] by auto

lemma group_text_chars: "CHR ''.'' \<notin> set (group_text i gs)" "CHR ''/'' \<notin> set (group_text i gs)"
  by (induction gs arbitrary: i) (auto simp: to_radix_chars)

text \<open>A rest at which the reading of groups stops in slot \<open>i\<close>.\<close>

definition blocked :: "nat \<Rightarrow> string \<Rightarrow> bool" where
  "blocked i s \<longleftrightarrow> (s = [] \<or> \<not> is_digit 16 (hd s)) \<and>
     read_separator CHR '':'' i (read_number 16 4 True 65536) s = None"

lemma blocked_Nil: "blocked i []"
  by (simp add: blocked_def read_separator_def read_given_char_def read_number_def)

lemma blocked_colons: "blocked i (CHR '':'' # CHR '':'' # s)"
  by (simp add: blocked_def read_separator_def read_given_char_def read_number_def)

lemma read_separator_v4_no_dot:
  "CHR ''.'' \<notin> set s \<Longrightarrow> read_separator c i read_ipv4_addr s = None"
  by (cases s) (auto simp: read_separator_def read_given_char_def read_ipv4_no_dot split: if_splits)

lemma read_groups_text:
  assumes "\<forall>g \<in> set gs. g < 65536" and "length gs \<le> k" and "CHR ''.'' \<notin> set rest"
    and "blocked (i + length gs) rest"
  shows "read_groups i k (group_text i gs @ rest) = (gs, False, rest)"
  using assms
proof (induction gs arbitrary: i k)
  case Nil
  then show ?case
    by (cases k) (auto simp: blocked_def read_separator_v4_no_dot)
next
  case (Cons g gs)
  then obtain j where k: "k = Suc j" by (cases k) auto
  let ?t = "group_text (Suc i) gs @ rest"
  have "CHR ''.'' \<notin> set (group_text i (g # gs) @ rest)"
    using Cons.prems(3) group_text_chars(1) [of i "g # gs"] by simp
  then have v4: "read_separator CHR '':'' i read_ipv4_addr (group_text i (g # gs) @ rest) = None"
    by (rule read_separator_v4_no_dot)
  have t: "?t = [] \<or> \<not> is_digit 16 (hd ?t)"
    using Cons.prems(4) by (cases gs) (auto simp: blocked_def)
  have "g < 65536" "g < 16 ^ 4" using Cons.prems(1) by simp_all
  with t have "read_number 16 4 True 65536 (to_radix 16 g @ ?t) = Some (g, ?t)"
    by (intro read_number_to_radix) simp_all
  then have "read_separator CHR '':'' i (read_number 16 4 True 65536) (group_text i (g # gs) @ rest) = Some (g, ?t)"
    by (cases i) (auto simp: read_separator_def read_given_char_def)
  moreover have "read_groups (Suc i) j ?t = (gs, False, rest)"
    using Cons.prems k by (intro Cons.IH) auto
  ultimately show ?case using v4 k by (auto simp del: group_text.simps)
qed

text \<open>The span found is a run of zeros.\<close>

definition zeros_at :: "nat list \<Rightarrow> nat \<times> nat \<Rightarrow> bool" where
  "zeros_at gs p \<longleftrightarrow> fst p + snd p \<le> length gs \<and> (\<forall>j < snd p. gs ! (fst p + j) = 0)"

lemma zero_span_zeros:
  assumes "zeros_at all longest" and "drop i all = gs" and "zeros_at all (start, len)"
    and "len = 0 \<or> start + len = i" and "i + length gs = length all"
  shows "zeros_at all (zero_span i (start, len) longest gs)"
  using assms
proof (induction gs arbitrary: i start len longest)
  case Nil
  then show ?case by simp
next
  case (Cons g gs)
  have d: "drop (Suc i) all = gs" using Cons.prems(2) by (metis drop_Suc list.sel(3) tl_drop)
  have g: "all ! i = g" using Cons.prems(2,5) by (metis length_append_singleton less_add_same_cancel1 list.size(4) add_Suc_right zero_less_Suc nth_via_drop)
  show ?case
  proof (cases "g = 0")
    case False
    have "zeros_at all (0, 0)" by (simp add: zeros_at_def)
    with False Cons d show ?thesis by simp
  next
    case True
    let ?c = "(if len = 0 then i else start, len + 1)"
    have "zeros_at all ?c"
      using Cons.prems(3,4,5) g True by (auto simp: zeros_at_def less_Suc_eq)
    then have "zeros_at all (zero_span (Suc i) ?c l gs)" if "zeros_at all l" for l
      using Cons.IH [OF that d] Cons.prems(4,5) by (auto split: if_splits)
    moreover have "zeros_at all ?c" "zeros_at all longest" by fact+
    ultimately show ?thesis using True by (simp add: Let_def)
  qed
qed

lemma zeros_at_split:
  assumes "zeros_at gs (start, len)"
  shows "gs = take start gs @ replicate len 0 @ drop (start + len) gs"
proof -
  have "take len (drop start gs) = replicate len 0"
    using assms by (auto simp: zeros_at_def intro!: nth_equalityI)
  then show ?thesis by (metis append_take_drop_id drop_drop add.commute)
qed

text \<open>An IPv6 text whose head and tail of groups are separated by two colons, or not.\<close>

lemma read_ipv6_compressed:
  assumes "\<forall>g \<in> set head. g < 65536" "\<forall>g \<in> set tail. g < 65536" and "length head + length tail < 8"
  shows "read_ipv6_addr (show_segments head @ ''::'' @ show_segments tail) =
    Some (from_segments (head @ replicate (8 - length head - length tail) 0 @ tail), [])"
proof -
  have "read_groups 0 8 (group_text 0 head @ ''::'' @ group_text 0 tail) =
      (head, False, ''::'' @ group_text 0 tail)"
    using assms group_text_chars(1) [of 0 tail]
    by (intro read_groups_text) (simp_all add: blocked_colons)
  moreover have "read_groups 0 (8 - (length head + 1)) (group_text 0 tail @ []) = (tail, False, [])"
    using assms by (intro read_groups_text) (simp_all add: blocked_Nil)
  ultimately show ?thesis
    using assms(3) by (simp add: group_text_0 read_ipv6_addr_def read_given_char_def)
qed

lemma read_ipv6_full:
  assumes "\<forall>g \<in> set gs. g < 65536" and "length gs = 8"
  shows "read_ipv6_addr (show_segments gs) = Some (from_segments gs, [])"
proof -
  have "read_groups 0 8 (group_text 0 gs @ []) = (gs, False, [])"
    using assms by (intro read_groups_text) (simp_all add: blocked_Nil)
  with assms(2) show ?thesis by (simp add: group_text_0 read_ipv6_addr_def)
qed

lemma octets_of_tail: "octets4 (from_be_bytes (drop 12 (octets16 a))) = drop 12 (octets16 a)"
  using to_from_be_bytes [of "drop 12 (octets16 a)", where 'a = 32] by (simp add: octets4_def)

lemma segments_tail: "drop 6 (segments a) = pair_up (drop 12 (octets16 a))"
proof -
  have "segments a = pair_up (take 12 (octets16 a) @ drop 12 (octets16 a))"
    by (simp add: segments_def)
  also have "\<dots> = pair_up (take 12 (octets16 a)) @ pair_up (drop 12 (octets16 a))"
    by (rule pair_up_append) simp
  finally show ?thesis by (simp add: length_pair_up)
qed

lemma read_groups_pos:
  "0 < k \<Longrightarrow> read_groups i k s =
     (case (if 1 < k then read_separator CHR '':'' i read_ipv4_addr s else None) of
        Some (v4, r) \<Rightarrow> (pair_up (octets4 v4), True, r)
      | None \<Rightarrow>
          (case read_separator CHR '':'' i (read_number 16 4 True 65536) s of
             Some (g, r) \<Rightarrow> (case read_groups (Suc i) (k - 1) r of (gs, v4, r') \<Rightarrow> (g # gs, v4, r'))
           | None \<Rightarrow> ([], False, s)))"
proof -
  assume "0 < k"
  then obtain j where k: "k = Suc j" by (cases k) auto
  show ?thesis unfolding k diff_Suc_1 by simp
qed

lemma replicate_5: "replicate 5 (0 :: nat) = [0, 0, 0, 0, 0]"
  by (simp add: numeral_eq_Suc)

lemma read_ipv4_not_digit: "\<not> is_digit 10 c \<Longrightarrow> read_ipv4_addr (c # s) = None"
proof -
  assume "\<not> is_digit 10 c"
  then have "read_separator CHR ''.'' 0 (read_number 10 3 False 256) (c # s) = None"
    by (simp add: read_separator_def read_number_def)
  then have "read_octets 0 (Suc 3) (c # s) = None" by (simp only: read_octets.simps) simp
  then show ?thesis by (simp add: read_ipv4_addr_def)
qed

lemma ffff_digits: "to_radix 16 65535 = ''ffff''"
  by (simp add: to_radix.simps hex_digit_def)

lemma read_groups_mapped:
  "read_groups 0 7 (''ffff:'' @ show_ipv4 v) = (65535 # pair_up (octets4 v), True, [])"
proof -
  let ?t = "CHR '':'' # show_ipv4 v"
  have "\<not> is_digit 10 CHR ''f''" by (simp add: is_digit_def to_digit_def)
  then have v: "read_separator CHR '':'' 0 read_ipv4_addr (''ffff'' @ ?t) = None"
    by (simp add: read_separator_def read_ipv4_not_digit)
  have "read_number 16 4 True 65536 (to_radix 16 65535 @ ?t) = Some (65535, ?t)"
    by (rule read_number_to_radix) simp_all
  then have n: "read_separator CHR '':'' 0 (read_number 16 4 True 65536) (''ffff'' @ ?t) = Some (65535, ?t)"
    by (simp add: read_separator_def ffff_digits)
  have "read_separator CHR '':'' 1 read_ipv4_addr ?t = Some (v, [])"
    using read_ipv4_show [of "[]" v] by (simp add: read_separator_def read_given_char_def)
  then have "read_groups 1 6 ?t = (pair_up (octets4 v), True, [])"
    by (simp add: read_groups_pos)
  with v n show ?thesis by (simp add: read_groups_pos [of 7])
qed

lemma read_ipv6_mapped:
  "read_ipv6_addr (''::ffff:'' @ show_ipv4 v) =
     Some (from_segments (replicate 5 0 @ 65535 # pair_up (octets4 v)), [])"
proof -
  let ?t = "''ffff:'' @ show_ipv4 v"
  have "read_separator CHR '':'' 0 (read_number 16 4 True 65536) (''::'' @ ?t) = None"
    by (simp add: read_separator_def read_number_def)
  moreover have "read_separator CHR '':'' 0 read_ipv4_addr (''::'' @ ?t) = None"
    by (simp add: read_separator_def read_ipv4_not_digit)
  ultimately have "read_groups 0 8 (''::'' @ ?t) = ([], False, ''::'' @ ?t)"
    by (simp add: read_groups_pos [of 8])
  then show ?thesis
    using read_groups_mapped [of v] by (simp add: read_ipv6_addr_def read_given_char_def length_pair_up)
qed

lemma read_ipv6_show: "read_ipv6_addr (show_ipv6 a) = Some (a, [])"
proof (cases "take 6 (segments a) = [0, 0, 0, 0, 0, 65535]")
  case True
  then have "replicate 5 0 @ 65535 # drop 6 (segments a) = segments a"
    using append_take_drop_id [of 6 "segments a"] by (simp add: replicate_5 del: append_take_drop_id)
  then have "from_segments (replicate 5 0 @ 65535 # drop 6 (segments a)) = a" by simp
  with True show ?thesis
    using read_ipv6_mapped [of "from_be_bytes (drop 12 (octets16 a))"]
    by (simp add: show_ipv6_def octets_of_tail segments_tail)
next
  case False
  obtain start len where z: "zero_span 0 (0, 0) (0, 0) (segments a) = (start, len)" by fastforce
  have "zeros_at (segments a) (start, len)"
    using zero_span_zeros [of "segments a" "(0, 0)" 0 "segments a" 0 0] z by (simp add: zeros_at_def)
  then have gs: "segments a = take start (segments a) @ replicate len 0 @ drop (start + len) (segments a)"
    and l: "start + len \<le> 8"
    by (auto simp: zeros_at_split [symmetric]) (simp add: zeros_at_def)
  have b: "\<forall>g \<in> set (segments a). g < 65536" by (simp add: segments_bound)
  show ?thesis
  proof (cases "1 < len")
    case True
    have "read_ipv6_addr (show_ipv6 a) =
        Some (from_segments (take start (segments a) @ replicate len 0 @ drop (start + len) (segments a)), [])"
      using read_ipv6_compressed [of "take start (segments a)" "drop (start + len) (segments a)"]
        b l True False z by (auto simp: show_ipv6_def Let_def min_def dest: in_set_takeD in_set_dropD)
    then show ?thesis by (simp only: gs [symmetric] from_segments_inv)
  next
    case len: False
    with False z read_ipv6_full [OF b] show ?thesis by (simp add: show_ipv6_def Let_def)
  qed
qed

lemma show_segments_no_dot: "CHR ''.'' \<notin> set (show_segments gs)" "CHR ''/'' \<notin> set (show_segments gs)"
  using group_text_chars [of 0 gs] by (simp_all add: group_text_0)

lemma read_ipv4_show_ipv6: "read_ipv4_addr (show_ipv6 a) = None"
proof (cases "take 6 (segments a) = [0, 0, 0, 0, 0, 65535]")
  case True
  then show ?thesis by (simp add: show_ipv6_def read_ipv4_not_digit)
next
  case False
  then show ?thesis
    by (intro read_ipv4_no_dot) (auto simp: show_ipv6_def Let_def show_segments_no_dot split: prod.splits)
qed

text \<open>Every address is read back from its printed form.\<close>

lemma parse_show_ip_addr: "parse_ip_addr (show_ip_addr ip) = Some ip"
proof (cases ip)
  case (V4 a)
  then show ?thesis using read_ipv4_show [of "[]" a] by (simp add: parse_ip_addr_def)
next
  case (V6 a)
  then show ?thesis by (simp add: parse_ip_addr_def read_ipv4_show_ipv6 read_ipv6_show)
qed

text \<open>The characters of a printed address.\<close>

lemma joined_chars: "c \<noteq> d \<Longrightarrow> \<forall>p \<in> set ps. d \<notin> set p \<Longrightarrow> d \<notin> set (joined c ps)"
  by (induction c ps rule: joined.induct) auto

lemma digit_10_16: "is_digit 10 c \<Longrightarrow> is_digit 16 c"
  by (auto simp: is_digit_def to_digit_def Let_def split: if_splits)

lemma to_radix_not_in: "b = 10 \<or> b = 16 \<Longrightarrow> \<not> is_digit 16 c \<Longrightarrow> c \<notin> set (to_radix b n)"
  using to_radix_digits [of 10 n] to_radix_digits [of 16 n] digit_10_16 [of c] not_digit_notin by fastforce

lemma show_ip_addr_chars:
  assumes "\<not> is_digit 16 c" "c \<noteq> CHR ''.''" "c \<noteq> CHR '':''"
  shows "c \<notin> set (show_ip_addr ip)"
proof -
  have v4: "c \<notin> set (show_ipv4 a)" for a
    unfolding show_ipv4_def using assms by (intro joined_chars) (auto simp: to_radix_not_in)
  have segs: "c \<notin> set (show_segments gs)" for gs
    unfolding show_segments_def using assms by (intro joined_chars) (auto simp: to_radix_not_in)
  have "is_digit 16 CHR ''f''" by (simp add: is_digit_def to_digit_def)
  with assms v4 segs show ?thesis by (cases ip) (auto simp: show_ipv6_def Let_def split: prod.splits)
qed

lemma show_ip_addr_not_Nil: "show_ip_addr ip \<noteq> []"
proof
  assume "show_ip_addr ip = []"
  with parse_show_ip_addr [of ip] have "parse_ip_addr [] = Some ip" by simp
  moreover have "read_groups 0 8 [] = ([], False, [])"
    using read_groups_text [of "[]" 8 "[]" 0] by (simp add: blocked_Nil)
  ultimately show False
    by (simp add: parse_ip_addr_def read_ipv4_no_dot read_ipv6_addr_def read_given_char_def)
qed

end
