(* ===== verification/Device.thy ===== *)
theory Device
  imports Stack_Data Text
begin

text \<open>
  The smoltcp device of \<^verbatim>\<open>src/stack/device.rs\<close>: the two frame channels to and from the IPC
  tasks, the tokens smoltcp consumes, the counters, and the line that is traced of a frame.
\<close>

record 'f proxy_device =
  pd_rx :: 'f
  pd_tx :: 'f
  pd_mtu :: nat

datatype medium = Ethernet

record device_capabilities =
  cap_medium :: medium
  cap_max_transmission_unit :: nat

definition proxy_device_new :: "'f \<Rightarrow> 'f \<Rightarrow> nat \<Rightarrow> 'f proxy_device" where
  "proxy_device_new rx tx mtu = \<lparr>pd_rx = rx, pd_tx = tx, pd_mtu = mtu\<rparr>"

definition capabilities :: "'f proxy_device \<Rightarrow> device_capabilities" where
  "capabilities d = \<lparr>cap_medium = Ethernet, cap_max_transmission_unit = pd_mtu d\<rparr>"

text \<open>An \<^verbatim>\<open>RxToken\<close> is the frame it holds, a \<^verbatim>\<open>TxToken\<close> only refers to the device.\<close>

datatype rx_token = ProxyRxToken bytes

datatype tx_token = ProxyTxToken

definition device_receive ::
    "('f, bytes) mpsc \<Rightarrow> 'f proxy_device \<Rightarrow> tunnel_stats \<Rightarrow>
     (rx_token \<times> tx_token) option \<times> 'f proxy_device \<times> tunnel_stats" where
  "device_receive C d st =
     (case try_recv C (pd_rx d) of
        (RecvOk frame, rx') \<Rightarrow>
          (Some (ProxyRxToken frame, ProxyTxToken), d\<lparr>pd_rx := rx'\<rparr>,
           st\<lparr>device_rx_frames := device_rx_frames st + 1\<rparr>)
      | (RecvEmpty, rx') \<Rightarrow> (None, d\<lparr>pd_rx := rx'\<rparr>, st)
      | (RecvDisconnected, rx') \<Rightarrow> (None, d\<lparr>pd_rx := rx'\<rparr>, st))"

definition device_transmit :: "'f proxy_device \<Rightarrow> tx_token option" where
  "device_transmit d = Some ProxyTxToken"

fun rx_consume :: "rx_token \<Rightarrow> (bytes \<Rightarrow> 'r) \<Rightarrow> 'r" where
  "rx_consume (ProxyRxToken frame) f = f frame"

text \<open>\<open>fill\<close> is the closure that writes the frame: its result and the buffer as it leaves it.\<close>

definition tx_consume ::
    "('f, bytes) mpsc \<Rightarrow> nat \<Rightarrow> (bytes \<Rightarrow> 'r \<times> bytes) \<Rightarrow> 'f proxy_device \<Rightarrow> tunnel_stats \<Rightarrow>
     'r \<times> 'f proxy_device \<times> tunnel_stats" where
  "tx_consume C len fill d st =
     (let (result, buffer) = fill (replicate len 0)
      in case try_send C (pd_tx d) buffer of
           (SendOk, tx') \<Rightarrow>
             (result, d\<lparr>pd_tx := tx'\<rparr>, st\<lparr>device_tx_frames := device_tx_frames st + 1\<rparr>)
         | (_, tx') \<Rightarrow>
             (result, d\<lparr>pd_tx := tx'\<rparr>, st\<lparr>device_tx_dropped := device_tx_dropped st + 1\<rparr>))"

section \<open>Tracing\<close>

text \<open>
  smoltcp's packet views: \<open>None\<close> is a packet \<^verbatim>\<open>new_checked\<close> or \<^verbatim>\<open>parse\<close> rejects. The last two
  are the debug texts of a protocol number.
\<close>

datatype ethernet_protocol = ProtocolIpv4 | ProtocolArp | ProtocolIpv6 | ProtocolUnknown u16

datatype arp_operation = ArpRequest | ArpReply | ArpUnknown u16

datatype arp_repr = EthernetIpv4 arp_operation u32 u32

record ('e, 'i, 'a) packet_api =
  ethernet_checked :: "bytes \<Rightarrow> 'e option"
  ethertype :: "'e \<Rightarrow> ethernet_protocol"
  ethernet_payload :: "'e \<Rightarrow> bytes"
  ipv4_checked :: "bytes \<Rightarrow> 'i option"
  ipv4_src_addr :: "'i \<Rightarrow> u32"
  ipv4_dst_addr :: "'i \<Rightarrow> u32"
  ipv4_next_header :: "'i \<Rightarrow> string"
  arp_checked :: "bytes \<Rightarrow> 'a option"
  arp_parse :: "'a \<Rightarrow> arp_repr option"
  protocol_text :: "ethernet_protocol \<Rightarrow> string"

fun arp_op_str :: "arp_operation \<Rightarrow> string" where
  "arp_op_str ArpRequest = ''Request''"
| "arp_op_str ArpReply = ''Reply''"
| "arp_op_str (ArpUnknown _) = ''Unknown''"

definition log_frame :: "('e, 'i, 'a) packet_api \<Rightarrow> bool \<Rightarrow> string \<Rightarrow> bytes \<Rightarrow> string option" where
  "log_frame A trace_enabled direction frame =
     (if \<not> trace_enabled then None
      else
        (let head = direction @ '' '' @ dec (length frame) @ '' bytes: ''
         in case ethernet_checked A frame of
              None \<Rightarrow> Some (head @ ''(invalid frame)'')
            | Some eth \<Rightarrow>
                (case ethertype A eth of
                   ProtocolIpv4 \<Rightarrow>
                     (case ipv4_checked A (ethernet_payload A eth) of
                        Some ip \<Rightarrow>
                          Some (head @ ''IPv4 '' @ show_ip_addr (V4 (ipv4_src_addr A ip)) @ '' -> '' @
                            show_ip_addr (V4 (ipv4_dst_addr A ip)) @ '' proto='' @ ipv4_next_header A ip)
                      | None \<Rightarrow> Some (head @ ''IPv4 (malformed)''))
                 | ProtocolArp \<Rightarrow>
                     (case Option.bind (arp_checked A (ethernet_payload A eth)) (arp_parse A) of
                        Some (EthernetIpv4 operation source target) \<Rightarrow>
                          Some (head @ ''ARP '' @ show_ip_addr (V4 source) @ '' -> '' @ show_ip_addr (V4 target) @
                            '' '' @ arp_op_str operation)
                      | None \<Rightarrow> Some (head @ ''ARP (malformed)''))
                 | ProtocolIpv6 \<Rightarrow> Some (head @ ''IPv6'')
                 | other \<Rightarrow> Some (head @ ''ethertype='' @ protocol_text A other))))"

section \<open>What the device moves\<close>

text \<open>Transmitting frames one after the other, each through its own token.\<close>

fun transmit_all ::
    "('f, bytes) mpsc \<Rightarrow> bytes list \<Rightarrow> 'f proxy_device \<Rightarrow> tunnel_stats \<Rightarrow> 'f proxy_device \<times> tunnel_stats" where
  "transmit_all C [] d st = (d, st)"
| "transmit_all C (f # fs) d st =
     (case tx_consume C (length f) (\<lambda>buffer. ((), f)) d st of
        (_, d', st') \<Rightarrow> transmit_all C fs d' st')"

text \<open>Receiving until there is nothing more, at most \<open>n\<close> times.\<close>

fun receive_all ::
    "('f, bytes) mpsc \<Rightarrow> nat \<Rightarrow> 'f proxy_device \<Rightarrow> tunnel_stats \<Rightarrow> bytes list \<times> 'f proxy_device \<times> tunnel_stats" where
  "receive_all C 0 d st = ([], d, st)"
| "receive_all C (Suc n) d st =
     (case device_receive C d st of
        (Some (rx, tx), d', st') \<Rightarrow>
          (case receive_all C n d' st' of (fs, d'', st'') \<Rightarrow> (rx_consume rx (\<lambda>f. f) # fs, d'', st''))
      | (None, d', st') \<Rightarrow> ([], d', st'))"

lemma try_send_view:
  assumes "mpsc_refines C view"
  obtains c' where "try_send C c a = (fst (chan_try_send (view c) a), c')"
    "view c' = snd (chan_try_send (view c) a)"
  using mpsc_try_send [OF assms, of c a] that
  by (cases "try_send C c a") (metis apsnd_conv fst_conv snd_conv)

text \<open>
  Frames handed to the device go to the proxy's channel whole and in order until it is full
  or closed; the rest are dropped, and the two counters say exactly how many of each.
\<close>

lemma device_transmit_accounts:
  assumes "mpsc_refines C view" and "n = min (room (view (pd_tx d))) (length fs)"
  shows "\<exists>d' st'. transmit_all C fs d st = (d', st') \<and> pd_rx d' = pd_rx d \<and>
     view (pd_tx d') = (view (pd_tx d))\<lparr>queue := queue (view (pd_tx d)) @ take n fs\<rparr> \<and>
     st' = st\<lparr>device_tx_frames := device_tx_frames st + of_nat n,
              device_tx_dropped := device_tx_dropped st + of_nat (length fs - n)\<rparr>"
  using assms(2)
proof (induction fs arbitrary: d st n)
  case Nil
  then show ?case by simp
next
  case (Cons f fs)
  obtain c' where c': "try_send C (pd_tx d) f = (fst (chan_try_send (view (pd_tx d)) f), c')"
    "view c' = snd (chan_try_send (view (pd_tx d)) f)" using try_send_view [OF assms(1)] by blast
  show ?case
  proof (cases "room (view (pd_tx d)) = 0")
    case True
    then have r: "fst (chan_try_send (view (pd_tx d)) f) \<noteq> SendOk" "view c' = view (pd_tx d)"
      using c'(2) by (auto simp: room_def chan_try_send_def split: if_splits)
    let ?st = "st\<lparr>device_tx_dropped := device_tx_dropped st + 1\<rparr>"
    from r(1) c'(1) have "tx_consume C (length f) (\<lambda>buffer. ((), f)) d st = ((), d\<lparr>pd_tx := c'\<rparr>, ?st)"
      by (auto simp: tx_consume_def split: try_send_result.split)
    moreover from Cons.IH [of 0 "d\<lparr>pd_tx := c'\<rparr>" ?st] True r(2) Cons.prems
    have "\<exists>d' st'. transmit_all C fs (d\<lparr>pd_tx := c'\<rparr>) ?st = (d', st') \<and> pd_rx d' = pd_rx d \<and>
       view (pd_tx d') = view (pd_tx d) \<and>
       st' = ?st\<lparr>device_tx_dropped := device_tx_dropped ?st + of_nat (length fs)\<rparr>" by auto
    ultimately show ?thesis using Cons.prems True by (auto simp: algebra_simps)
  next
    case False
    then have r: "fst (chan_try_send (view (pd_tx d)) f) = SendOk"
      "view c' = (view (pd_tx d))\<lparr>queue := queue (view (pd_tx d)) @ [f]\<rparr>"
      using c'(2) by (auto simp: room_def chan_try_send_def split: if_splits)
    let ?st = "st\<lparr>device_tx_frames := device_tx_frames st + 1\<rparr>"
    from r(1) c'(1) have t: "tx_consume C (length f) (\<lambda>buffer. ((), f)) d st = ((), d\<lparr>pd_tx := c'\<rparr>, ?st)"
      by (simp add: tx_consume_def)
    from False r(2) Cons.prems obtain m where
      m: "n = Suc m" "m = min (room (view c')) (length fs)"
      by (auto simp: room_def split: if_splits)
    from Cons.IH [of m "d\<lparr>pd_tx := c'\<rparr>" ?st] m(2) t r(2) m(1) show ?thesis
      by (auto simp: algebra_simps)
  qed
qed

text \<open>Witness: three frames, room for two.\<close>

lemma device_transmit_accounts_witness:
  "\<exists>d' st'. transmit_all chan_mpsc [[1], [2], [3]] (proxy_device_new (chan_new 2) (chan_new 2) 1514) stats_default
       = (d', st') \<and> queue (pd_tx d') = [[1], [2]] \<and> device_tx_dropped st' = 1"
proof -
  let ?d = "proxy_device_new (chan_new 2) (chan_new 2) 1514 :: bytes chan proxy_device"
  have "2 = min (room (id (pd_tx ?d))) (length [[1], [2], [3]])"
    by (simp add: proxy_device_new_def room_def chan_new_def)
  from device_transmit_accounts [OF chan_mpsc_refines this, of stats_default] show ?thesis
    by (auto simp: proxy_device_new_def chan_new_def stats_default_def)
qed

text \<open>
  smoltcp gets the frames of the IPC reader whole and in order, one per call, each
  counted, and a call on an empty or abandoned channel gives nothing.
\<close>

lemma device_receive_accounts:
  assumes "mpsc_refines C view" and "frames = take n (queue (view (pd_rx d)))"
  shows "\<exists>d' st'. receive_all C n d st = (frames, d', st') \<and> pd_tx d' = pd_tx d \<and>
     view (pd_rx d') = (view (pd_rx d))\<lparr>queue := drop n (queue (view (pd_rx d)))\<rparr> \<and>
     st' = st\<lparr>device_rx_frames := device_rx_frames st + of_nat (length frames)\<rparr>"
  using assms(2)
proof (induction n arbitrary: d st frames)
  case 0
  then show ?case by simp
next
  case (Suc n)
  from assms(1) show ?case
  proof (cases rule: try_recv_cases [where c = "pd_rx d"])
    case (ok x c' xs)
    let ?d = "d\<lparr>pd_rx := c'\<rparr>" and ?st = "st\<lparr>device_rx_frames := device_rx_frames st + 1\<rparr>"
    from Suc.IH [of "take n xs" ?d ?st] ok(2,3) obtain d' st' where
      "receive_all C n ?d ?st = (take n xs, d', st')" "pd_tx d' = pd_tx d"
      "view (pd_rx d') = (view (pd_rx d))\<lparr>queue := drop n xs\<rparr>"
      "st' = ?st\<lparr>device_rx_frames := device_rx_frames ?st + of_nat (length (take n xs))\<rparr>" by auto
    with ok Suc.prems show ?thesis by (simp add: device_receive_def algebra_simps)
  qed (use Suc.prems in \<open>simp_all add: device_receive_def\<close>)
qed

lemma device_receive_accounts_witness:
  "\<exists>d' st'. receive_all chan_mpsc 5 (proxy_device_new ((chan_new 2)\<lparr>queue := [[1], [2]]\<rparr>) (chan_new 2) 1514) stats_default
       = ([[1], [2]], d', st') \<and> device_rx_frames st' = 2"
proof -
  let ?d = "proxy_device_new ((chan_new 2)\<lparr>queue := [[1], [2]]\<rparr>) (chan_new 2) 1514 :: bytes chan proxy_device"
  have "[[1], [2]] = take 5 (queue (id (pd_rx ?d)))" by (simp add: proxy_device_new_def)
  from device_receive_accounts [OF chan_mpsc_refines this, of stats_default] show ?thesis
    by (auto simp: stats_default_def)
qed

end
