(* ===== verification/Streams.thy ===== *)
theory Streams
  imports Protocol "HOL-Library.Sublist"
begin

text \<open>
  Byte streams between the two processes as the tasks use them: \<^verbatim>\<open>read_exact\<close>,
  \<^verbatim>\<open>write_all\<close> and \<^verbatim>\<open>flush\<close> of tokio on a socket. They are parameters; what is documented
  of them is stated over the bytes that are still to come on the reading side, and the
  bytes that were accepted on the writing side.
\<close>

section \<open>Reading\<close>

text \<open>
  \<open>view\<close> is everything that arrives before the connection ends. A read of more than is
  left fails; one that can be filled is.
\<close>

definition reads_stream :: "('r \<Rightarrow> nat \<Rightarrow> bytes io_result \<times> 'r) \<Rightarrow> ('r \<Rightarrow> bytes) \<Rightarrow> bool" where
  "reads_stream read_exact view \<longleftrightarrow>
     (\<forall>r n. if n \<le> length (view r)
        then \<exists>r'. read_exact r n = (Inr (take n (view r)), r') \<and> view r' = drop n (view r)
        else \<exists>e r'. read_exact r n = (Inl e, r'))"

lemma reads_stream_cases [consumes 1, case_names filled failed]:
  assumes "reads_stream read_exact view"
  obtains
    (filled) r' where "n \<le> length (view r)" "read_exact r n = (Inr (take n (view r)), r')"
      "view r' = drop n (view r)"
  | (failed) e r' where "length (view r) < n" "read_exact r n = (Inl e, r')"
  using assms unfolding reads_stream_def by (metis linorder_not_le)

lemma slice_reads_stream: "reads_stream slice_read_exact id"
  by (simp add: reads_stream_def slice_read_exact_def)

section \<open>Writing\<close>

text \<open>A write that fails may have written a part of its bytes.\<close>

definition writes_stream ::
    "('w \<Rightarrow> bytes \<Rightarrow> unit io_result \<times> 'w) \<Rightarrow> ('w \<Rightarrow> bytes) \<Rightarrow> bool" where
  "writes_stream write_all view \<longleftrightarrow>
     (\<forall>w bs w'. write_all w bs = (Inr (), w') \<longrightarrow> view w' = view w @ bs) \<and>
     (\<forall>w bs e w'. write_all w bs = (Inl e, w') \<longrightarrow> (\<exists>p. prefix p bs \<and> view w' = view w @ p))"

definition flushes_stream :: "('w \<Rightarrow> unit io_result \<times> 'w) \<Rightarrow> ('w \<Rightarrow> bytes) \<Rightarrow> bool" where
  "flushes_stream flush view \<longleftrightarrow> (\<forall>w. view (snd (flush w)) = view w)"

lemma vec_writes_stream: "writes_stream vec_write_all id"
  by (simp add: writes_stream_def vec_write_all_def)

definition vec_flush :: "bytes \<Rightarrow> unit io_result \<times> bytes" where
  "vec_flush w = (Inr (), w)"

lemma vec_flushes_stream: "flushes_stream vec_flush id"
  by (simp add: flushes_stream_def vec_flush_def)

text \<open>
  The two writes of a message in the tasks, \<^verbatim>\<open>write_all(&len)\<close> and, unless it failed,
  \<^verbatim>\<open>write_all(&msg)\<close>; the result is whether both succeeded.
\<close>

definition write_msg ::
    "('w \<Rightarrow> bytes \<Rightarrow> unit io_result \<times> 'w) \<Rightarrow> 'w \<Rightarrow> bytes \<Rightarrow> bool \<times> 'w" where
  "write_msg write_all w m =
     (let len = to_be_bytes 4 (of_nat (length m) :: u32)
      in case write_all w len of
           (Inl e, w1) \<Rightarrow> (False, w1)
         | (Inr _, w1) \<Rightarrow>
             (case write_all w1 m of
                (Inl e, w2) \<Rightarrow> (False, w2)
              | (Inr _, w2) \<Rightarrow> (True, w2)))"

lemma write_msg_ok:
  assumes "writes_stream write_all view" and "write_msg write_all w m = (True, w')"
  shows "view w' = view w @ framed m"
  using assms by (auto simp: write_msg_def writes_stream_def framed_def Let_def split: prod.splits sum.splits)

end
