(* ===== verification/Ipc_Tasks.thy ===== *)
theory Ipc_Tasks
  imports Streams Stack_State Task_Loop
begin

text \<open>
  The two IPC tasks of the library, spawned by \<^verbatim>\<open>setup_stack_from_fd\<close> in
  \<^verbatim>\<open>src/lib.rs\<close>: the reader takes framed messages off the stream and hands frames to the
  device's channel and responses to the callers that wait for them; the writer frames what
  the device and the callers send. The state of a task is what its closure captured, the
  statistics and the \<open>ipc_dead\<close> flag included.
\<close>

section \<open>The reader task\<close>

record ('r, 'c) ipc_reader =
  ir_reader :: 'r
  ir_msg_buf :: bytes
  ir_frame_tx :: 'c
  ir_pending :: "(u64, response) hash_map"
  ir_replies :: "(response \<times> proxy_response) list"
  ir_stats :: tunnel_stats
  ir_ipc_dead :: bool

definition MSG_BUF_SIZE :: nat where "MSG_BUF_SIZE = 2048"

text \<open>\<^verbatim>\<open>Vec::resize\<close> to more bytes.\<close>

definition vec_grow :: "bytes \<Rightarrow> nat \<Rightarrow> bytes" where
  "vec_grow buf n = (if length buf < n then buf @ replicate (n - length buf) 0 else buf)"

text \<open>What the reader does with a decoded message.\<close>

fun reader_dispatch ::
    "('c, bytes) mpsc \<Rightarrow> (bytes \<Rightarrow> string + proxy_response) \<Rightarrow> message io_result \<Rightarrow>
     ('r, 'c) ipc_reader \<Rightarrow> ('r, 'c) ipc_reader flow" where
  "reader_dispatch C from_slice (Inr (Frame frame)) s =
     (let s1 = s\<lparr>ir_stats := (ir_stats s)\<lparr>ipc_rx_frames := ipc_rx_frames (ir_stats s) + 1\<rparr>\<rparr>
      in case try_send C (ir_frame_tx s1) frame of
           (SendOk, c) \<Rightarrow> Continue (s1\<lparr>ir_frame_tx := c\<rparr>)
         | (SendFull, c) \<Rightarrow>
             Continue (s1\<lparr>ir_frame_tx := c,
               ir_stats := (ir_stats s1)\<lparr>ipc_rx_dropped := ipc_rx_dropped (ir_stats s1) + 1\<rparr>\<rparr>)
         | (SendClosed, c) \<Rightarrow> Return (s1\<lparr>ir_frame_tx := c\<rparr>))"
| "reader_dispatch C from_slice (Inr (Control payload)) s =
     (case decode_control from_slice payload of
        Inl _ \<Rightarrow> Continue s
      | Inr resp \<Rightarrow>
          (case map_of (ir_pending s) (resp_id resp) of
             None \<Rightarrow> Continue s
           | Some tx \<Rightarrow>
               Continue (s\<lparr>ir_pending := hm_remove (resp_id resp) (ir_pending s),
                 ir_replies := ir_replies s @ [(tx, resp)]\<rparr>)))"
| "reader_dispatch C from_slice (Inl _) s = Continue s"

definition ipc_reader_iteration ::
    "('r \<Rightarrow> nat \<Rightarrow> bytes io_result \<times> 'r) \<Rightarrow> ('c, bytes) mpsc \<Rightarrow> (bytes \<Rightarrow> string + proxy_response) \<Rightarrow>
     ('r, 'c) ipc_reader \<Rightarrow> ('r, 'c) ipc_reader flow" where
  "ipc_reader_iteration read_exact C from_slice s =
     (case read_exact (ir_reader s) 4 of
        (Inl e, r1) \<Rightarrow> Return (s\<lparr>ir_reader := r1, ir_ipc_dead := True\<rparr>)
      | (Inr len_buf, r1) \<Rightarrow>
          (let msg_len = unat (from_be_bytes len_buf :: u32);
               msg_buf = vec_grow (ir_msg_buf s) msg_len
           in case read_exact r1 msg_len of
                (Inl e, r2) \<Rightarrow> Return (s\<lparr>ir_reader := r2, ir_msg_buf := msg_buf, ir_ipc_dead := True\<rparr>)
              | (Inr body, r2) \<Rightarrow>
                  (let msg_buf1 = body @ drop msg_len msg_buf
                   in reader_dispatch C from_slice (decode_message (take msg_len msg_buf1))
                        (s\<lparr>ir_reader := r2, ir_msg_buf := msg_buf1\<rparr>))))"

text \<open>
  Between two messages the other tasks run: callers register responses they wait for, and
  the stack's device takes frames from the channel. \<open>rd_taken\<close> is how many it takes.
\<close>

record reader_input =
  rd_registered :: "(u64 \<times> response) list"
  rd_taken :: nat

fun register_all :: "(u64 \<times> response) list \<Rightarrow> (u64, response) hash_map \<Rightarrow> (u64, response) hash_map" where
  "register_all [] m = m"
| "register_all ((i, r) # rs) m = register_all rs (hm_insert i r m)"

fun take_frames :: "('c, bytes) mpsc \<Rightarrow> nat \<Rightarrow> 'c \<Rightarrow> 'c" where
  "take_frames C 0 c = c"
| "take_frames C (Suc n) c = take_frames C n (snd (try_recv C c))"

definition reader_interference ::
    "('c, bytes) mpsc \<Rightarrow> reader_input \<Rightarrow> ('r, 'c) ipc_reader \<Rightarrow> ('r, 'c) ipc_reader" where
  "reader_interference C i s =
     s\<lparr>ir_pending := register_all (rd_registered i) (ir_pending s),
       ir_frame_tx := take_frames C (rd_taken i) (ir_frame_tx s)\<rparr>"

definition reader_step ::
    "('r \<Rightarrow> nat \<Rightarrow> bytes io_result \<times> 'r) \<Rightarrow> ('c, bytes) mpsc \<Rightarrow> (bytes \<Rightarrow> string + proxy_response) \<Rightarrow>
     reader_input \<Rightarrow> ('r, 'c) ipc_reader \<Rightarrow> ('r, 'c) ipc_reader flow option" where
  "reader_step read_exact C from_slice i s =
     Some (ipc_reader_iteration read_exact C from_slice (reader_interference C i s))"

section \<open>The writer task\<close>

record ('w, 'c, 'k) ipc_writer =
  iw_writer :: 'w
  iw_frame_rx :: 'c
  iw_control_rx :: 'k
  iw_stats :: tunnel_stats
  iw_ipc_dead :: bool

definition count_tx_frame :: "('w, 'c, 'k) ipc_writer \<Rightarrow> ('w, 'c, 'k) ipc_writer" where
  "count_tx_frame s = s\<lparr>iw_stats := (iw_stats s)\<lparr>ipc_tx_frames := ipc_tx_frames (iw_stats s) + 1\<rparr>\<rparr>"

definition count_tx_error :: "('w, 'c, 'k) ipc_writer \<Rightarrow> ('w, 'c, 'k) ipc_writer" where
  "count_tx_error s = s\<lparr>iw_stats := (iw_stats s)\<lparr>ipc_tx_errors := ipc_tx_errors (iw_stats s) + 1\<rparr>,
     iw_ipc_dead := True\<rparr>"

text \<open>
  \<^verbatim>\<open>tokio::select!\<close> takes a branch whose receive is ready. The input says which one it
  looks at; a branch that is not ready leaves the task waiting (\<open>Waiting\<close>).
\<close>

datatype writer_wake = WakeFrame | WakeControl

datatype 's selected = Selected 's | Waiting 's | Break 's

fun writer_select ::
    "('w \<Rightarrow> bytes \<Rightarrow> unit io_result \<times> 'w) \<Rightarrow> ('c, bytes) mpsc \<Rightarrow> ('k, bytes) mpsc \<Rightarrow> writer_wake \<Rightarrow>
     ('w, 'c, 'k) ipc_writer \<Rightarrow> ('w, 'c, 'k) ipc_writer selected" where
  "writer_select write_all C K WakeFrame s =
     (case try_recv C (iw_frame_rx s) of
        (RecvOk frame, c) \<Rightarrow>
          (let s1 = s\<lparr>iw_frame_rx := c\<rparr>; m = encode_frame frame
           in case write_msg write_all (iw_writer s1) m of
                (ok, w) \<Rightarrow>
                  if ok then Selected (count_tx_frame (s1\<lparr>iw_writer := w\<rparr>))
                  else Break (count_tx_error (s1\<lparr>iw_writer := w\<rparr>)))
      | (RecvEmpty, c) \<Rightarrow> Waiting (s\<lparr>iw_frame_rx := c\<rparr>)
      | (RecvDisconnected, c) \<Rightarrow> Break (s\<lparr>iw_frame_rx := c\<rparr>))"
| "writer_select write_all C K WakeControl s =
     (case try_recv K (iw_control_rx s) of
        (RecvOk m, k) \<Rightarrow>
          (let s1 = s\<lparr>iw_control_rx := k\<rparr>
           in case write_msg write_all (iw_writer s1) m of
                (ok, w) \<Rightarrow>
                  if ok then Selected (s1\<lparr>iw_writer := w\<rparr>)
                  else Break (s1\<lparr>iw_writer := w, iw_ipc_dead := True\<rparr>))
      | (RecvEmpty, k) \<Rightarrow> Waiting (s\<lparr>iw_control_rx := k\<rparr>)
      | (RecvDisconnected, k) \<Rightarrow> Break (s\<lparr>iw_control_rx := k\<rparr>))"

text \<open>The two drain loops; an error leaves the loop it is in, and only that loop.\<close>

partial_function (option) drain_frames ::
    "('w \<Rightarrow> bytes \<Rightarrow> unit io_result \<times> 'w) \<Rightarrow> ('c, bytes) mpsc \<Rightarrow>
     ('w, 'c, 'k) ipc_writer \<Rightarrow> ('w, 'c, 'k) ipc_writer option" where
  "drain_frames write_all C s =
     (case try_recv C (iw_frame_rx s) of
        (RecvOk frame, c) \<Rightarrow>
          (let s1 = s\<lparr>iw_frame_rx := c\<rparr>; m = encode_frame frame
           in case write_msg write_all (iw_writer s1) m of
                (ok, w) \<Rightarrow>
                  if ok then drain_frames write_all C (count_tx_frame (s1\<lparr>iw_writer := w\<rparr>))
                  else Some (count_tx_error (s1\<lparr>iw_writer := w\<rparr>)))
      | (RecvEmpty, c) \<Rightarrow> Some (s\<lparr>iw_frame_rx := c\<rparr>)
      | (RecvDisconnected, c) \<Rightarrow> Some (s\<lparr>iw_frame_rx := c\<rparr>))"

partial_function (option) drain_controls ::
    "('w \<Rightarrow> bytes \<Rightarrow> unit io_result \<times> 'w) \<Rightarrow> ('k, bytes) mpsc \<Rightarrow>
     ('w, 'c, 'k) ipc_writer \<Rightarrow> ('w, 'c, 'k) ipc_writer option" where
  "drain_controls write_all K s =
     (case try_recv K (iw_control_rx s) of
        (RecvOk m, k) \<Rightarrow>
          (let s1 = s\<lparr>iw_control_rx := k\<rparr>
           in case write_msg write_all (iw_writer s1) m of
                (ok, w) \<Rightarrow>
                  if ok then drain_controls write_all K (s1\<lparr>iw_writer := w\<rparr>)
                  else Some (s1\<lparr>iw_writer := w, iw_ipc_dead := True\<rparr>))
      | (RecvEmpty, k) \<Rightarrow> Some (s\<lparr>iw_control_rx := k\<rparr>)
      | (RecvDisconnected, k) \<Rightarrow> Some (s\<lparr>iw_control_rx := k\<rparr>))"

definition ipc_writer_iteration ::
    "('w \<Rightarrow> bytes \<Rightarrow> unit io_result \<times> 'w) \<Rightarrow> ('w \<Rightarrow> unit io_result \<times> 'w) \<Rightarrow>
     ('c, bytes) mpsc \<Rightarrow> ('k, bytes) mpsc \<Rightarrow> writer_wake \<Rightarrow>
     ('w, 'c, 'k) ipc_writer \<Rightarrow> ('w, 'c, 'k) ipc_writer flow option" where
  "ipc_writer_iteration write_all flush C K i s =
     (case writer_select write_all C K i s of
        Waiting s1 \<Rightarrow> Some (Continue s1)
      | Break s1 \<Rightarrow> Some (Return s1)
      | Selected s1 \<Rightarrow> do {
          s2 \<leftarrow> drain_frames write_all C s1;
          s3 \<leftarrow> drain_controls write_all K s2;
          Some (case flush (iw_writer s3) of
                  (Inl e, w) \<Rightarrow> Return (s3\<lparr>iw_writer := w, iw_ipc_dead := True\<rparr>)
                | (Inr _, w) \<Rightarrow> Continue (s3\<lparr>iw_writer := w\<rparr>))
        })"

section \<open>Lemmas: the reader\<close>

text \<open>The frames among the messages of a stream.\<close>

fun frames_of :: "bytes list \<Rightarrow> bytes list" where
  "frames_of [] = []"
| "frames_of (m # ms) =
     (case decode_message m of Inr (Frame f) \<Rightarrow> f # frames_of ms | _ \<Rightarrow> frames_of ms)"

lemma take_frames_view:
  assumes "mpsc_refines C view"
  shows "view (take_frames C n c) = (view c)\<lparr>queue := drop n (queue (view c))\<rparr>"
proof (induction n arbitrary: c)
  case 0
  then show ?case by simp
next
  case (Suc n)
  from assms show ?case
    by (cases rule: try_recv_cases [where c = c]) (simp_all add: Suc.IH)
qed

lemma unat_frame_len: "length m < 2 ^ 32 \<Longrightarrow> unat (of_nat (length m) :: u32) = length m"
  by (simp add: unat_of_nat)

lemma reader_iteration_framed:
  assumes "reads_stream rd rv" and "rv (ir_reader s) = framed m @ rest" and "length m < 2 ^ 32"
  shows "\<exists>r buf. rv r = rest \<and> ipc_reader_iteration rd C from_slice s =
    reader_dispatch C from_slice (decode_message m) (s\<lparr>ir_reader := r, ir_msg_buf := buf\<rparr>)"
proof -
  let ?len = "to_be_bytes 4 (of_nat (length m) :: u32)"
  from assms(1) obtain r1 where r1: "rd (ir_reader s) 4 = (Inr ?len, r1)" "rv r1 = m @ rest"
    by (cases rule: reads_stream_cases [where r = "ir_reader s" and n = 4])
       (use assms(2) in \<open>auto simp: framed_def\<close>)
  from assms(1) obtain r2 where r2: "rd r1 (length m) = (Inr m, r2)" "rv r2 = rest"
    by (cases rule: reads_stream_cases [where r = r1 and n = "length m"]) (use r1 in auto)
  have len: "unat (from_be_bytes ?len :: u32) = length m"
    using assms(3) by (simp add: from_to_be_bytes unat_frame_len)
  from r1 r2 len show ?thesis
    by (intro exI [of _ r2] exI) (simp add: ipc_reader_iteration_def Let_def)
qed

text \<open>What one message does to the channel of frames and to the counters.\<close>

definition frame_kept :: "'c \<Rightarrow> ('c \<Rightarrow> bytes chan) \<Rightarrow> bytes list \<Rightarrow> bytes list" where
  "frame_kept c cv fs = (if length (queue (cv c)) < capacity (cv c) then fs else [])"

lemma reader_dispatch_effect:
  assumes "mpsc_refines C cv" and "has_receiver (cv (ir_frame_tx s))"
  obtains s' where "reader_dispatch C from_slice (decode_message m) s = Continue s'"
    "ir_reader s' = ir_reader s" "ir_ipc_dead s' = ir_ipc_dead s"
    "cv (ir_frame_tx s') = (cv (ir_frame_tx s))\<lparr>queue :=
       queue (cv (ir_frame_tx s)) @ frame_kept (ir_frame_tx s) cv (frames_of [m])\<rparr>"
    "ipc_rx_frames (ir_stats s') = ipc_rx_frames (ir_stats s) + of_nat (length (frames_of [m]))"
    "ipc_rx_dropped (ir_stats s') + of_nat (length (frame_kept (ir_frame_tx s) cv (frames_of [m]))) =
       ipc_rx_dropped (ir_stats s) + of_nat (length (frames_of [m]))"
proof (cases "decode_message m")
  case (Inl e)
  with that [of s] show thesis by (simp add: frame_kept_def)
next
  case (Inr d)
  show thesis
  proof (cases d)
    case (Control payload)
    have unchanged: "s = s\<lparr>ir_pending := ir_pending s, ir_replies := ir_replies s\<rparr>" by simp
    have "\<exists>p q. reader_dispatch C from_slice (Inr (Control payload)) s =
        Continue (s\<lparr>ir_pending := p, ir_replies := q\<rparr>)"
      by (cases "decode_control from_slice payload"; cases "map_of (ir_pending s) (resp_id (projr (decode_control from_slice payload)))")
         (auto, (use unchanged in blast)+)
    then obtain p q where "reader_dispatch C from_slice (Inr (Control payload)) s =
        Continue (s\<lparr>ir_pending := p, ir_replies := q\<rparr>)" by blast
    with Inr Control show thesis
      by (intro that [of "s\<lparr>ir_pending := p, ir_replies := q\<rparr>"]) (auto simp: frame_kept_def)
  next
    case (Frame f)
    obtain x c' where x: "try_send C (ir_frame_tx s) f = (x, c')" by fastforce
    then have "(x, cv c') = chan_try_send (cv (ir_frame_tx s)) f"
      using mpsc_try_send [OF assms(1), of "ir_frame_tx s" f] by simp
    with assms(2) consider
        "x = SendFull" "cv c' = cv (ir_frame_tx s)" "\<not> length (queue (cv (ir_frame_tx s))) < capacity (cv (ir_frame_tx s))"
      | "x = SendOk" "cv c' = (cv (ir_frame_tx s))\<lparr>queue := queue (cv (ir_frame_tx s)) @ [f]\<rparr>"
        "length (queue (cv (ir_frame_tx s))) < capacity (cv (ir_frame_tx s))"
      by (auto simp: chan_try_send_def split: if_splits)
    then show thesis
      using Inr Frame x
      by (cases; intro that [of "flow_state (reader_dispatch C from_slice (decode_message m) s)"])
         (simp_all add: frame_kept_def Let_def)
  qed
qed

lemma reader_step_framed:
  assumes C: "mpsc_refines C cv" and rd: "reads_stream rd rv"
    and s: "rv (ir_reader s) = framed m @ rest" "length m < 2 ^ 32" "has_receiver (cv (ir_frame_tx s))"
  obtains s' kept where "reader_step rd C from_slice i s = Some (Continue s')"
    "rv (ir_reader s') = rest" "ir_ipc_dead s' = ir_ipc_dead s"
    "subseq kept (frames_of [m])"
    "cv (ir_frame_tx s') = (cv (ir_frame_tx s))\<lparr>queue := drop (rd_taken i) (queue (cv (ir_frame_tx s))) @ kept\<rparr>"
    "ipc_rx_frames (ir_stats s') = ipc_rx_frames (ir_stats s) + of_nat (length (frames_of [m]))"
    "ipc_rx_dropped (ir_stats s') + of_nat (length kept) = ipc_rx_dropped (ir_stats s) + of_nat (length (frames_of [m]))"
    "length (queue (cv (ir_frame_tx s))) < capacity (cv (ir_frame_tx s)) \<Longrightarrow> kept = frames_of [m]"
proof -
  let ?s0 = "reader_interference C i s"
  have "rv (ir_reader ?s0) = framed m @ rest" using s by (simp add: reader_interference_def)
  from reader_iteration_framed [OF rd this s(2)] obtain r buf where r: "rv r = rest"
    and it: "ipc_reader_iteration rd C from_slice ?s0 =
      reader_dispatch C from_slice (decode_message m) (?s0\<lparr>ir_reader := r, ir_msg_buf := buf\<rparr>)" by blast
  let ?s1 = "?s0\<lparr>ir_reader := r, ir_msg_buf := buf\<rparr>"
  let ?k = "frame_kept (ir_frame_tx ?s1) cv (frames_of [m])"
  have ch: "cv (ir_frame_tx ?s1) = (cv (ir_frame_tx s))\<lparr>queue := drop (rd_taken i) (queue (cv (ir_frame_tx s)))\<rparr>"
    by (simp add: reader_interference_def take_frames_view [OF C])
  from s(3) have "has_receiver (cv (ir_frame_tx ?s1))" unfolding ch by simp
  from reader_dispatch_effect [OF C this, of from_slice m] obtain s' where
    d: "reader_dispatch C from_slice (decode_message m) ?s1 = Continue s'"
    and e: "ir_reader s' = ir_reader ?s1" "ir_ipc_dead s' = ir_ipc_dead ?s1"
      "cv (ir_frame_tx s') = (cv (ir_frame_tx ?s1))\<lparr>queue := queue (cv (ir_frame_tx ?s1)) @ ?k\<rparr>"
      "ipc_rx_frames (ir_stats s') = ipc_rx_frames (ir_stats ?s1) + of_nat (length (frames_of [m]))"
      "ipc_rx_dropped (ir_stats s') + of_nat (length ?k) = ipc_rx_dropped (ir_stats ?s1) + of_nat (length (frames_of [m]))"
    by blast
  have k: "subseq ?k (frames_of [m])" by (simp add: frame_kept_def)
  have full: "?k = frames_of [m]" if "length (queue (cv (ir_frame_tx s))) < capacity (cv (ir_frame_tx s))"
    unfolding frame_kept_def ch using that by auto
  show thesis
  proof (rule that [of s' ?k])
    show "reader_step rd C from_slice i s = Some (Continue s')" by (simp add: reader_step_def it d)
    show "cv (ir_frame_tx s') = (cv (ir_frame_tx s))\<lparr>queue := drop (rd_taken i) (queue (cv (ir_frame_tx s))) @ ?k\<rparr>"
      using e(3) unfolding ch by simp
  qed (use e r k full in \<open>simp_all add: reader_interference_def\<close>)
qed

lemma frames_of_Cons: "frames_of (m # ms) = frames_of [m] @ frames_of ms"
  by (auto split: sum.splits message.splits)

section \<open>Properties: the reader\<close>

text \<open>
  The reader task hands the frames of a well-framed stream to the device in order.
  With any requests registered and any frames taken in between, after reading the messages
  the channel holds a tail of what it held followed by a subsequence of the frames in the
  stream; every frame is counted as received, and every frame that is missing as dropped.
  If the channel has room for all of them, none is missing.
\<close>

lemma reader_delivers_frames:
  assumes "mpsc_refines C cv" and "reads_stream rd rv"
    and "rv (ir_reader s) = concat (map framed ms) @ rest"
    and "\<forall>m \<in> set ms. length m < 2 ^ 32"
    and "has_receiver (cv (ir_frame_tx s))" and "length is = length ms"
  shows "\<exists>s' kept n. task_run (reader_step rd C from_slice) is s = Some (Continue s', []) \<and>
    rv (ir_reader s') = rest \<and> ir_ipc_dead s' = ir_ipc_dead s \<and> subseq kept (frames_of ms) \<and>
    queue (cv (ir_frame_tx s')) = drop n (queue (cv (ir_frame_tx s)) @ kept) \<and>
    ipc_rx_frames (ir_stats s') = ipc_rx_frames (ir_stats s) + of_nat (length (frames_of ms)) \<and>
    ipc_rx_dropped (ir_stats s') + of_nat (length kept) =
      ipc_rx_dropped (ir_stats s) + of_nat (length (frames_of ms)) \<and>
    (length (queue (cv (ir_frame_tx s))) + length (frames_of ms) \<le> capacity (cv (ir_frame_tx s)) \<longrightarrow>
      kept = frames_of ms)"
  using assms(3-6)
proof (induction ms arbitrary: s "is")
  case Nil
  then show ?case by (intro exI [of _ s] exI [of _ "[]"] exI [of _ 0]) simp
next
  case (Cons m ms)
  then obtain i is' where i: "is = i # is'" "length is' = length ms" by (cases "is") auto
  obtain s1 k1 where s1: "reader_step rd C from_slice i s = Some (Continue s1)"
    and p1: "rv (ir_reader s1) = concat (map framed ms) @ rest" "ir_ipc_dead s1 = ir_ipc_dead s"
      "subseq k1 (frames_of [m])"
    and q1: "cv (ir_frame_tx s1) = (cv (ir_frame_tx s))\<lparr>queue := drop (rd_taken i) (queue (cv (ir_frame_tx s))) @ k1\<rparr>"
    and c1: "ipc_rx_frames (ir_stats s1) = ipc_rx_frames (ir_stats s) + of_nat (length (frames_of [m]))"
      "ipc_rx_dropped (ir_stats s1) + of_nat (length k1) = ipc_rx_dropped (ir_stats s) + of_nat (length (frames_of [m]))"
    and r1: "length (queue (cv (ir_frame_tx s))) < capacity (cv (ir_frame_tx s)) \<Longrightarrow> k1 = frames_of [m]"
    using reader_step_framed [OF assms(1,2), of s m "concat (map framed ms) @ rest" from_slice i] Cons.prems
    by auto
  obtain s' k2 n where run: "task_run (reader_step rd C from_slice) is' s1 = Some (Continue s', [])"
    and p2: "rv (ir_reader s') = rest" "ir_ipc_dead s' = ir_ipc_dead s1" "subseq k2 (frames_of ms)"
    and q2: "queue (cv (ir_frame_tx s')) = drop n (queue (cv (ir_frame_tx s1)) @ k2)"
    and c2: "ipc_rx_frames (ir_stats s') = ipc_rx_frames (ir_stats s1) + of_nat (length (frames_of ms))"
      "ipc_rx_dropped (ir_stats s') + of_nat (length k2) = ipc_rx_dropped (ir_stats s1) + of_nat (length (frames_of ms))"
    and r2: "length (queue (cv (ir_frame_tx s1))) + length (frames_of ms) \<le> capacity (cv (ir_frame_tx s1)) \<longrightarrow>
      k2 = frames_of ms"
    using Cons.IH [of s1 is'] p1(1) q1 Cons.prems i by auto
  let ?q = "queue (cv (ir_frame_tx s))"
  have q: "queue (cv (ir_frame_tx s')) = drop (n + min (rd_taken i) (length ?q)) (?q @ k1 @ k2)"
    unfolding q2 q1 by (cases "rd_taken i \<le> length ?q") (simp_all add: min_def)
  have "k1 @ k2 = frames_of (m # ms)" if "length ?q + length (frames_of (m # ms)) \<le> capacity (cv (ir_frame_tx s))"
  proof (cases "frames_of [m] = []")
    case True
    with p1(3) have "k1 = []" by (auto dest: list_emb_Nil2)
    with True r2 that q1 show ?thesis by (simp add: frames_of_Cons [of m ms] del: frames_of.simps)
  next
    case False
    then have "0 < length (frames_of [m])" by (simp del: frames_of.simps)
    moreover have "length (frames_of (m # ms)) = length (frames_of [m]) + length (frames_of ms)"
      by (simp only: frames_of_Cons [of m ms] length_append)
    ultimately have "k1 = frames_of [m]" using that by (intro r1) linarith
    with r2 that q1 show ?thesis by (simp add: frames_of_Cons [of m ms] del: frames_of.simps)
  qed
  with s1 run i p1 p2 c1 c2 q show ?case
    by (intro exI [of _ s'] exI [of _ "k1 @ k2"] exI)
       (auto simp: frames_of_Cons [of m ms] algebra_simps simp del: frames_of.simps intro: list_emb_append_mono)
qed


definition reader0 :: "(bytes, bytes chan) ipc_reader" where
  "reader0 = \<lparr>ir_reader = framed [1, 7, 8] @ framed [0] @ framed [1, 9], ir_msg_buf = replicate MSG_BUF_SIZE 0,
     ir_frame_tx = chan_new 4, ir_pending = [], ir_replies = [], ir_stats = stats_default,
     ir_ipc_dead = False\<rparr>"

definition no_interference :: reader_input where
  "no_interference = \<lparr>rd_registered = [], rd_taken = 0\<rparr>"

lemma reader_delivers_frames_witness:
  "\<exists>s' kept n. task_run (reader_step slice_read_exact chan_mpsc (\<lambda>_. Inl []))
      [no_interference, no_interference] reader0 = Some (Continue s', []) \<and>
    ir_reader s' = framed [1, 9] \<and> kept = [[7, 8]] \<and> queue (ir_frame_tx s') = drop n kept \<and>
    ipc_rx_frames (ir_stats s') = 1"
  using reader_delivers_frames [OF chan_mpsc_refines slice_reads_stream, of reader0 "[[1, 7, 8], [0]]"
      "framed [1, 9]" "[no_interference, no_interference]" "\<lambda>_. Inl []"]
  by (auto simp: reader0_def chan_new_def stats_default_def decode_message_def MSG_TYPE_CONTROL_def
      MSG_TYPE_FRAME_def)

lemma reader_dispatch_reader: "ir_reader (flow_state (reader_dispatch C from_slice d s)) = ir_reader s"
  by (cases "(C, from_slice, d, s)" rule: reader_dispatch.cases)
     (auto simp: Let_def split: prod.splits try_send_result.splits sum.splits option.splits)

lemma reader_dispatch_return:
  assumes "mpsc_refines C cv" and "reader_dispatch C from_slice d s = Return s'"
  shows "\<not> has_receiver (cv (ir_frame_tx s'))"
proof -
  from assms(2) obtain f c where f: "d = Inr (Frame f)" "try_send C (ir_frame_tx s) f = (SendClosed, c)"
      "ir_frame_tx s' = c"
    by (cases "(C, from_slice, d, s)" rule: reader_dispatch.cases)
       (auto simp: Let_def split: prod.splits try_send_result.splits sum.splits option.splits)
  then have "(SendClosed, cv c) = chan_try_send (cv (ir_frame_tx s)) f"
    using mpsc_try_send [OF assms(1), of "ir_frame_tx s" f] by simp
  with f show ?thesis by (auto simp: chan_try_send_def split: if_splits)
qed

lemma reader_step_progress:
  assumes C: "mpsc_refines C cv" and rd: "reads_stream rd rv"
  obtains
    (returned) s' where "reader_step rd C from_slice i s = Some (Return s')"
      "ir_ipc_dead s' \<or> \<not> has_receiver (cv (ir_frame_tx s'))"
  | (continued) s' where "reader_step rd C from_slice i s = Some (Continue s')"
      "length (rv (ir_reader s')) + 4 \<le> length (rv (ir_reader s))"
proof -
  let ?s0 = "reader_interference C i s"
  have r0: "ir_reader ?s0 = ir_reader s" by (simp add: reader_interference_def)
  from rd show thesis
  proof (cases rule: reads_stream_cases [where r = "ir_reader s" and n = 4])
    case (failed e r1)
    with r0 show thesis by (intro returned) (auto simp: reader_step_def ipc_reader_iteration_def)
  next
    case (filled r1)
    let ?n = "unat (from_be_bytes (take 4 (rv (ir_reader s))) :: u32)"
    from rd show thesis
    proof (cases rule: reads_stream_cases [where r = r1 and n = ?n])
      case (failed e r2)
      with filled r0 show thesis
        by (intro returned) (auto simp: reader_step_def ipc_reader_iteration_def Let_def)
    next
      case body: (filled r2)
      let ?buf = "take ?n (rv r1) @ drop ?n (vec_grow (ir_msg_buf ?s0) ?n)"
      let ?x = "reader_dispatch C from_slice (decode_message (take ?n ?buf))
        (?s0\<lparr>ir_reader := r2, ir_msg_buf := ?buf\<rparr>)"
      have x: "reader_step rd C from_slice i s = Some ?x"
        using filled body r0 by (simp add: reader_step_def ipc_reader_iteration_def Let_def)
      have "ir_reader (flow_state ?x) = r2" by (simp add: reader_dispatch_reader)
      moreover have "length (rv r2) + 4 \<le> length (rv (ir_reader s))" using filled body by simp
      ultimately show thesis
      proof (cases ?x)
        case (Return s')
        with x show thesis by (intro returned [of s']) (simp_all add: reader_dispatch_return [OF C Return])
      qed (use x in \<open>auto intro: continued\<close>)
    qed
  qed
qed

text \<open>
  C24: The reader task stops. Every iteration takes at least a length prefix off the stream,
  so on a stream of \<open>n\<close> bytes it has returned after at most \<open>n / 4 + 1\<close> of them, whatever the
  bytes are and whatever the other tasks do; and when it has, either the connection is
  marked dead or the device has gone.
\<close>

theorem reader_stops:
  assumes "mpsc_refines C cv" and "reads_stream rd rv"
    and "length (rv (ir_reader s)) div 4 < length is"
  shows "\<exists>s' rest. task_run (reader_step rd C from_slice) is s = Some (Return s', rest) \<and>
    (ir_ipc_dead s' \<or> \<not> has_receiver (cv (ir_frame_tx s')))"
  using assms(3)
proof (induction "is" arbitrary: s)
  case Nil
  then show ?case by simp
next
  case (Cons i "is")
  from assms(1,2) show ?case
  proof (cases rule: reader_step_progress [where from_slice = from_slice and i = i and s = s])
    case (returned s')
    then show ?thesis by simp
  next
    case (continued s')
    with Cons.prems have "length (rv (ir_reader s')) div 4 < length is" by auto
    from Cons.IH [OF this] continued show ?thesis by simp
  qed
qed

theorem reader_stops_witness:
  "\<exists>s' rest. task_run (reader_step slice_read_exact chan_mpsc (\<lambda>_. Inl [])) (replicate 6 no_interference) reader0 =
     Some (Return s', rest) \<and> (ir_ipc_dead s' \<or> \<not> has_receiver (ir_frame_tx s'))"
  using reader_stops [OF chan_mpsc_refines slice_reads_stream, of reader0 "replicate 6 no_interference" "\<lambda>_. Inl []"]
  by (simp add: reader0_def)

section \<open>Lemmas: the writer\<close>

text \<open>The messages of one batch, in the order they are written.\<close>

fun batch :: "writer_wake \<Rightarrow> bytes list \<Rightarrow> bytes list \<Rightarrow> bytes list" where
  "batch WakeFrame [] cs = []"
| "batch WakeFrame fs cs = map encode_frame fs @ cs"
| "batch WakeControl fs [] = []"
| "batch WakeControl fs (c # cs) = c # map encode_frame fs @ cs"

abbreviation wire :: "bytes list \<Rightarrow> bytes" where
  "wire ms \<equiv> concat (map framed ms)"

lemma drain_frames_effect:
  assumes C: "mpsc_refines C cv" and W: "writes_stream write_all wv"
  shows "\<exists>s'. drain_frames write_all C s = Some s' \<and> iw_control_rx s' = iw_control_rx s \<and>
    (iw_ipc_dead s \<longrightarrow> iw_ipc_dead s') \<and>
    (\<not> iw_ipc_dead s' \<longrightarrow>
       wv (iw_writer s') = wv (iw_writer s) @ wire (map encode_frame (queue (cv (iw_frame_rx s)))) \<and>
       queue (cv (iw_frame_rx s')) = [] \<and>
       ipc_tx_frames (iw_stats s') = ipc_tx_frames (iw_stats s) + of_nat (length (queue (cv (iw_frame_rx s)))))"
proof (induction "queue (cv (iw_frame_rx s))" arbitrary: s)
  case Nil
  from C show ?case
    by (cases rule: try_recv_cases [where c = "iw_frame_rx s"])
       (use Nil in \<open>simp_all add: drain_frames.simps [of _ _ s]\<close>)
next
  case (Cons f fs)
  with C obtain c where c: "try_recv C (iw_frame_rx s) = (RecvOk f, c)" "queue (cv c) = fs"
    by (cases rule: try_recv_cases [where c = "iw_frame_rx s"]) auto
  let ?s1 = "s\<lparr>iw_frame_rx := c\<rparr>"
  obtain ok w where w: "write_msg write_all (iw_writer s) (encode_frame f) = (ok, w)" by fastforce
  show ?case
  proof (cases ok)
    case False
    with c w show ?thesis by (simp add: drain_frames.simps [of _ _ s] count_tx_error_def)
  next
    case True
    let ?s2 = "count_tx_frame (?s1\<lparr>iw_writer := w\<rparr>)"
    have step: "drain_frames write_all C s = drain_frames write_all C ?s2"
      using c w True by (simp add: drain_frames.simps [of _ _ s])
    have "wv w = wv (iw_writer s) @ framed (encode_frame f)"
      using write_msg_ok [OF W] w True by simp
    moreover have "fs = queue (cv (iw_frame_rx ?s2))" using c by (simp add: count_tx_frame_def)
    ultimately show ?thesis
      using Cons.hyps(1) [of ?s2] Cons.hyps(2) [symmetric] unfolding step
      by (auto simp: count_tx_frame_def)
  qed
qed

lemma drain_controls_effect:
  assumes K: "mpsc_refines K kv" and W: "writes_stream write_all wv"
  shows "\<exists>s'. drain_controls write_all K s = Some s' \<and> iw_frame_rx s' = iw_frame_rx s \<and>
    iw_stats s' = iw_stats s \<and> (iw_ipc_dead s \<longrightarrow> iw_ipc_dead s') \<and>
    (\<not> iw_ipc_dead s' \<longrightarrow>
       wv (iw_writer s') = wv (iw_writer s) @ wire (queue (kv (iw_control_rx s))) \<and>
       queue (kv (iw_control_rx s')) = [])"
proof (induction "queue (kv (iw_control_rx s))" arbitrary: s)
  case Nil
  from K show ?case
    by (cases rule: try_recv_cases [where c = "iw_control_rx s"])
       (use Nil in \<open>simp_all add: drain_controls.simps [of _ _ s]\<close>)
next
  case (Cons m ms)
  with K obtain k where k: "try_recv K (iw_control_rx s) = (RecvOk m, k)" "queue (kv k) = ms"
    by (cases rule: try_recv_cases [where c = "iw_control_rx s"]) auto
  let ?s1 = "s\<lparr>iw_control_rx := k\<rparr>"
  obtain ok w where w: "write_msg write_all (iw_writer s) m = (ok, w)" by fastforce
  show ?case
  proof (cases ok)
    case False
    with k w show ?thesis by (simp add: drain_controls.simps [of _ _ s])
  next
    case True
    let ?s2 = "?s1\<lparr>iw_writer := w\<rparr>"
    have step: "drain_controls write_all K s = drain_controls write_all K ?s2"
      using k w True by (simp add: drain_controls.simps [of _ _ s])
    have "wv w = wv (iw_writer s) @ framed m"
      using write_msg_ok [OF W] w True by simp
    moreover have "ms = queue (kv (iw_control_rx ?s2))" using k by simp
    ultimately show ?thesis
      using Cons.hyps(1) [of ?s2] Cons.hyps(2) [symmetric] unfolding step by auto
  qed
qed

text \<open>The select and the two drains together.\<close>

lemma writer_select_effect:
  assumes C: "mpsc_refines C cv" and K: "mpsc_refines K kv" and W: "writes_stream write_all wv"
  shows "case writer_select write_all C K i s of
      Waiting s1 \<Rightarrow> wv (iw_writer s1) = wv (iw_writer s) \<and> iw_stats s1 = iw_stats s \<and>
        cv (iw_frame_rx s1) = cv (iw_frame_rx s) \<and> kv (iw_control_rx s1) = kv (iw_control_rx s) \<and>
        batch i (queue (cv (iw_frame_rx s))) (queue (kv (iw_control_rx s))) = []
    | Break s1 \<Rightarrow> iw_ipc_dead s1 \<or> wv (iw_writer s1) = wv (iw_writer s) \<and> iw_stats s1 = iw_stats s \<and>
        cv (iw_frame_rx s1) = cv (iw_frame_rx s) \<and> kv (iw_control_rx s1) = kv (iw_control_rx s) \<and>
        batch i (queue (cv (iw_frame_rx s))) (queue (kv (iw_control_rx s))) = []
    | Selected s1 \<Rightarrow> iw_ipc_dead s1 = iw_ipc_dead s \<and>
        (\<exists>sent fs cs. sent \<noteq> [] \<and> wv (iw_writer s1) = wv (iw_writer s) @ wire sent \<and>
          queue (cv (iw_frame_rx s1)) = fs \<and> queue (kv (iw_control_rx s1)) = cs \<and>
          ipc_tx_frames (iw_stats s1) + of_nat (length fs) =
            ipc_tx_frames (iw_stats s) + of_nat (length (queue (cv (iw_frame_rx s)))) \<and>
          batch i (queue (cv (iw_frame_rx s))) (queue (kv (iw_control_rx s))) = sent @ map encode_frame fs @ cs)"
proof (cases i)
  case WakeFrame
  from C show ?thesis
  proof (cases rule: try_recv_cases [where c = "iw_frame_rx s"])
    case (ok f c fs)
    obtain b w where w: "write_msg write_all (iw_writer s) (encode_frame f) = (b, w)" by fastforce
    from ok w WakeFrame write_msg_ok [OF W, of "iw_writer s" "encode_frame f" w] show ?thesis
      by (cases b) (auto simp: count_tx_error_def count_tx_frame_def Let_def intro: exI [of _ "[encode_frame f]"])
  qed (simp_all add: WakeFrame)
next
  case WakeControl
  from K show ?thesis
  proof (cases rule: try_recv_cases [where c = "iw_control_rx s"])
    case (ok m k ms)
    obtain b w where w: "write_msg write_all (iw_writer s) m = (b, w)" by fastforce
    from ok w WakeControl write_msg_ok [OF W, of "iw_writer s" m w] show ?thesis
      by (cases b) (auto simp: Let_def intro: exI [of _ "[m]"])
  qed (simp_all add: WakeControl)
qed

section \<open>Properties: the writer\<close>

text \<open>
  Every iteration of the writer task returns. Unless it marks the connection dead, it
  has put on the stream, each with its length prefix, exactly the messages of the batch:
  the message that woke it, all queued frames, then all queued control messages, each queue
  in order. Both queues are then empty, and the frames of the batch are counted as sent.
\<close>

lemma ipc_writer_batch:
  assumes "mpsc_refines C cv" and "mpsc_refines K kv"
    and "writes_stream write_all wv" and "flushes_stream flush wv"
  shows "\<exists>r. ipc_writer_iteration write_all flush C K i s = Some r \<and>
    (let fs = queue (cv (iw_frame_rx s)); ms = batch i fs (queue (kv (iw_control_rx s)));
         s' = flow_state r
     in iw_ipc_dead s' \<or>
        wv (iw_writer s') = wv (iw_writer s) @ concat (map framed ms) \<and>
        (ms = [] \<and> cv (iw_frame_rx s') = cv (iw_frame_rx s) \<and> kv (iw_control_rx s') = kv (iw_control_rx s) \<or>
         ms \<noteq> [] \<and> queue (cv (iw_frame_rx s')) = [] \<and> queue (kv (iw_control_rx s')) = [] \<and>
         ipc_tx_frames (iw_stats s') = ipc_tx_frames (iw_stats s) + of_nat (length fs)))"
proof (cases "writer_select write_all C K i s")
  case (Selected s1)
  let ?fs = "queue (cv (iw_frame_rx s))" and ?cs = "queue (kv (iw_control_rx s))"
  obtain sent fs cs where sent: "sent \<noteq> []" and s1: "wv (iw_writer s1) = wv (iw_writer s) @ wire sent"
      "queue (cv (iw_frame_rx s1)) = fs" "queue (kv (iw_control_rx s1)) = cs"
      "ipc_tx_frames (iw_stats s1) + of_nat (length fs) = ipc_tx_frames (iw_stats s) + of_nat (length ?fs)"
      "batch i ?fs ?cs = sent @ map encode_frame fs @ cs"
    using writer_select_effect [OF assms(1-3), where i = i and s = s] Selected by auto
  obtain s2 where s2: "drain_frames write_all C s1 = Some s2" "iw_control_rx s2 = iw_control_rx s1"
      "\<not> iw_ipc_dead s2 \<longrightarrow> wv (iw_writer s2) = wv (iw_writer s1) @ wire (map encode_frame fs) \<and>
        queue (cv (iw_frame_rx s2)) = [] \<and>
        ipc_tx_frames (iw_stats s2) = ipc_tx_frames (iw_stats s1) + of_nat (length fs)"
    using drain_frames_effect [OF assms(1,3), of s1] s1 by auto
  obtain s3 where s3: "drain_controls write_all K s2 = Some s3" "iw_frame_rx s3 = iw_frame_rx s2"
      "iw_stats s3 = iw_stats s2" "iw_ipc_dead s2 \<longrightarrow> iw_ipc_dead s3"
      "\<not> iw_ipc_dead s3 \<longrightarrow> wv (iw_writer s3) = wv (iw_writer s2) @ wire cs \<and>
        queue (kv (iw_control_rx s3)) = []"
    using drain_controls_effect [OF assms(2,3), of s2] s1 s2 by auto
  obtain x w where x: "flush (iw_writer s3) = (x, w)" by fastforce
  with assms(4) have "wv w = wv (iw_writer s3)" by (auto simp: flushes_stream_def) (metis snd_conv)
  with x Selected sent s1 s2 s3 show ?thesis
    by (auto simp: ipc_writer_iteration_def Let_def split: sum.splits)
next
  case (Waiting s1)
  then show ?thesis using writer_select_effect [OF assms(1-3), where i = i and s = s]
    by (auto simp: ipc_writer_iteration_def)
next
  case (Break s1)
  then show ?thesis using writer_select_effect [OF assms(1-3), where i = i and s = s]
    by (auto simp: ipc_writer_iteration_def)
qed

definition writer0 :: "(bytes, bytes chan, bytes chan) ipc_writer" where
  "writer0 = \<lparr>iw_writer = [], iw_frame_rx = (chan_new 4)\<lparr>queue := [[7], [8]]\<rparr>,
     iw_control_rx = (chan_new 4)\<lparr>queue := [[0, 1]]\<rparr>, iw_stats = stats_default, iw_ipc_dead = False\<rparr>"

end
