(* ===== verification/Tap_Config.thy ===== *)
theory Tap_Config
  imports Text
begin

text \<open>
  The configuration of a tunnel and how it travels from the library to the proxy: the
  \<^verbatim>\<open>TapConfig\<close> of \<^verbatim>\<open>src/lib.rs\<close> and its builder, the search for the proxy's executable and
  the command line it is started with (\<^verbatim>\<open>find_proxy_binary\<close>, \<^verbatim>\<open>spawn_proxy\<close>), and on the
  other side \<^verbatim>\<open>Args\<close>, \<^verbatim>\<open>parse_ip_prefix\<close> and \<^verbatim>\<open>build_tap_config\<close> of \<^verbatim>\<open>proxy/src/main.rs\<close>.
  The argument parser (\<^verbatim>\<open>clap\<close>) is a parameter.
\<close>

section \<open>TapConfig\<close>

type_synonym ip_with_prefix = "ip_addr \<times> u8"

record tap_config =
  interface_name :: string
  peer_addr :: "ip_with_prefix option"
  local_addr :: "ip_with_prefix option"
  mac :: "bytes option"
  packet_loss_percent :: u8
  peer_routes :: "ip_with_prefix list"
  mtu :: u16

definition DEFAULT_MTU :: u16 where "DEFAULT_MTU = 1500"
definition ETHERNET_HEADER_SIZE :: nat where "ETHERNET_HEADER_SIZE = 14"

definition tap_config_default :: tap_config where
  "tap_config_default = \<lparr>interface_name = ''tap0'', peer_addr = None, local_addr = None, mac = None,
     packet_loss_percent = 0, peer_routes = [], mtu = DEFAULT_MTU\<rparr>"

definition tap_config_new :: tap_config where
  "tap_config_new = tap_config_default"

definition set_interface_name :: "string \<Rightarrow> tap_config \<Rightarrow> tap_config" where
  "set_interface_name name c = c\<lparr>interface_name := name\<rparr>"

definition set_peer_addr :: "ip_addr \<Rightarrow> u8 \<Rightarrow> tap_config \<Rightarrow> tap_config" where
  "set_peer_addr ip plen c = c\<lparr>peer_addr := Some (ip, plen)\<rparr>"

definition set_local_addr :: "ip_addr \<Rightarrow> u8 \<Rightarrow> tap_config \<Rightarrow> tap_config" where
  "set_local_addr ip plen c = c\<lparr>local_addr := Some (ip, plen)\<rparr>"

definition set_mac :: "bytes \<Rightarrow> tap_config \<Rightarrow> tap_config" where
  "set_mac m c = c\<lparr>mac := Some m\<rparr>"

definition set_packet_loss_percent :: "u8 \<Rightarrow> tap_config \<Rightarrow> tap_config" where
  "set_packet_loss_percent p c = c\<lparr>packet_loss_percent := p\<rparr>"

definition add_peer_route_cfg :: "ip_addr \<Rightarrow> u8 \<Rightarrow> tap_config \<Rightarrow> tap_config" where
  "add_peer_route_cfg dest plen c = c\<lparr>peer_routes := peer_routes c @ [(dest, plen)]\<rparr>"

definition set_mtu :: "u16 \<Rightarrow> tap_config \<Rightarrow> tap_config" where
  "set_mtu m c = c\<lparr>mtu := m\<rparr>"

section \<open>Finding the proxy's executable\<close>

text \<open>\<^verbatim>\<open>Path::parent\<close> and \<^verbatim>\<open>Path::join\<close> with a relative name, on normalised Unix paths.\<close>

definition path_parent :: "string \<Rightarrow> string option" where
  "path_parent s =
     (if s = [] \<or> s = ''/'' then None
      else (let r = dropWhile (\<lambda>c. c \<noteq> CHR ''/'') (rev s)
            in if r = [] then Some []
               else if r = ''/'' then Some ''/'' else Some (rev (tl r))))"

definition path_join :: "string \<Rightarrow> string \<Rightarrow> string" where
  "path_join a b = (if a = [] \<or> last a = CHR ''/'' then a @ b else a @ ''/'' @ b)"

text \<open>
  What the search looks at: the path of the running executable, the environment, the file
  system (\<^verbatim>\<open>try_exists\<close>, which may fail) and the trimmed output of a successful \<^verbatim>\<open>which\<close>.
\<close>

record search_env =
  current_exe :: "string io_result"
  env_var :: "string \<Rightarrow> string option"
  try_exists :: "string \<Rightarrow> bool io_result"
  which_output :: "string option"

definition PROXY_NAME :: string where "PROXY_NAME = ''tap-tunnel-proxy''"

definition not_found_message :: string where
  "not_found_message = ''proxy binary '' @ [CHR 0x27] @ PROXY_NAME @ [CHR 0x27] @
     '' not found. Ensure it'' @ [CHR 0x27] @ ''s in the same directory as the executable, '' @
     ''set TAP_TUNNEL_PROXY environment variable, or install it in PATH''"

text \<open>A check of one path: \<open>Some\<close> result ends the search.\<close>

definition check_path :: "search_env \<Rightarrow> string \<Rightarrow> string io_result option" where
  "check_path e p =
     (case try_exists e p of
        Inl err \<Rightarrow> Some (Inl err)
      | Inr found \<Rightarrow> if found then Some (Inr p) else None)"

definition or_else :: "'a option \<Rightarrow> 'a option \<Rightarrow> 'a option" where
  "or_else a b = (case a of None \<Rightarrow> b | Some x \<Rightarrow> Some x)"

definition find_proxy_binary :: "search_env \<Rightarrow> string io_result" where
  "find_proxy_binary e =
     (let s1 =
        (case current_exe e of
           Inl _ \<Rightarrow> None
         | Inr exe_path \<Rightarrow>
             (case path_parent exe_path of
                None \<Rightarrow> None
              | Some exe_dir \<Rightarrow>
                  or_else (check_path e (path_join exe_dir PROXY_NAME))
                    (case path_parent exe_dir of
                       None \<Rightarrow> None
                     | Some parent \<Rightarrow> check_path e (path_join parent PROXY_NAME))));
          s2 =
        (case env_var e ''TAP_TUNNEL_PROXY'' of
           None \<Rightarrow> None
         | Some proxy_path \<Rightarrow> check_path e proxy_path);
          s3 =
        (case env_var e ''CARGO_MANIFEST_DIR'' of
           None \<Rightarrow> None
         | Some manifest_dir \<Rightarrow>
             or_else
               (check_path e (path_join (path_join (path_join manifest_dir ''target'') ''debug'') PROXY_NAME))
               (check_path e (path_join (path_join (path_join manifest_dir ''target'') ''release'') PROXY_NAME)));
          s4 = (case which_output e of None \<Rightarrow> None | Some path \<Rightarrow> check_path e path)
      in case or_else s1 (or_else s2 (or_else s3 s4)) of
           Some r \<Rightarrow> r
         | None \<Rightarrow> Inl (IoError NotFound not_found_message))"

section \<open>The proxy's command line\<close>

text \<open>The arguments of the command that \<^verbatim>\<open>spawn_proxy\<close> runs, in their order.\<close>

definition addr_arg :: "ip_with_prefix \<Rightarrow> string" where
  "addr_arg p = show_ip_addr (fst p) @ ''/'' @ dec (unat (snd p))"

definition proxy_args :: "u32 \<Rightarrow> nat \<Rightarrow> tap_config \<Rightarrow> string list" where
  "proxy_args pid frame_fd c =
     [''--pid'', dec (unat pid), ''--frame-fd'', dec frame_fd, ''--tap-name'', interface_name c] @
     (case peer_addr c of None \<Rightarrow> [] | Some p \<Rightarrow> [''--tap-addr'', addr_arg p]) @
     [''--mtu'', dec (unat (mtu c))] @
     concat (map (\<lambda>p. [''--tap-route'', addr_arg p]) (peer_routes c))"

text \<open>
  \<^verbatim>\<open>remove_cloexec\<close>: \<^verbatim>\<open>fcntl\<close> with \<^verbatim>\<open>F_GETFD\<close> and \<^verbatim>\<open>F_SETFD\<close>, whose error is a negative
  number with the error in \<open>errno\<close>.
\<close>

record 'o fd_api =
  fcntl_getfd :: "'o \<Rightarrow> nat \<Rightarrow> int"
  fcntl_setfd :: "'o \<Rightarrow> nat \<Rightarrow> int \<Rightarrow> int \<times> 'o"
  last_os_error :: "'o \<Rightarrow> io_error"

definition FD_CLOEXEC :: int where "FD_CLOEXEC = 1"

definition remove_cloexec :: "'o fd_api \<Rightarrow> 'o \<Rightarrow> nat \<Rightarrow> unit io_result \<times> 'o" where
  "remove_cloexec F st fd =
     (let flags = fcntl_getfd F st fd
      in if flags < 0 then (Inl (last_os_error F st), st)
         else (let new_flags = flags AND NOT FD_CLOEXEC
               in case fcntl_setfd F st fd new_flags of
                    (ret, st1) \<Rightarrow> if ret < 0 then (Inl (last_os_error F st1), st1) else (Inr (), st1)))"

text \<open>\<^verbatim>\<open>spawn_proxy\<close>: \<open>spawn\<close> starts a program with arguments; the child is what it returns.\<close>

definition spawn_proxy ::
    "'o fd_api \<Rightarrow> ('o \<Rightarrow> search_env) \<Rightarrow> ('o \<Rightarrow> string \<Rightarrow> string list \<Rightarrow> 'child io_result \<times> 'o) \<Rightarrow>
     'o \<Rightarrow> u32 \<Rightarrow> nat \<Rightarrow> tap_config \<Rightarrow> 'child io_result \<times> 'o" where
  "spawn_proxy F env spawn st pid frame_fd c =
     (case remove_cloexec F st frame_fd of
        (Inl e, st1) \<Rightarrow> (Inl e, st1)
      | (Inr _, st1) \<Rightarrow>
          (case find_proxy_binary (env st1) of
             Inl e \<Rightarrow> (Inl e, st1)
           | Inr proxy_path \<Rightarrow>
               (case spawn st1 proxy_path (proxy_args pid frame_fd c) of
                  (Inl e, st2) \<Rightarrow>
                    (Inl (IoError (kind e) (''failed to spawn proxy binary '' @ [CHR 0x27] @ proxy_path @
                       [CHR 0x27] @ '': '' @ msg e)), st2)
                | (Inr child, st2) \<Rightarrow> (Inr child, st2))))"

section \<open>The proxy's side\<close>

record args =
  a_pid :: "u32 option"
  a_frame_fd :: "nat option"
  a_socket_path :: "string option"
  a_tap_name :: string
  a_tap_addr :: "string option"
  a_packet_loss :: u8
  a_tap_route :: "string list"
  a_mtu :: u16

definition args_default :: args where
  "args_default = \<lparr>a_pid = None, a_frame_fd = None, a_socket_path = None, a_tap_name = ''tap0'',
     a_tap_addr = None, a_packet_loss = 0, a_tap_route = [], a_mtu = 1500\<rparr>"

definition parse_ip_prefix :: "string \<Rightarrow> ip_with_prefix option" where
  "parse_ip_prefix s =
     (let parts = split_on CHR ''/'' s
      in if length parts \<noteq> 2 then None
         else do {
           ip \<leftarrow> parse_ip_addr (parts ! 0);
           plen \<leftarrow> parse_uint 256 (parts ! 1);
           (let max_prefix = (case ip of V4 _ \<Rightarrow> 32 | V6 _ \<Rightarrow> 128)
            in if max_prefix < plen then None else Some (ip, of_nat plen))
         })"

definition build_tap_config :: "args \<Rightarrow> tap_config" where
  "build_tap_config a =
     (let c = set_mtu (a_mtu a) (set_packet_loss_percent (a_packet_loss a)
                (set_interface_name (a_tap_name a) tap_config_new));
          c1 = (case a_tap_addr a of
                  None \<Rightarrow> c
                | Some addr_str \<Rightarrow>
                    (case parse_ip_prefix addr_str of
                       Some (ip, plen) \<Rightarrow> set_peer_addr ip plen c
                     | None \<Rightarrow> c))
      in foldl (\<lambda>c route_str.
           case parse_ip_prefix route_str of
             Some (ip, plen) \<Rightarrow> add_peer_route_cfg ip plen c
           | None \<Rightarrow> c) c1 (a_tap_route a))"

text \<open>
  What the derived argument parser does with a list of options that each have a value: it
  fills the field of each, and collects the values of a repeated one in order. A value
  that begins with a hyphen would be taken for an option.
\<close>

fun arg_field :: "string \<times> string \<Rightarrow> args \<Rightarrow> args option" where
  "arg_field (k, v) a =
     (if k = ''--pid'' then map_option (\<lambda>n. a\<lparr>a_pid := Some (of_nat n)\<rparr>) (parse_uint (2 ^ 32) v)
      else if k = ''--frame-fd'' then map_option (\<lambda>n. a\<lparr>a_frame_fd := Some n\<rparr>) (parse_uint (2 ^ 31) v)
      else if k = ''--tap-name'' then Some (a\<lparr>a_tap_name := v\<rparr>)
      else if k = ''--tap-addr'' then Some (a\<lparr>a_tap_addr := Some v\<rparr>)
      else if k = ''--mtu'' then map_option (\<lambda>n. a\<lparr>a_mtu := of_nat n\<rparr>) (parse_uint (2 ^ 16) v)
      else if k = ''--tap-route'' then Some (a\<lparr>a_tap_route := a_tap_route a @ [v]\<rparr>)
      else None)"

fun args_of :: "(string \<times> string) list \<Rightarrow> args \<Rightarrow> args option" where
  "args_of [] a = Some a"
| "args_of (p # ps) a = do { a' \<leftarrow> arg_field p a; args_of ps a' }"

definition option_values :: "(string \<times> string) list \<Rightarrow> bool" where
  "option_values ps \<longleftrightarrow> list_all (\<lambda>(k, v). v \<noteq> [] \<and> hd v \<noteq> CHR ''-'') ps"

definition parses_options :: "(string list \<Rightarrow> args option) \<Rightarrow> bool" where
  "parses_options clap \<longleftrightarrow>
     (\<forall>ps. option_values ps \<longrightarrow> clap (concat (map (\<lambda>(k, v). [k, v]) ps)) = args_of ps args_default)"

section \<open>Lemmas\<close>

fun max_prefix_len :: "ip_addr \<Rightarrow> nat" where
  "max_prefix_len (V4 _) = 32"
| "max_prefix_len (V6 _) = 128"

definition prefix_ok :: "ip_with_prefix \<Rightarrow> bool" where
  "prefix_ok p \<longleftrightarrow> unat (snd p) \<le> max_prefix_len (fst p)"

lemma parse_addr_arg: "parse_ip_prefix (addr_arg p) = (if prefix_ok p then Some p else None)"
proof -
  obtain ip plen where p: "p = (ip, plen)" by (cases p)
  have slash: "\<not> is_digit 16 CHR ''/''" by simp
  have "split_on CHR ''/'' (addr_arg p) = [show_ip_addr ip, dec (unat plen)]"
    unfolding addr_arg_def p using slash
    by (simp add: split_on_two show_ip_addr_chars to_radix_not_in)
  moreover have "parse_uint 256 (dec (unat plen)) = Some (unat plen)"
    by (rule parse_uint_dec) (rule unat_byte_bound)
  ultimately show ?thesis
    using parse_show_ip_addr [of ip] by (cases ip) (auto simp: parse_ip_prefix_def p prefix_ok_def Let_def)
qed

lemma addr_arg_value: "addr_arg p \<noteq> [] \<and> hd (addr_arg p) \<noteq> CHR ''-''"
proof -
  have "\<not> is_digit 16 CHR ''-''" by (simp add: is_digit_def to_digit_def)
  then have "CHR ''-'' \<notin> set (show_ip_addr (fst p))" by (intro show_ip_addr_chars) simp_all
  with show_ip_addr_not_Nil [of "fst p"] show ?thesis
    by (cases "show_ip_addr (fst p)") (auto simp: addr_arg_def)
qed

lemma dec_value: "dec n \<noteq> [] \<and> hd (dec n) \<noteq> CHR ''-''"
proof -
  have "\<not> is_digit 16 CHR ''-''" by (simp add: is_digit_def to_digit_def)
  then have "CHR ''-'' \<notin> set (dec n)" by (intro to_radix_not_in) simp_all
  then show ?thesis by (cases "dec n") (use to_radix_not_Nil [of 10 n] in auto)
qed

text \<open>The command line as options with their values.\<close>

definition proxy_options :: "u32 \<Rightarrow> nat \<Rightarrow> tap_config \<Rightarrow> (string \<times> string) list" where
  "proxy_options pid frame_fd c =
     [(''--pid'', dec (unat pid)), (''--frame-fd'', dec frame_fd), (''--tap-name'', interface_name c)] @
     (case peer_addr c of None \<Rightarrow> [] | Some p \<Rightarrow> [(''--tap-addr'', addr_arg p)]) @
     [(''--mtu'', dec (unat (mtu c)))] @ map (\<lambda>p. (''--tap-route'', addr_arg p)) (peer_routes c)"

lemma proxy_args_options:
  "proxy_args pid fd c = concat (map (\<lambda>(k, v). [k, v]) (proxy_options pid fd c))"
  by (simp add: proxy_args_def proxy_options_def comp_def split: option.splits)

lemma args_of_routes:
  "args_of (map (\<lambda>p. (''--tap-route'', addr_arg p)) rs) a = Some (a\<lparr>a_tap_route := a_tap_route a @ map addr_arg rs\<rparr>)"
  by (induction rs arbitrary: a) simp_all

lemma args_of_append: "args_of (ps @ qs) a = do { a' \<leftarrow> args_of ps a; args_of qs a' }"
  by (induction ps arbitrary: a) (simp_all split: Option.bind_splits)

lemma args_of_proxy_options:
  assumes "fd < 2 ^ 31"
  shows "args_of (proxy_options pid fd c) args_default =
    Some \<lparr>a_pid = Some pid, a_frame_fd = Some fd, a_socket_path = None, a_tap_name = interface_name c,
      a_tap_addr = map_option addr_arg (peer_addr c), a_packet_loss = 0,
      a_tap_route = map addr_arg (peer_routes c), a_mtu = mtu c\<rparr>"
proof -
  have "parse_uint (2 ^ 32) (dec (unat pid)) = Some (unat pid)"
    using unsigned_less [of pid, where 'a = nat] by (intro parse_uint_dec) simp
  moreover have "parse_uint (2 ^ 31) (dec fd) = Some fd" using assms by (rule parse_uint_dec)
  moreover have "parse_uint (2 ^ 16) (dec (unat (mtu c))) = Some (unat (mtu c))"
    using unsigned_less [of "mtu c", where 'a = nat] by (intro parse_uint_dec) simp
  ultimately show ?thesis
    by (cases "peer_addr c") (simp_all add: proxy_options_def args_of_routes args_default_def)
qed

lemma build_routes:
  "foldl (\<lambda>c route_str. case parse_ip_prefix route_str of
       Some (ip, plen) \<Rightarrow> add_peer_route_cfg ip plen c | None \<Rightarrow> c) c (map addr_arg rs) =
   c\<lparr>peer_routes := peer_routes c @ filter prefix_ok rs\<rparr>"
  by (induction rs arbitrary: c) (auto simp: parse_addr_arg add_peer_route_cfg_def)

section \<open>Properties\<close>

text \<open>
  An address with a prefix length, printed the way the library passes it to the proxy,
  is parsed by the proxy to the same address and prefix length, for every IPv4 and IPv6
  address, compressed and IPv4-mapped forms included; it is rejected exactly when the
  prefix is longer than the address.
\<close>

lemma parse_ip_prefix_roundtrip:
  "parse_ip_prefix (show_ip_addr ip @ ''/'' @ dec (unat plen)) =
     (if unat plen \<le> (case ip of V4 _ \<Rightarrow> 32 | V6 _ \<Rightarrow> 128) then Some (ip, plen) else None)"
  using parse_addr_arg [of "(ip, plen)"] by (cases ip) (simp_all add: addr_arg_def prefix_ok_def)

text \<open>What the proxy makes of the arguments it is started with.\<close>

lemma proxy_config_parsed:
  assumes "parses_options clap" and "fd < 2 ^ 31"
    and "interface_name c \<noteq> []" and "hd (interface_name c) \<noteq> CHR ''-''"
  shows "\<exists>a. clap (proxy_args pid fd c) = Some a \<and> a_pid a = Some pid \<and> a_frame_fd a = Some fd \<and>
    build_tap_config a =
      \<lparr>interface_name = interface_name c,
       peer_addr = (case peer_addr c of None \<Rightarrow> None | Some p \<Rightarrow> if prefix_ok p then Some p else None),
       local_addr = None, mac = None, packet_loss_percent = 0,
       peer_routes = filter prefix_ok (peer_routes c), mtu = mtu c\<rparr>"
proof -
  have "option_values (proxy_options pid fd c)"
    using assms(3,4) addr_arg_value dec_value
    by (auto simp: option_values_def proxy_options_def list_all_iff split: option.splits)
  then have "clap (proxy_args pid fd c) = args_of (proxy_options pid fd c) args_default"
    using assms(1) by (simp add: parses_options_def proxy_args_options)
  with args_of_proxy_options [OF assms(2), of pid c] show ?thesis
    by (cases "peer_addr c")
       (auto simp: build_tap_config_def build_routes parse_addr_arg Let_def set_mtu_def set_peer_addr_def
         set_packet_loss_percent_def set_interface_name_def tap_config_new_def tap_config_default_def)
qed


text \<open>A parser of options with values, to show that the assumption on the parser can hold.\<close>

fun pair_options :: "string list \<Rightarrow> (string \<times> string) list" where
  "pair_options (k # v # r) = (k, v) # pair_options r"
| "pair_options _ = []"

definition simple_clap :: "string list \<Rightarrow> args option" where
  "simple_clap l = args_of (pair_options l) args_default"

lemma simple_clap_parses: "parses_options simple_clap"
proof -
  have "pair_options (concat (map (\<lambda>(k, v). [k, v]) ps)) = ps" for ps :: "(string \<times> string) list"
    by (induction ps) auto
  then show ?thesis by (simp add: parses_options_def simple_clap_def)
qed

definition config0 :: tap_config where
  "config0 = set_peer_addr (V4 0x0A000001) 24 tap_config_new"


text \<open>The places the search looks at, in order.\<close>

definition proxy_candidates :: "search_env \<Rightarrow> string list" where
  "proxy_candidates e =
     (case current_exe e of
        Inl _ \<Rightarrow> []
      | Inr exe \<Rightarrow>
          (case path_parent exe of
             None \<Rightarrow> []
           | Some d \<Rightarrow> path_join d PROXY_NAME #
               (case path_parent d of None \<Rightarrow> [] | Some p \<Rightarrow> [path_join p PROXY_NAME]))) @
     (case env_var e ''TAP_TUNNEL_PROXY'' of None \<Rightarrow> [] | Some p \<Rightarrow> [p]) @
     (case env_var e ''CARGO_MANIFEST_DIR'' of
        None \<Rightarrow> []
      | Some d \<Rightarrow> [path_join (path_join (path_join d ''target'') ''debug'') PROXY_NAME,
                  path_join (path_join (path_join d ''target'') ''release'') PROXY_NAME]) @
     (case which_output e of None \<Rightarrow> [] | Some p \<Rightarrow> [p])"

fun first_existing :: "search_env \<Rightarrow> string list \<Rightarrow> string io_result option" where
  "first_existing e [] = None"
| "first_existing e (p # ps) = or_else (check_path e p) (first_existing e ps)"

lemma or_else_simps [simp]: "or_else None b = b" "or_else (Some x) b = Some x" "or_else a None = a"
  by (simp_all add: or_else_def split: option.splits)

lemma or_else_assoc: "or_else (or_else a b) c = or_else a (or_else b c)"
  by (cases a) simp_all

lemma first_existing_append:
  "first_existing e (ps @ qs) = or_else (first_existing e ps) (first_existing e qs)"
  by (induction ps) (simp_all add: or_else_assoc)

text \<open>
  The search for the proxy returns the first path that exists among the executable's
  directory and its parent, the \<^verbatim>\<open>TAP_TUNNEL_PROXY\<close> variable, the debug and the release
  build and the result of \<^verbatim>\<open>which\<close>, in this order; a failed check on the way ends it with
  that error, and \<open>NotFound\<close> means that none of them exists.
\<close>

lemma find_proxy_binary_first:
  "find_proxy_binary e =
     (case first_existing e (proxy_candidates e) of
        Some r \<Rightarrow> r
      | None \<Rightarrow> Inl (IoError NotFound not_found_message))"
proof -
  let ?s1 = "case current_exe e of
       Inl _ \<Rightarrow> []
     | Inr exe \<Rightarrow>
         (case path_parent exe of
            None \<Rightarrow> []
          | Some d \<Rightarrow> path_join d PROXY_NAME #
              (case path_parent d of None \<Rightarrow> [] | Some p \<Rightarrow> [path_join p PROXY_NAME]))"
  have s1: "first_existing e ?s1 =
     (case current_exe e of
        Inl _ \<Rightarrow> None
      | Inr exe \<Rightarrow>
          (case path_parent exe of
             None \<Rightarrow> None
           | Some d \<Rightarrow> or_else (check_path e (path_join d PROXY_NAME))
               (case path_parent d of None \<Rightarrow> None | Some p \<Rightarrow> check_path e (path_join p PROXY_NAME))))"
    by (simp split: sum.splits option.splits)
  show ?thesis
    unfolding proxy_candidates_def find_proxy_binary_def first_existing_append s1 Let_def
    by (cases "env_var e ''TAP_TUNNEL_PROXY''"; cases "env_var e ''CARGO_MANIFEST_DIR''"; cases "which_output e")
       (simp_all add: or_else_assoc)
qed

end
