(* ===== verification/Unix_Socket.thy ===== *)
theory Unix_Socket
  imports Prelude
begin

text \<open>
  The Unix sockets of the connection between library and proxy: \<^verbatim>\<open>src/ipc.rs\<close> and
  \<^verbatim>\<open>proxy/src/ipc.rs\<close>. The system calls are a parameter: each returns a number, negative on
  failure, and the new state of the system. An \<^verbatim>\<open>OwnedFd\<close> that goes out of scope is closed.
\<close>

section \<open>System calls\<close>

datatype sockopt = SO_SNDBUF | SO_RCVBUF

record sockaddr_un =
  sun_path :: bytes

record 'o libc_api =
  sys_socket :: "'o \<Rightarrow> int \<times> 'o"
  sys_socketpair :: "'o \<Rightarrow> int \<times> (nat \<times> nat) \<times> 'o"
  sys_setsockopt :: "'o \<Rightarrow> nat \<Rightarrow> sockopt \<Rightarrow> int \<Rightarrow> int \<times> 'o"
  sys_connect :: "'o \<Rightarrow> nat \<Rightarrow> sockaddr_un \<Rightarrow> int \<times> 'o"
  sys_bind :: "'o \<Rightarrow> nat \<Rightarrow> sockaddr_un \<Rightarrow> int \<times> 'o"
  sys_listen :: "'o \<Rightarrow> nat \<Rightarrow> nat \<Rightarrow> int \<times> 'o"
  sys_accept4 :: "'o \<Rightarrow> nat \<Rightarrow> int \<times> 'o"
  sys_close :: "'o \<Rightarrow> nat \<Rightarrow> 'o"
  remove_file :: "'o \<Rightarrow> bytes \<Rightarrow> 'o"
  errno :: "'o \<Rightarrow> io_error"

section \<open>The library's side\<close>

definition IPC_SOCKET_BUFFER_SIZE :: int where "IPC_SOCKET_BUFFER_SIZE = 2 * 1024 * 1024"

fun set_opts :: "'o libc_api \<Rightarrow> 'o \<Rightarrow> nat \<Rightarrow> sockopt list \<Rightarrow> unit io_result \<times> 'o" where
  "set_opts L st fd [] = (Inr (), st)"
| "set_opts L st fd (opt # opts) =
     (case sys_setsockopt L st fd opt IPC_SOCKET_BUFFER_SIZE of
        (ret, st1) \<Rightarrow> if ret < 0 then (Inl (errno L st1), st1) else set_opts L st1 fd opts)"

definition set_socket_buffers :: "'o libc_api \<Rightarrow> 'o \<Rightarrow> nat \<Rightarrow> unit io_result \<times> 'o" where
  "set_socket_buffers L st fd = set_opts L st fd [SO_SNDBUF, SO_RCVBUF]"

definition create_socketpair :: "'o libc_api \<Rightarrow> 'o \<Rightarrow> (nat \<times> nat) io_result \<times> 'o" where
  "create_socketpair L st =
     (case sys_socketpair L st of
        (ret, (parent_fd, child_fd), st1) \<Rightarrow>
          if ret < 0 then (Inl (errno L st1), st1)
          else
            (case set_socket_buffers L st1 parent_fd of
               (Inl e, st2) \<Rightarrow> (Inl e, sys_close L (sys_close L st2 child_fd) parent_fd)
             | (Inr _, st2) \<Rightarrow>
                 (case set_socket_buffers L st2 child_fd of
                    (Inl e, st3) \<Rightarrow> (Inl e, sys_close L (sys_close L st3 child_fd) parent_fd)
                  | (Inr _, st3) \<Rightarrow> (Inr (parent_fd, child_fd), st3))))"

definition path_too_long :: io_error where
  "path_too_long = IoError InvalidInput ''socket path too long (max 107 bytes)''"

text \<open>The zeroed address with the path copied to its front.\<close>

definition unix_addr :: "bytes \<Rightarrow> sockaddr_un" where
  "unix_addr path = \<lparr>sun_path = path @ replicate (108 - length path) 0\<rparr>"

definition connect_stream :: "'o libc_api \<Rightarrow> 'o \<Rightarrow> bytes \<Rightarrow> nat io_result \<times> 'o" where
  "connect_stream L st path =
     (case sys_socket L st of
        (ret, st1) \<Rightarrow>
          if ret < 0 then (Inl (errno L st1), st1)
          else
            (let fd = nat ret
             in if 108 \<le> length path then (Inl path_too_long, sys_close L st1 fd)
                else
                  (case sys_connect L st1 fd (unix_addr path) of
                     (ret2, st2) \<Rightarrow>
                       if ret2 < 0 then (Inl (errno L st2), sys_close L st2 fd)
                       else (Inr fd, st2))))"

section \<open>The proxy's side\<close>

definition create_stream_listener :: "'o libc_api \<Rightarrow> 'o \<Rightarrow> bytes \<Rightarrow> nat io_result \<times> 'o" where
  "create_stream_listener L st path =
     (case sys_socket L st of
        (ret, st1) \<Rightarrow>
          if ret < 0 then (Inl (errno L st1), st1)
          else
            (let fd = nat ret; st2 = remove_file L st1 path
             in if 108 \<le> length path then (Inl path_too_long, sys_close L st2 fd)
                else
                  (case sys_bind L st2 fd (unix_addr path) of
                     (ret2, st3) \<Rightarrow>
                       if ret2 < 0 then (Inl (errno L st3), sys_close L st3 fd)
                       else
                         (case sys_listen L st3 fd 1 of
                            (ret3, st4) \<Rightarrow>
                              if ret3 < 0 then (Inl (errno L st4), sys_close L st4 fd)
                              else (Inr fd, st4)))))"

definition accept_stream :: "'o libc_api \<Rightarrow> 'o \<Rightarrow> nat \<Rightarrow> nat io_result \<times> 'o" where
  "accept_stream L st listener =
     (case sys_accept4 L st listener of
        (ret, st1) \<Rightarrow> if ret < 0 then (Inl (errno L st1), st1) else (Inr (nat ret), st1))"

section \<open>Open file descriptors\<close>

text \<open>
  What the calls do to the set of open descriptors: a call that makes one returns a number
  that was not in use; a failed one changes nothing; the others leave the set alone.
\<close>

definition fd_table :: "'o libc_api \<Rightarrow> ('o \<Rightarrow> nat set) \<Rightarrow> bool" where
  "fd_table L open_fds \<longleftrightarrow>
     (\<forall>st ret st'. sys_socket L st = (ret, st') \<longrightarrow>
        (if ret < 0 then open_fds st' = open_fds st
         else nat ret \<notin> open_fds st \<and> open_fds st' = insert (nat ret) (open_fds st))) \<and>
     (\<forall>st ret a b st'. sys_socketpair L st = (ret, (a, b), st') \<longrightarrow>
        (if ret < 0 then open_fds st' = open_fds st
         else a \<notin> open_fds st \<and> b \<notin> open_fds st \<and> a \<noteq> b \<and> open_fds st' = {a, b} \<union> open_fds st)) \<and>
     (\<forall>st l ret st'. sys_accept4 L st l = (ret, st') \<longrightarrow>
        (if ret < 0 then open_fds st' = open_fds st
         else nat ret \<notin> open_fds st \<and> open_fds st' = insert (nat ret) (open_fds st))) \<and>
     (\<forall>st fd opt v. open_fds (snd (sys_setsockopt L st fd opt v)) = open_fds st) \<and>
     (\<forall>st fd a. open_fds (snd (sys_connect L st fd a)) = open_fds st) \<and>
     (\<forall>st fd a. open_fds (snd (sys_bind L st fd a)) = open_fds st) \<and>
     (\<forall>st fd n. open_fds (snd (sys_listen L st fd n)) = open_fds st) \<and>
     (\<forall>st p. open_fds (remove_file L st p) = open_fds st) \<and>
     (\<forall>st fd. open_fds (sys_close L st fd) = open_fds st - {fd})"

lemma fd_tableD:
  assumes "fd_table L open_fds"
  shows "open_fds (snd (sys_setsockopt L st fd opt v)) = open_fds st"
    and "open_fds (snd (sys_connect L st fd a)) = open_fds st"
    and "open_fds (snd (sys_bind L st fd a)) = open_fds st"
    and "open_fds (snd (sys_listen L st fd n)) = open_fds st"
    and "open_fds (remove_file L st p) = open_fds st"
    and "open_fds (sys_close L st fd) = open_fds st - {fd}"
  using assms by (simp_all add: fd_table_def)

lemma fd_table_new:
  assumes "fd_table L open_fds"
  shows "sys_socket L st = (ret, st') \<Longrightarrow> 0 \<le> ret \<Longrightarrow>
      nat ret \<notin> open_fds st \<and> open_fds st' = insert (nat ret) (open_fds st)"
    and "sys_socket L st = (ret, st') \<Longrightarrow> ret < 0 \<Longrightarrow> open_fds st' = open_fds st"
    and "sys_accept4 L st l = (ret, st') \<Longrightarrow> 0 \<le> ret \<Longrightarrow>
      nat ret \<notin> open_fds st \<and> open_fds st' = insert (nat ret) (open_fds st)"
    and "sys_accept4 L st l = (ret, st') \<Longrightarrow> ret < 0 \<Longrightarrow> open_fds st' = open_fds st"
    and "sys_socketpair L st = (ret, (x, y), st') \<Longrightarrow> 0 \<le> ret \<Longrightarrow>
      x \<notin> open_fds st \<and> y \<notin> open_fds st \<and> x \<noteq> y \<and> open_fds st' = {x, y} \<union> open_fds st"
    and "sys_socketpair L st = (ret, (x, y), st') \<Longrightarrow> ret < 0 \<Longrightarrow> open_fds st' = open_fds st"
  using assms by (auto simp: fd_table_def)

lemma set_opts_fds:
  "fd_table L open_fds \<Longrightarrow> open_fds (snd (set_opts L st fd opts)) = open_fds st"
proof (induction opts arbitrary: st)
  case Nil
  then show ?case by simp
next
  case (Cons opt opts)
  obtain ret st1 where "sys_setsockopt L st fd opt IPC_SOCKET_BUFFER_SIZE = (ret, st1)" by fastforce
  with Cons fd_tableD(1) [OF Cons.prems, of st fd opt IPC_SOCKET_BUFFER_SIZE] show ?case by simp
qed

lemma create_socketpair_fds:
  assumes "fd_table L open_fds"
  shows "case create_socketpair L st of
      (Inl _, st') \<Rightarrow> open_fds st' = open_fds st
    | (Inr (a, b), st') \<Rightarrow> a \<notin> open_fds st \<and> b \<notin> open_fds st \<and> a \<noteq> b \<and> open_fds st' = {a, b} \<union> open_fds st"
proof -
  obtain ret a b st1 where s: "sys_socketpair L st = (ret, (a, b), st1)" 
    by (cases "sys_socketpair L st") (metis surj_pair)
  show ?thesis
  proof (cases "ret < 0")
    case True
    with s fd_table_new(6) [OF assms s] show ?thesis by (simp add: create_socketpair_def)
  next
    case False
    then have n: "a \<notin> open_fds st" "b \<notin> open_fds st" "a \<noteq> b" "open_fds st1 = {a, b} \<union> open_fds st"
      using fd_table_new(5) [OF assms s] by auto
    obtain r2 st2 where r2: "set_socket_buffers L st1 a = (r2, st2)" by fastforce
    obtain r3 st3 where r3: "set_socket_buffers L st2 b = (r3, st3)" by fastforce
    have "open_fds st2 = open_fds st1" "open_fds st3 = open_fds st2"
      using set_opts_fds [OF assms] r2 r3 by (metis set_socket_buffers_def snd_conv)+
    with False s n r2 r3 show ?thesis
      by (auto simp: create_socketpair_def fd_tableD(6) [OF assms] split: sum.splits)
  qed
qed

text \<open>
  C31: No call of the two socket modules leaks a file descriptor. When a function fails, at
  whatever step, the descriptors open afterwards are those open before; when it succeeds,
  exactly the descriptors it returns have been added.
\<close>

theorem socket_fds_balanced:
  assumes "fd_table L open_fds"
  shows "(case create_socketpair L st of
      (Inl _, st') \<Rightarrow> open_fds st' = open_fds st
    | (Inr (a, b), st') \<Rightarrow> a \<noteq> b \<and> open_fds st' - open_fds st = {a, b} \<and> open_fds st \<subseteq> open_fds st') \<and>
   (case connect_stream L st path of
      (Inl _, st') \<Rightarrow> open_fds st' = open_fds st
    | (Inr fd, st') \<Rightarrow> open_fds st' - open_fds st = {fd} \<and> open_fds st \<subseteq> open_fds st') \<and>
   (case create_stream_listener L st path of
      (Inl _, st') \<Rightarrow> open_fds st' = open_fds st
    | (Inr fd, st') \<Rightarrow> open_fds st' - open_fds st = {fd} \<and> open_fds st \<subseteq> open_fds st') \<and>
   (case accept_stream L st l of
      (Inl _, st') \<Rightarrow> open_fds st' = open_fds st
    | (Inr fd, st') \<Rightarrow> open_fds st' - open_fds st = {fd} \<and> open_fds st \<subseteq> open_fds st')"
proof (intro conjI, goal_cases)
  case 1
  from create_socketpair_fds [OF assms, of st] show ?case by (auto split: prod.splits sum.splits)
next
  case 2
  obtain ret st1 where s: "sys_socket L st = (ret, st1)" by fastforce
  obtain ret2 st2 where c: "sys_connect L st1 (nat ret) (unix_addr path) = (ret2, st2)" by fastforce
  have "open_fds st2 = open_fds st1" using fd_tableD(2) [OF assms] c by (metis snd_conv)
  with s c fd_table_new(1,2) [OF assms s] show ?case
    by (auto simp: connect_stream_def Let_def fd_tableD(6) [OF assms])
next
  case 3
  obtain ret st1 where s: "sys_socket L st = (ret, st1)" by fastforce
  let ?st2 = "remove_file L st1 path"
  obtain ret2 st3 where b: "sys_bind L ?st2 (nat ret) (unix_addr path) = (ret2, st3)" by fastforce
  obtain ret3 st4 where l: "sys_listen L st3 (nat ret) 1 = (ret3, st4)" by fastforce
  have "open_fds st3 = open_fds ?st2" "open_fds st4 = open_fds st3"
    using fd_tableD(3,4) [OF assms] b l by (metis snd_conv)+
  with s b l fd_table_new(1,2) [OF assms s] show ?case
    by (auto simp: create_stream_listener_def Let_def fd_tableD(5,6) [OF assms])
next
  case 4
  obtain ret st1 where s: "sys_accept4 L st l = (ret, st1)" by fastforce
  with fd_table_new(3,4) [OF assms s] show ?case by (auto simp: accept_stream_def)
qed

text \<open>A system that is nothing but a table of descriptors, on which \<^verbatim>\<open>connect\<close> is refused.\<close>

definition fresh_fd :: "nat list \<Rightarrow> nat" where
  "fresh_fd l = Suc (sum_list l)"

lemma fresh_fd: "fresh_fd l \<notin> set l"
  by (auto simp: fresh_fd_def dest: member_le_sum_list)

lemma fresh_fd_next: "fresh_fd (fresh_fd l # l) \<notin> set l" "fresh_fd l \<noteq> fresh_fd (fresh_fd l # l)"
  using fresh_fd [of "fresh_fd l # l"] by auto

definition table_libc :: "nat list libc_api" where
  "table_libc = \<lparr>sys_socket = (\<lambda>l. (int (fresh_fd l), fresh_fd l # l)),
     sys_socketpair = (\<lambda>l. let a = fresh_fd l; b = fresh_fd (a # l) in (0, (a, b), b # a # l)),
     sys_setsockopt = (\<lambda>l fd opt v. (0, l)), sys_connect = (\<lambda>l fd a. (- 1, l)),
     sys_bind = (\<lambda>l fd a. (0, l)), sys_listen = (\<lambda>l fd b. (0, l)),
     sys_accept4 = (\<lambda>l fd. (int (fresh_fd l), fresh_fd l # l)),
     sys_close = (\<lambda>l fd. removeAll fd l), remove_file = (\<lambda>l p. l), errno = (\<lambda>_. IoError ConnectionRefused [])\<rparr>"

lemma table_libc_fd_table: "fd_table table_libc set"
  using fresh_fd fresh_fd_next by (auto simp: fd_table_def table_libc_def Let_def)

theorem socket_fds_balanced_witness:
  "case connect_stream table_libc [3] [47] of (Inl _, st') \<Rightarrow> set st' = {3} | (Inr fd, st') \<Rightarrow> False"
  using socket_fds_balanced [OF table_libc_fd_table, of "[3]" "[47]" 0]
  by (simp add: connect_stream_def table_libc_def)

end
