(* ===== verification/Handshake.thy ===== *)
theory Handshake
  imports Streams Tap_Config Unix_Socket
begin

text \<open>
  The handshake between library and proxy. On the proxy's side the blocking reads and
  writes on a file descriptor and \<^verbatim>\<open>perform_handshake\<close> of \<^verbatim>\<open>proxy/src/main.rs\<close>; on the
  library's side \<^verbatim>\<open>connect_with_config_blocking\<close> and \<^verbatim>\<open>connect_to_blocking\<close> of
  \<^verbatim>\<open>src/lib.rs\<close> up to their call of \<^verbatim>\<open>setup_stack_from_fd\<close>. JSON, the system calls and the
  clock are parameters.
\<close>

section \<open>Blocking reads and writes of the proxy\<close>

text \<open>
  \<open>sys_read\<close> and \<open>sys_write\<close> are \<^verbatim>\<open>libc::read\<close> and \<^verbatim>\<open>libc::write\<close>; a negative result is \<open>Inl\<close>
  of the last system error. \<open>acc\<close> are the bytes read so far, \<open>offset\<close> how many were written.
\<close>

partial_function (option) read_exact_fd ::
    "('k \<Rightarrow> nat \<Rightarrow> bytes io_result \<times> 'k) \<Rightarrow> 'k \<Rightarrow> nat \<Rightarrow> bytes \<Rightarrow> (bytes io_result \<times> 'k) option" where
  "read_exact_fd sys_read k n acc =
     (if length acc < n then
        (case sys_read k (n - length acc) of
           (Inl e, k1) \<Rightarrow> Some (Inl e, k1)
         | (Inr bs, k1) \<Rightarrow>
             if bs = [] then Some (Inl (IoError UnexpectedEof ''connection closed''), k1)
             else read_exact_fd sys_read k1 n (acc @ bs))
      else Some (Inr acc, k))"

partial_function (option) write_all_fd ::
    "('k \<Rightarrow> bytes \<Rightarrow> nat io_result \<times> 'k) \<Rightarrow> 'k \<Rightarrow> bytes \<Rightarrow> nat \<Rightarrow> (unit io_result \<times> 'k) option" where
  "write_all_fd sys_write k buf offset =
     (if offset < length buf then
        (case sys_write k (drop offset buf) of
           (Inl e, k1) \<Rightarrow> Some (Inl e, k1)
         | (Inr n, k1) \<Rightarrow> write_all_fd sys_write k1 buf (offset + n))
      else Some (Inr (), k))"

section \<open>The proxy's handshake\<close>

definition client_hello_of :: "(bytes \<Rightarrow> string + client_hello) \<Rightarrow> bytes \<Rightarrow> client_hello io_result" where
  "client_hello_of from_slice buf =
     (case decode_message buf of
        Inl e \<Rightarrow> Inl e
      | Inr (Control payload) \<Rightarrow> decode_control from_slice payload
      | Inr (Frame _) \<Rightarrow> Inl (IoError InvalidData ''expected ClientHello, got frame''))"

definition perform_handshake ::
    "('k \<Rightarrow> nat \<Rightarrow> bytes io_result \<times> 'k) \<Rightarrow> ('k \<Rightarrow> bytes \<Rightarrow> nat io_result \<times> 'k) \<Rightarrow>
     (bytes \<Rightarrow> string + client_hello) \<Rightarrow> (proxy_config \<Rightarrow> string + bytes) \<Rightarrow>
     'k \<Rightarrow> tap_config \<Rightarrow> bytes \<Rightarrow> (unit io_result \<times> 'k) option" where
  "perform_handshake sys_read sys_write from_slice to_vec k config tap_mac = do {
     (r1, k1) \<leftarrow> read_exact_fd sys_read k 4 [];
     (case r1 of
        Inl e \<Rightarrow> Some (Inl e, k1)
      | Inr len_buf \<Rightarrow> do {
          (r2, k2) \<leftarrow> read_exact_fd sys_read k1 (unat (from_be_bytes len_buf :: u32)) [];
          (case r2 of
             Inl e \<Rightarrow> Some (Inl e, k2)
           | Inr buf \<Rightarrow>
               (case client_hello_of from_slice buf of
                  Inl e \<Rightarrow> Some (Inl e, k2)
                | Inr hello \<Rightarrow>
                    (case peer_addr config of
                       None \<Rightarrow> Some (Inl (IoError InvalidInput ''tap_addr must be configured''), k2)
                     | Some (tap_ip, plen) \<Rightarrow>
                         (case encode_control to_vec
                             \<lparr>pc_tap_ip = tap_ip, pc_tap_mac = tap_mac, pc_prefix_len = plen, pc_mtu = mtu config\<rparr> of
                            Inl e \<Rightarrow> Some (Inl e, k2)
                          | Inr config_msg \<Rightarrow> do {
                              (w1, k3) \<leftarrow> write_all_fd sys_write k2 (to_be_bytes 4 (of_nat (length config_msg) :: u32)) 0;
                              (case w1 of
                                 Inl e \<Rightarrow> Some (Inl e, k3)
                               | Inr _ \<Rightarrow> write_all_fd sys_write k3 config_msg 0)
                            }))))
        })
   }"

section \<open>The library's handshake\<close>

type_synonym gateway = "ip_addr \<times> bytes"

definition proxy_config_of :: "(bytes \<Rightarrow> string + proxy_config) \<Rightarrow> bytes \<Rightarrow> proxy_config io_result" where
  "proxy_config_of from_slice buf =
     (case decode_message buf of
        Inl e \<Rightarrow> Inl e
      | Inr (Control payload) \<Rightarrow> decode_control from_slice payload
      | Inr (Frame _) \<Rightarrow> Inl (IoError InvalidData ''expected ProxyConfig, got frame''))"

text \<open>A child process is the pipe of its standard error, if it has one, and its identity.\<close>

record child =
  ch_id :: nat
  ch_stderr :: "string option"

text \<open>\<^verbatim>\<open>UnixStream\<close>, the clock and \<^verbatim>\<open>Child::try_wait\<close>.\<close>

record 'o unix_api =
  ux_write_all :: "nat \<Rightarrow> 'o \<Rightarrow> bytes \<Rightarrow> unit io_result \<times> 'o"
  ux_read_exact :: "nat \<Rightarrow> 'o \<Rightarrow> nat \<Rightarrow> bytes io_result \<times> 'o"
  ux_read :: "nat \<Rightarrow> 'o \<Rightarrow> nat \<Rightarrow> bytes io_result \<times> 'o"
  set_read_timeout :: "nat \<Rightarrow> 'o \<Rightarrow> nat option \<Rightarrow> unit io_result \<times> 'o"
  after_deadline :: "'o \<Rightarrow> bool"
  try_wait :: "'o \<Rightarrow> child \<Rightarrow> string option io_result \<times> 'o"

definition is_space :: "char \<Rightarrow> bool" where
  "is_space c \<longleftrightarrow> c = CHR '' '' \<or> (9 \<le> (of_char c :: nat) \<and> (of_char c :: nat) \<le> 13)"

definition trim :: "string \<Rightarrow> string" where
  "trim s = rev (dropWhile is_space (rev (dropWhile is_space s)))"

definition read_child_stderr :: "child \<Rightarrow> string" where
  "read_child_stderr c = trim (case ch_stderr c of None \<Rightarrow> [] | Some s \<Rightarrow> s)"

definition with_stderr :: "string \<Rightarrow> string \<Rightarrow> string" where
  "with_stderr m stderr = (if stderr = [] then m else m @ '': '' @ stderr)"

text \<open>The loop that reads the length prefix, with the bytes read so far.\<close>

partial_function (option) read_len_prefix ::
    "'o unix_api \<Rightarrow> nat \<Rightarrow> child \<Rightarrow> bytes \<Rightarrow> 'o \<Rightarrow> (bytes io_result \<times> 'o) option" where
  "read_len_prefix U fd proxy_child len_buf st =
     (case ux_read U fd st (4 - length len_buf) of
        (Inr bs, st1) \<Rightarrow>
          if bs = [] then
            Some (Inl (IoError UnexpectedEof
              (with_stderr ''proxy closed connection during handshake'' (read_child_stderr proxy_child))), st1)
          else if 4 \<le> length (len_buf @ bs) then Some (Inr (len_buf @ bs), st1)
          else read_len_prefix U fd proxy_child (len_buf @ bs) st1
      | (Inl e, st1) \<Rightarrow>
          if kind e = WouldBlock \<or> kind e = TimedOut then
            (if after_deadline U st1 then
               Some (Inl (IoError TimedOut ''timed out waiting for proxy handshake''), st1)
             else
               (case try_wait U st1 proxy_child of
                  (Inl e2, st2) \<Rightarrow> Some (Inl e2, st2)
                | (Inr (Some status), st2) \<Rightarrow>
                    Some (Inl (IoError Other
                      (with_stderr (''proxy exited with '' @ status) (read_child_stderr proxy_child))), st2)
                | (Inr None, st2) \<Rightarrow> read_len_prefix U fd proxy_child len_buf st2))
          else Some (Inl e, st1))"

text \<open>
  The client's address: the configured one, or the one after the TAP address, whose
  computation may panic.
\<close>

definition pick_client_ip :: "bool \<Rightarrow> ip_addr option \<Rightarrow> ip_addr \<Rightarrow> ip_addr option" where
  "pick_client_ip chk configured tap_ip =
     (case configured of Some ip \<Rightarrow> Some ip | None \<Rightarrow> default_client_ip chk tap_ip)"

definition default_mac :: "u32 \<Rightarrow> bytes" where
  "default_mac pid = [0x02, 0x00, 0x00, 0x00, 0x00, ucast (pid AND 0xff)]"

definition spawned_config :: "bool \<Rightarrow> u32 \<Rightarrow> tap_config \<Rightarrow> proxy_config \<Rightarrow> tap_config option" where
  "spawned_config chk pid config pc =
     map_option (\<lambda>client_ip.
        let c = set_mtu (pc_mtu pc) (set_local_addr client_ip (pc_prefix_len pc)
                  (set_peer_addr (pc_tap_ip pc) (pc_prefix_len pc) config))
        in if mac c = None then c\<lparr>mac := Some (default_mac pid)\<rparr> else c)
       (pick_client_ip chk (map_option fst (local_addr config)) (pc_tap_ip pc))"

definition connected_config :: "bool \<Rightarrow> ip_addr option \<Rightarrow> proxy_config \<Rightarrow> tap_config option" where
  "connected_config chk local_ip pc =
     map_option (\<lambda>client_ip.
        set_mtu (pc_mtu pc) (set_local_addr client_ip (pc_prefix_len pc)
          (set_peer_addr (pc_tap_ip pc) (pc_prefix_len pc) tap_config_new)))
       (pick_client_ip chk local_ip (pc_tap_ip pc))"

text \<open>
  What both functions do with the message of the proxy. \<open>None\<close> is the panic; an error drops
  the stream, which closes it.
\<close>

definition finish_handshake ::
    "'o libc_api \<Rightarrow> (bytes \<Rightarrow> string + proxy_config) \<Rightarrow> (proxy_config \<Rightarrow> tap_config option) \<Rightarrow> nat \<Rightarrow>
     bytes \<Rightarrow> 'o \<Rightarrow> ((tap_config \<times> gateway \<times> nat) io_result \<times> 'o) option" where
  "finish_handshake L from_slice configure fd buf st =
     (case proxy_config_of from_slice buf of
        Inl e \<Rightarrow> Some (Inl e, sys_close L st fd)
      | Inr pc \<Rightarrow> do {
          config \<leftarrow> configure pc;
          Some (Inr (config, (pc_tap_ip pc, pc_tap_mac pc), fd), st)
        })"

definition send_hello ::
    "'o unix_api \<Rightarrow> (client_hello \<Rightarrow> string + bytes) \<Rightarrow> nat \<Rightarrow> 'o \<Rightarrow> unit io_result \<times> 'o" where
  "send_hello U to_vec fd st =
     (case encode_control to_vec ClientHello of
        Inl e \<Rightarrow> (Inl e, st)
      | Inr hello_msg \<Rightarrow> write_framed_sync (ux_write_all U fd) st hello_msg)"

definition connect_to_blocking ::
    "bool \<Rightarrow> 'o libc_api \<Rightarrow> 'o unix_api \<Rightarrow> (client_hello \<Rightarrow> string + bytes) \<Rightarrow>
     (bytes \<Rightarrow> string + proxy_config) \<Rightarrow> bytes \<Rightarrow> ip_addr option \<Rightarrow> 'o \<Rightarrow>
     ((tap_config \<times> gateway \<times> nat) io_result \<times> 'o) option" where
  "connect_to_blocking chk L U to_vec from_slice socket_path local_ip st =
     (case connect_stream L st socket_path of
        (Inl e, st1) \<Rightarrow> Some (Inl e, st1)
      | (Inr fd, st1) \<Rightarrow>
          (case send_hello U to_vec fd st1 of
             (Inl e, st2) \<Rightarrow> Some (Inl e, sys_close L st2 fd)
           | (Inr _, st2) \<Rightarrow>
               (case set_read_timeout U fd st2 (Some 5000) of
                  (Inl e, st3) \<Rightarrow> Some (Inl e, sys_close L st3 fd)
                | (Inr _, st3) \<Rightarrow>
                    (case read_framed_sync (ux_read_exact U fd) st3 (replicate 1024 0) of
                       (Inl e, st4, buf) \<Rightarrow> Some (Inl e, sys_close L st4 fd)
                     | (Inr n, st4, buf) \<Rightarrow>
                         (case set_read_timeout U fd st4 None of
                            (Inl e, st5) \<Rightarrow> Some (Inl e, sys_close L st5 fd)
                          | (Inr _, st5) \<Rightarrow>
                              finish_handshake L from_slice (connected_config chk local_ip) fd (take n buf) st5)))))"

text \<open>
  \<^verbatim>\<open>connect_with_config_blocking\<close>. The child's end of the socket pair goes to \<^verbatim>\<open>spawn_proxy\<close>,
  which closes it in this process whether it fails or not; an error later on drops the
  stream and the child, and dropping a child neither kills it nor waits for it.
\<close>

definition connect_with_config_blocking ::
    "bool \<Rightarrow> 'o libc_api \<Rightarrow> 'o unix_api \<Rightarrow> 'o fd_api \<Rightarrow> ('o \<Rightarrow> search_env) \<Rightarrow>
     ('o \<Rightarrow> string \<Rightarrow> string list \<Rightarrow> child io_result \<times> 'o) \<Rightarrow>
     (client_hello \<Rightarrow> string + bytes) \<Rightarrow> (bytes \<Rightarrow> string + proxy_config) \<Rightarrow> u32 \<Rightarrow> tap_config \<Rightarrow> 'o \<Rightarrow>
     (((tap_config \<times> gateway \<times> nat) \<times> child) io_result \<times> 'o) option" where
  "connect_with_config_blocking chk L U F env spawn to_vec from_slice pid config st =
     (case create_socketpair L st of
        (Inl e, st1) \<Rightarrow> Some (Inl e, st1)
      | (Inr (parent_fd, child_fd), st1) \<Rightarrow>
          (case spawn_proxy F env spawn st1 pid child_fd config of
             (Inl e, st2) \<Rightarrow> Some (Inl e, sys_close L (sys_close L st2 child_fd) parent_fd)
           | (Inr proxy_child, st2) \<Rightarrow>
               (case send_hello U to_vec parent_fd (sys_close L st2 child_fd) of
                  (Inl e, st3) \<Rightarrow> Some (Inl e, sys_close L st3 parent_fd)
                | (Inr _, st3) \<Rightarrow>
                    (case set_read_timeout U parent_fd st3 (Some 100) of
                       (Inl e, st4) \<Rightarrow> Some (Inl e, sys_close L st4 parent_fd)
                     | (Inr _, st4) \<Rightarrow> do {
                         (r, st5) \<leftarrow> read_len_prefix U parent_fd proxy_child [] st4;
                         (case r of
                            Inl e \<Rightarrow> Some (Inl e, sys_close L st5 parent_fd)
                          | Inr len_buf \<Rightarrow>
                              (case set_read_timeout U parent_fd st5 None of
                                 (Inl e, st6) \<Rightarrow> Some (Inl e, sys_close L st6 parent_fd)
                               | (Inr _, st6) \<Rightarrow>
                                   (case ux_read_exact U parent_fd st6 (unat (from_be_bytes len_buf :: u32)) of
                                      (Inl e, st7) \<Rightarrow> Some (Inl e, sys_close L st7 parent_fd)
                                    | (Inr buf, st7) \<Rightarrow> do {
                                        (x, st8) \<leftarrow> finish_handshake L from_slice (spawned_config chk pid config) parent_fd buf st7;
                                        Some (case x of Inl e \<Rightarrow> Inl e | Inr y \<Rightarrow> Inr (y, proxy_child), st8)
                                      })))
                       }))))"

section \<open>Lemmas: the proxy's reads and writes\<close>

text \<open>
  What is documented of \<^verbatim>\<open>read\<close> and \<^verbatim>\<open>write\<close> on a connected socket: \<open>inc\<close> is what arrives
  before the connection ends, \<open>out\<close> what was accepted for sending. A read of at least one
  byte returns nothing only at the end; a write of at least one byte takes at least one.
\<close>

definition fd_io ::
    "('k \<Rightarrow> nat \<Rightarrow> bytes io_result \<times> 'k) \<Rightarrow> ('k \<Rightarrow> bytes \<Rightarrow> nat io_result \<times> 'k) \<Rightarrow>
     ('k \<Rightarrow> bytes) \<Rightarrow> ('k \<Rightarrow> bytes) \<Rightarrow> bool" where
  "fd_io sys_read sys_write inc out \<longleftrightarrow>
     (\<forall>k n bs k'. 0 < n \<and> sys_read k n = (Inr bs, k') \<longrightarrow>
        length bs \<le> n \<and> inc k = bs @ inc k' \<and> (bs = [] \<longrightarrow> inc k = []) \<and> out k' = out k) \<and>
     (\<forall>k n e k'. sys_read k n = (Inl e, k') \<longrightarrow> out k' = out k) \<and>
     (\<forall>k buf m k'. buf \<noteq> [] \<and> sys_write k buf = (Inr m, k') \<longrightarrow>
        0 < m \<and> m \<le> length buf \<and> out k' = out k @ take m buf \<and> inc k' = inc k)"

definition fd_no_error ::
    "('k \<Rightarrow> nat \<Rightarrow> bytes io_result \<times> 'k) \<Rightarrow> ('k \<Rightarrow> bytes \<Rightarrow> nat io_result \<times> 'k) \<Rightarrow> bool" where
  "fd_no_error sys_read sys_write \<longleftrightarrow>
     (\<forall>k n. \<exists>bs k'. sys_read k n = (Inr bs, k')) \<and> (\<forall>k buf. \<exists>m k'. sys_write k buf = (Inr m, k'))"

lemma read_exact_fd_effect:
  assumes "fd_io sys_read sys_write inc out" and "length acc \<le> n"
  shows "\<exists>k'. out k' = out k \<and>
    ((\<exists>bs. read_exact_fd sys_read k n acc = Some (Inr bs, k') \<and> length bs = n \<and> acc @ inc k = bs @ inc k') \<or>
     (\<exists>e. read_exact_fd sys_read k n acc = Some (Inl e, k') \<and>
        (fd_no_error sys_read sys_write \<longrightarrow> length acc + length (inc k) < n)))"
  using assms(2)
proof (induction "n - length acc" arbitrary: acc k rule: less_induct)
  case less
  show ?case
  proof (cases "length acc < n")
    case False
    with less.prems show ?thesis by (simp add: read_exact_fd.simps [of _ k])
  next
    case True
    obtain r k1 where r: "sys_read k (n - length acc) = (r, k1)" by fastforce
    show ?thesis
    proof (cases r)
      case (Inl e)
      with True r assms(1) show ?thesis
        by (auto simp: read_exact_fd.simps [of _ k] fd_io_def fd_no_error_def) (metis Pair_inject sum.distinct(1))
    next
      case (Inr bs)
      with r True assms(1) have bs: "length bs \<le> n - length acc" "inc k = bs @ inc k1"
          "bs = [] \<longrightarrow> inc k = []" "out k1 = out k"
        unfolding fd_io_def by (metis zero_less_diff)+
      show ?thesis
      proof (cases "bs = []")
        case True
        with Inr r bs \<open>length acc < n\<close> show ?thesis by (auto simp: read_exact_fd.simps [of _ k])
      next
        case False
        with bs True less.prems have l: "n - length (acc @ bs) < n - length acc" "length (acc @ bs) \<le> n"
          by (cases bs; simp)+
        have "read_exact_fd sys_read k n acc = read_exact_fd sys_read k1 n (acc @ bs)"
          using Inr r False True by (simp add: read_exact_fd.simps [of _ k])
        with less.hyps [OF l, of k1] bs show ?thesis by (simp add: add.assoc)
      qed
    qed
  qed
qed

lemma write_all_fd_effect:
  assumes "fd_io sys_read sys_write inc out" and "offset \<le> length buf"
  shows "\<exists>k'. (write_all_fd sys_write k buf offset = Some (Inr (), k') \<and>
        out k' = out k @ drop offset buf \<and> inc k' = inc k) \<or>
     (\<exists>e. write_all_fd sys_write k buf offset = Some (Inl e, k') \<and> \<not> fd_no_error sys_read sys_write)"
  using assms(2)
proof (induction "length buf - offset" arbitrary: offset k rule: less_induct)
  case less
  show ?case
  proof (cases "offset < length buf")
    case False
    with less.prems show ?thesis by (simp add: write_all_fd.simps [of _ k])
  next
    case True
    obtain r k1 where r: "sys_write k (drop offset buf) = (r, k1)" by fastforce
    show ?thesis
    proof (cases r)
      case (Inl e)
      with True r show ?thesis
        by (auto simp: write_all_fd.simps [of _ k] fd_no_error_def) (metis Pair_inject sum.distinct(1))
    next
      case (Inr m)
      moreover have "drop offset buf \<noteq> []" using True by simp
      ultimately have m: "0 < m" "m \<le> length buf - offset" "out k1 = out k @ take m (drop offset buf)" "inc k1 = inc k"
        using r assms(1) unfolding fd_io_def by (metis length_drop)+
      then have "length buf - (offset + m) < length buf - offset" "offset + m \<le> length buf"
        using True by linarith+
      note IH = less.hyps [OF this, of k1]
      have "write_all_fd sys_write k buf offset = write_all_fd sys_write k1 buf (offset + m)"
        using Inr r True by (simp add: write_all_fd.simps [of _ k])
      moreover have "take m (drop offset buf) @ drop (offset + m) buf = drop offset buf"
        by (metis add.commute append_take_drop_id drop_drop)
      ultimately show ?thesis using IH m by auto
    qed
  qed
qed

lemma read_exact_fd_cases [consumes 1, case_names filled failed]:
  assumes "fd_io sys_read sys_write inc out"
  obtains
    (filled) bs k' where "read_exact_fd sys_read k n [] = Some (Inr bs, k')" "length bs = n"
      "inc k = bs @ inc k'" "out k' = out k"
  | (failed) e k' where "read_exact_fd sys_read k n [] = Some (Inl e, k')" "out k' = out k"
      "fd_no_error sys_read sys_write \<Longrightarrow> length (inc k) < n"
  using read_exact_fd_effect [OF assms, of "[]" n k] that by auto

section \<open>Properties: the proxy's side\<close>

text \<open>
  C26: The blocking loops of the proxy end. On any connected socket \<^verbatim>\<open>read_exact_fd\<close> returns:
  with exactly the next \<open>n\<close> bytes of the stream, or with an error, and without one where
  none occurs and the bytes are there. \<^verbatim>\<open>write_all_fd\<close> returns too, and on success has
  written all of the buffer in order.
\<close>

theorem fd_loops_return:
  assumes "fd_io sys_read sys_write inc out"
  shows "(\<exists>r k'. read_exact_fd sys_read k n [] = Some (r, k') \<and>
      (case r of
         Inl e \<Rightarrow> fd_no_error sys_read sys_write \<longrightarrow> length (inc k) < n
       | Inr bs \<Rightarrow> length bs = n \<and> inc k = bs @ inc k')) \<and>
    (\<exists>r k'. write_all_fd sys_write k buf 0 = Some (r, k') \<and>
      (case r of
         Inl e \<Rightarrow> \<not> fd_no_error sys_read sys_write
       | Inr _ \<Rightarrow> out k' = out k @ buf))"
proof
  from assms show "\<exists>r k'. read_exact_fd sys_read k n [] = Some (r, k') \<and>
      (case r of Inl e \<Rightarrow> fd_no_error sys_read sys_write \<longrightarrow> length (inc k) < n
       | Inr bs \<Rightarrow> length bs = n \<and> inc k = bs @ inc k')"
    by (cases rule: read_exact_fd_cases [where k = k and n = n]) auto
  from write_all_fd_effect [OF assms, of 0 buf k] show "\<exists>r k'. write_all_fd sys_write k buf 0 = Some (r, k') \<and>
      (case r of Inl e \<Rightarrow> \<not> fd_no_error sys_read sys_write | Inr _ \<Rightarrow> out k' = out k @ buf)"
    by auto
qed

text \<open>A socket that moves one byte per call: incoming and outgoing bytes.\<close>

definition trickle_read :: "bytes \<times> bytes \<Rightarrow> nat \<Rightarrow> bytes io_result \<times> bytes \<times> bytes" where
  "trickle_read k n = (Inr (take (min n 1) (fst k)), drop (min n 1) (fst k), snd k)"

definition trickle_write :: "bytes \<times> bytes \<Rightarrow> bytes \<Rightarrow> nat io_result \<times> bytes \<times> bytes" where
  "trickle_write k buf = (Inr (min 1 (length buf)), fst k, snd k @ take 1 buf)"

lemma trickle_io: "fd_io trickle_read trickle_write fst snd" "fd_no_error trickle_read trickle_write"
  by (auto simp: fd_io_def fd_no_error_def trickle_read_def trickle_write_def min_def Suc_le_eq)

theorem fd_loops_return_witness:
  "\<exists>bs k'. read_exact_fd trickle_read ([1, 2, 3], []) 2 [] = Some (Inr bs, k') \<and> length bs = 2"
  using fd_loops_return [OF trickle_io(1), of "([1, 2, 3], [])" 2 "[]"] trickle_io(2)
  by (auto split: sum.splits)

text \<open>The messages of the handshake.\<close>

abbreviation control :: "bytes \<Rightarrow> bytes" where
  "control json \<equiv> MSG_TYPE_CONTROL # json"

lemma decode_control_message [simp]: "decode_message (control json) = Inr (Control json)"
  by (simp add: decode_message_def)

lemma read_exact_fd_next:
  assumes "fd_io sys_read sys_write inc out" "fd_no_error sys_read sys_write"
    and "inc k = bs @ rest" and "length bs = n"
  shows "\<exists>k'. read_exact_fd sys_read k n [] = Some (Inr bs, k') \<and> inc k' = rest \<and> out k' = out k"
  using assms(1)
proof (cases rule: read_exact_fd_cases [where k = k and n = n])
  case (filled bs' k')
  from filled(3) assms(3) have "bs @ rest = bs' @ inc k'" by simp
  then have "bs = bs' \<and> rest = inc k'" using filled(2) assms(4) by (intro append_eq_append_conv [THEN iffD1]) simp_all
  with filled show ?thesis by simp
next
  case (failed e k')
  with assms(2-4) have "length (bs @ rest) < length bs" by simp
  then show ?thesis by simp
qed

lemma read_framed_fd:
  assumes "fd_io sys_read sys_write inc out" "fd_no_error sys_read sys_write"
    and "inc k = framed m @ rest" and "length m < 2 ^ 32"
  obtains k1 k2 where "read_exact_fd sys_read k 4 [] = Some (Inr (to_be_bytes 4 (of_nat (length m) :: u32)), k1)"
    "read_exact_fd sys_read k1 (length m) [] = Some (Inr m, k2)" "inc k2 = rest" "out k2 = out k"
    "unat (from_be_bytes (to_be_bytes 4 (of_nat (length m) :: u32)) :: u32) = length m"
proof -
  let ?len = "to_be_bytes 4 (of_nat (length m) :: u32)"
  have "inc k = ?len @ (m @ rest)" using assms(3) by (simp add: framed_def)
  from read_exact_fd_next [OF assms(1,2) this, of 4] obtain k1
    where k1: "read_exact_fd sys_read k 4 [] = Some (Inr ?len, k1)" "inc k1 = m @ rest" "out k1 = out k" by auto
  from read_exact_fd_next [OF assms(1,2) k1(2) refl] obtain k2
    where k2: "read_exact_fd sys_read k1 (length m) [] = Some (Inr m, k2)" "inc k2 = rest" "out k2 = out k1" by auto
  have "unat (from_be_bytes ?len :: u32) = length m" using assms(4) by (simp add: from_to_be_bytes unat_of_nat)
  with that [OF k1(1) k2(1,2)] k1(3) k2(3) show thesis by simp
qed

lemma perform_handshake_ok:
  assumes "fd_io sys_read sys_write inc out" "fd_no_error sys_read sys_write"
    and "inc k = framed (control hello) @ rest" and "length hello < 2 ^ 32 - 1"
    and "from_slice hello = Inr h" and "peer_addr config = Some (tap_ip, plen)"
    and "to_vec \<lparr>pc_tap_ip = tap_ip, pc_tap_mac = tap_mac, pc_prefix_len = plen, pc_mtu = mtu config\<rparr> = Inr json"
  shows "\<exists>k'. perform_handshake sys_read sys_write from_slice to_vec k config tap_mac = Some (Inr (), k') \<and>
    out k' = out k @ framed (control json) \<and> inc k' = rest"
proof -
  have "length (control hello) < 2 ^ 32" using assms(4) by simp
  from read_framed_fd [OF assms(1-3) this] obtain k1 k2 where
    k1: "read_exact_fd sys_read k 4 [] = Some (Inr (to_be_bytes 4 (of_nat (length (control hello)) :: u32)), k1)"
    and k2: "read_exact_fd sys_read k1 (length (control hello)) [] = Some (Inr (control hello), k2)"
      "inc k2 = rest" "out k2 = out k"
    and len: "unat (from_be_bytes (to_be_bytes 4 (of_nat (length (control hello)) :: u32)) :: u32) = length (control hello)"
    by blast
  let ?len = "to_be_bytes 4 (of_nat (length (control json)) :: u32)"
  obtain k3 where k3: "write_all_fd sys_write k2 ?len 0 = Some (Inr (), k3)" "out k3 = out k @ ?len" "inc k3 = rest"
    using write_all_fd_effect [OF assms(1), of 0 ?len k2] assms(2) k2 by auto
  obtain k4 where k4: "write_all_fd sys_write k3 (control json) 0 = Some (Inr (), k4)"
      "out k4 = out k3 @ control json" "inc k4 = rest"
    using write_all_fd_effect [OF assms(1), of 0 "control json" k3] assms(2) k3 by auto
  show ?thesis
    using k1 k2(1) len k3 k4 assms(5-7)
    by (simp add: perform_handshake_def client_hello_of_def decode_control_def encode_control_def framed_def)
qed

text \<open>Without an address for the TAP interface nothing is ever sent.\<close>

lemma perform_handshake_no_address:
  assumes "fd_io sys_read sys_write inc out" and "peer_addr config = None"
  shows "\<exists>e k'. perform_handshake sys_read sys_write from_slice to_vec k config tap_mac = Some (Inl e, k') \<and>
    out k' = out k"
proof -
  from assms(1) show ?thesis
  proof (cases rule: read_exact_fd_cases [where k = k and n = 4])
    case (failed e k1)
    then show ?thesis by (simp add: perform_handshake_def)
  next
    case (filled len_buf k1)
    let ?n = "unat (from_be_bytes len_buf :: u32)"
    from assms(1) show ?thesis
      by (cases rule: read_exact_fd_cases [where k = k1 and n = ?n])
         (use filled assms(2) in \<open>auto simp: perform_handshake_def split: sum.splits\<close>)
  qed
qed

section \<open>Properties: the library's side\<close>

text \<open>
  What is relied on of the clock: a read returns no more than was asked for; one that
  times out brings the deadline nearer, counted in \<open>ticks\<close>, until it has passed.
\<close>

definition deadline_nears :: "'o unix_api \<Rightarrow> nat \<Rightarrow> ('o \<Rightarrow> nat) \<Rightarrow> bool" where
  "deadline_nears U fd ticks \<longleftrightarrow>
     (\<forall>st n bs st'. ux_read U fd st n = (Inr bs, st') \<longrightarrow> length bs \<le> n \<and> ticks st' \<le> ticks st) \<and>
     (\<forall>st n e st'. ux_read U fd st n = (Inl e, st') \<and> (kind e = WouldBlock \<or> kind e = TimedOut) \<longrightarrow>
        ticks st' < ticks st \<or> after_deadline U st') \<and>
     (\<forall>st c r st'. try_wait U st c = (r, st') \<longrightarrow> ticks st' \<le> ticks st)"

lemma read_len_prefix_ends:
  assumes "deadline_nears U fd ticks" and "length len_buf < 4"
  shows "\<exists>r st'. read_len_prefix U fd c len_buf st = Some (r, st') \<and> (\<forall>bs. r = Inr bs \<longrightarrow> length bs = 4)"
  using assms(2)
proof (induction "ticks st + (4 - length len_buf)" arbitrary: st len_buf rule: less_induct)
  case less
  note unfold = read_len_prefix.simps [of U fd c len_buf st]
  obtain x st1 where x: "ux_read U fd st (4 - length len_buf) = (x, st1)" by fastforce
  show ?case
  proof (cases x)
    case (Inr bs)
    with x assms(1) have bs: "length bs \<le> 4 - length len_buf" "ticks st1 \<le> ticks st"
      unfolding deadline_nears_def by blast+
    show ?thesis
    proof (cases "bs = [] \<or> 4 \<le> length (len_buf @ bs)")
      case True
      with x Inr bs less.prems show ?thesis by (auto simp: unfold)
    next
      case False
      then have "ticks st1 + (4 - length (len_buf @ bs)) < ticks st + (4 - length len_buf)"
        using bs less.prems by (cases bs) auto
      from less.hyps [OF this] False have "\<exists>r st'. read_len_prefix U fd c (len_buf @ bs) st1 = Some (r, st') \<and>
          (\<forall>bs. r = Inr bs \<longrightarrow> length bs = 4)" by simp
      with x Inr False show ?thesis by (simp add: unfold)
    qed
  next
    case (Inl e)
    show ?thesis
    proof (cases "(kind e = WouldBlock \<or> kind e = TimedOut) \<and> \<not> after_deadline U st1")
      case False
      with x Inl show ?thesis by (auto simp: unfold)
    next
      case True
      with x Inl assms(1) have t: "ticks st1 < ticks st" unfolding deadline_nears_def by blast
      obtain w st2 where w: "try_wait U st1 c = (w, st2)" by fastforce
      with assms(1) have "ticks st2 \<le> ticks st1" unfolding deadline_nears_def by blast
      with t have "ticks st2 + (4 - length len_buf) < ticks st + (4 - length len_buf)" by simp
      from less.hyps [OF this less.prems] x Inl True w show ?thesis
        by (cases w; cases "projr w") (auto simp: unfold)
    qed
  qed
qed


text \<open>A peer that never answers: every read times out, and the state counts down.\<close>

definition silent_peer :: "nat unix_api" where
  "silent_peer = \<lparr>ux_write_all = (\<lambda>fd st bs. (Inr (), st)),
     ux_read_exact = (\<lambda>fd st n. (Inl (IoError TimedOut []), st)),
     ux_read = (\<lambda>fd st n. (Inl (IoError TimedOut []), st - 1)),
     set_read_timeout = (\<lambda>fd st t. (Inr (), st)), after_deadline = (\<lambda>st. st = 0),
     try_wait = (\<lambda>st c. (Inr None, st))\<rparr>"


text \<open>What is documented of a stream; \<open>inc fd\<close> is what arrives on it before it ends.\<close>

definition unix_stream :: "'o unix_api \<Rightarrow> (nat \<Rightarrow> 'o \<Rightarrow> bytes) \<Rightarrow> bool" where
  "unix_stream U inc \<longleftrightarrow>
     (\<forall>fd. reads_stream (ux_read_exact U fd) (inc fd)) \<and>
     (\<forall>fd st bs. inc fd (snd (ux_write_all U fd st bs)) = inc fd st) \<and>
     (\<forall>fd st t. inc fd (snd (set_read_timeout U fd st t)) = inc fd st)"

lemma read_framed_sync_next:
  assumes "reads_stream rd rv" and "rv r = framed m @ rest" and "0 < length m" "length m < 2 ^ 32"
  shows "\<exists>r' buf'. read_framed_sync rd r buf = (Inr (length m), r', buf') \<and> take (length m) buf' = m"
proof -
  let ?len = "to_be_bytes 4 (of_nat (length m) :: u32)"
  from assms(1) obtain r1 where r1: "rd r 4 = (Inr ?len, r1)" "rv r1 = m @ rest"
    by (cases rule: reads_stream_cases [where r = r and n = 4]) (use assms(2) in \<open>auto simp: framed_def\<close>)
  from assms(1) obtain r2 where r2: "rd r1 (length m) = (Inr m, r2)"
    by (cases rule: reads_stream_cases [where r = r1 and n = "length m"]) (use r1 in auto)
  have "unat (from_be_bytes ?len :: u32) = length m"
    using assms(4) by (simp add: from_to_be_bytes unat_of_nat)
  with r1 r2 assms(3) show ?thesis by (simp add: read_framed_sync_def Let_def)
qed

lemma send_hello_inc:
  assumes "unix_stream U inc"
  shows "inc fd (snd (send_hello U to_vec fd st)) = inc fd st"
proof -
  have "inc fd (snd (write_framed_sync (ux_write_all U fd) st m)) = inc fd st" for m
  proof -
    let ?len = "to_be_bytes 4 (of_nat (length m) :: u32)"
    obtain x1 st1 where w1: "ux_write_all U fd st ?len = (x1, st1)" by fastforce
    obtain x2 st2 where w2: "ux_write_all U fd st1 m = (x2, st2)" by fastforce
    from w1 w2 assms have "inc fd st1 = inc fd st" "inc fd st2 = inc fd st1"
      unfolding unix_stream_def by (metis snd_conv)+
    with w1 w2 show ?thesis
      by (auto simp: write_framed_sync_def Let_def split: sum.splits)
  qed
  then show ?thesis by (simp add: send_hello_def split: sum.splits)
qed

lemma connect_to_receives:
  assumes U: "unix_stream U inc" and c: "connect_stream L st path = (Inr fd, st1)"
    and i: "inc fd st1 = framed (control json) @ rest" "length json < 2 ^ 32 - 1"
    and pc: "from_slice json = Inr pc"
    and ok: "connect_to_blocking chk L U to_vec from_slice path local_ip st = Some (Inr (cfg, gw, fd'), st')"
  shows "connected_config chk local_ip pc = Some cfg \<and> gw = (pc_tap_ip pc, pc_tap_mac pc) \<and> fd' = fd"
proof -
  obtain x2 st2 where h: "send_hello U to_vec fd st1 = (x2, st2)" by fastforce
  obtain x3 st3 where t: "set_read_timeout U fd st2 (Some 5000) = (x3, st3)" by fastforce
  have "inc fd st2 = inc fd st1" "inc fd st3 = inc fd st2"
    using send_hello_inc [OF U, of fd to_vec st1] h U t unfolding unix_stream_def by (metis snd_conv)+
  with i have "inc fd st3 = framed (control json) @ rest" by simp
  moreover have "reads_stream (ux_read_exact U fd) (inc fd)" using U by (simp add: unix_stream_def)
  ultimately obtain st4 buf where r: "read_framed_sync (ux_read_exact U fd) st3 (replicate 1024 0) =
      (Inr (length (control json)), st4, buf)" "take (length (control json)) buf = control json"
    using read_framed_sync_next [of "ux_read_exact U fd" "inc fd" st3 "control json" rest "replicate 1024 0"] i(2)
    by auto
  obtain x5 st5 where t5: "set_read_timeout U fd st4 None = (x5, st5)" by fastforce
  from ok c h t r t5 show ?thesis
    by (auto simp: connect_to_blocking_def finish_handshake_def proxy_config_of_def decode_control_def pc
        bind_eq_Some_conv split: sum.splits)
qed

text \<open>
  C6: The two sides agree after the handshake. Given a connection without errors, JSON that
  reads back what it wrote, and a TAP address, the proxy's handshake succeeds; and when the
  library connects to it and receives what the proxy sent, it knows the proxy's TAP address
  and MAC as its gateway, has that address with the proxy's prefix length as its peer, the
  proxy's MTU, and an address of its own with the same prefix length: the one that was asked
  for, or the one after the TAP address.
\<close>

theorem handshake_agreement:
  assumes "fd_io sys_read sys_write pinc pout" "fd_no_error sys_read sys_write"
    and "pinc k = framed (control hello) @ prest" "length hello < 2 ^ 32 - 1" "from_hello hello = Inr h"
    and "peer_addr config = Some (tap_ip, plen)"
    and "to_config \<lparr>pc_tap_ip = tap_ip, pc_tap_mac = tap_mac, pc_prefix_len = plen, pc_mtu = mtu config\<rparr> = Inr json"
    and "length json < 2 ^ 32 - 1"
    and "\<forall>pc j. to_config pc = Inr j \<longrightarrow> from_config j = Inr pc"
    and "unix_stream U inc"
  shows "\<exists>k'. perform_handshake sys_read sys_write from_hello to_config k config tap_mac = Some (Inr (), k') \<and>
    (\<forall>st path local_ip fd st1 rest cfg gw fd' st'.
       connect_stream L st path = (Inr fd, st1) \<and> pout k @ inc fd st1 = pout k' @ rest \<and>
       connect_to_blocking chk L U to_hello from_config path local_ip st = Some (Inr (cfg, gw, fd'), st') \<longrightarrow>
       gw = (tap_ip, tap_mac) \<and> peer_addr cfg = Some (tap_ip, plen) \<and> mtu cfg = mtu config \<and>
       (\<exists>ip. pick_client_ip chk local_ip tap_ip = Some ip \<and> local_addr cfg = Some (ip, plen)))"
proof -
  from perform_handshake_ok [where to_vec = to_config and from_slice = from_hello, OF assms(1-7)] obtain k' where
    k': "perform_handshake sys_read sys_write from_hello to_config k config tap_mac = Some (Inr (), k')"
      "pout k' = pout k @ framed (control json)" by blast
  have "gw = (tap_ip, tap_mac) \<and> peer_addr cfg = Some (tap_ip, plen) \<and> mtu cfg = mtu config \<and>
      (\<exists>ip. pick_client_ip chk local_ip tap_ip = Some ip \<and> local_addr cfg = Some (ip, plen))"
    if "connect_stream L st path = (Inr fd, st1)" "pout k @ inc fd st1 = pout k' @ rest"
      "connect_to_blocking chk L U to_hello from_config path local_ip st = Some (Inr (cfg, gw, fd'), st')"
    for st path local_ip fd st1 rest cfg gw fd' st'
  proof -
    from that(2) k'(2) have "inc fd st1 = framed (control json) @ rest" by simp
    from connect_to_receives [OF assms(10) that(1) this assms(8) assms(9) [rule_format, OF assms(7)] that(3)]
    show ?thesis by (auto simp: connected_config_def set_mtu_def set_local_addr_def set_peer_addr_def)
  qed
  with k'(1) show ?thesis by blast
qed

text \<open>Closed instances: a stream that is the bytes still to come, and one configuration.\<close>

definition script_unix :: "bytes unix_api" where
  "script_unix = \<lparr>ux_write_all = (\<lambda>fd st bs. (Inr (), st)), ux_read_exact = (\<lambda>fd. slice_read_exact),
     ux_read = (\<lambda>fd st n. (Inr (take n st), drop n st)), set_read_timeout = (\<lambda>fd st t. (Inr (), st)),
     after_deadline = (\<lambda>st. False), try_wait = (\<lambda>st c. (Inr None, st))\<rparr>"

definition script_libc :: "bytes libc_api" where
  "script_libc = \<lparr>sys_socket = (\<lambda>st. (3, st)), sys_socketpair = (\<lambda>st. (0, (3, 4), st)),
     sys_setsockopt = (\<lambda>st fd opt v. (0, st)), sys_connect = (\<lambda>st fd a. (0, st)),
     sys_bind = (\<lambda>st fd a. (0, st)), sys_listen = (\<lambda>st fd b. (0, st)), sys_accept4 = (\<lambda>st fd. (5, st)),
     sys_close = (\<lambda>st fd. st), remove_file = (\<lambda>st p. st), errno = (\<lambda>_. IoError Other [])\<rparr>"

definition pc0 :: proxy_config where
  "pc0 = \<lparr>pc_tap_ip = V4 0x0A000001, pc_tap_mac = [2, 0, 0, 0, 0, 9], pc_prefix_len = 24, pc_mtu = 1500\<rparr>"

definition pc0_json :: "proxy_config \<Rightarrow> string + bytes" where
  "pc0_json pc = (if pc = pc0 then Inr [1] else Inl ''unknown'')"

definition pc0_parse :: "bytes \<Rightarrow> string + proxy_config" where
  "pc0_parse j = Inr pc0"

lemma script_unix_stream: "unix_stream script_unix (\<lambda>fd st. st)"
  using slice_reads_stream by (simp add: unix_stream_def script_unix_def id_def)

lemma script_connect: "connect_stream script_libc st [47] = (Inr 3, st)"
  by (simp add: connect_stream_def script_libc_def)

lemma script_connect_to:
  "connect_to_blocking True script_libc script_unix (\<lambda>_. Inr []) pc0_parse [47] None (framed (control [1])) =
     Some (Inr (set_mtu 1500 (set_local_addr (V4 0x0A000002) 24 (set_peer_addr (V4 0x0A000001) 24 tap_config_new)),
       (V4 0x0A000001, [2, 0, 0, 0, 0, 9]), 3), [])"
proof -
  have "read_framed_sync slice_read_exact (framed (control [1])) (replicate 1024 0) =
      (Inr 2, [], control [1] @ drop 2 (replicate 1024 0))"
    using read_framed_framed [of "control [1]" "[]" "replicate 1024 0"] by simp
  moreover have "default_client_ip True (V4 0x0A000001) = Some (V4 0x0A000002)"
    by (simp add: default_client_ip_v4 del: default_client_ip.simps)
  moreover have "send_hello script_unix (\<lambda>_. Inr []) 3 st = (Inr (), st)" for st
    by (simp add: send_hello_def encode_control_def write_framed_sync_def script_unix_def)
  ultimately show ?thesis
    by (simp add: connect_to_blocking_def script_connect script_unix_def finish_handshake_def
        proxy_config_of_def decode_control_def connected_config_def pick_client_ip_def pc0_parse_def pc0_def
        del: default_client_ip.simps)
qed

theorem handshake_agreement_witness:
  "\<exists>cfg gw st'. connect_to_blocking True script_libc script_unix (\<lambda>_. Inr []) pc0_parse [47] None
      (framed (control [1])) = Some (Inr (cfg, gw, 3), st') \<and>
    gw = (V4 0x0A000001, [2, 0, 0, 0, 0, 9]) \<and> local_addr cfg = Some (V4 0x0A000002, 24)"
proof -
  let ?k = "(framed (control []), []) :: bytes \<times> bytes"
  have cfg: "peer_addr config0 = Some (V4 0x0A000001, 24)" "mtu config0 = 1500"
    by (simp_all add: config0_def set_peer_addr_def tap_config_new_def tap_config_default_def DEFAULT_MTU_def)
  have j: "pc0_json \<lparr>pc_tap_ip = V4 0x0A000001, pc_tap_mac = [2, 0, 0, 0, 0, 9], pc_prefix_len = 24,
      pc_mtu = mtu config0\<rparr> = Inr [1]" by (simp add: pc0_json_def pc0_def cfg)
  have json: "\<forall>pc j. pc0_json pc = Inr j \<longrightarrow> pc0_parse j = Inr pc"
    by (auto simp: pc0_json_def pc0_parse_def split: if_splits)
  obtain k' where k': "perform_handshake trickle_read trickle_write (\<lambda>_. Inr ClientHello) pc0_json ?k config0
      [2, 0, 0, 0, 0, 9] = Some (Inr (), k')" "snd k' = framed (control [1])"
    using perform_handshake_ok [OF trickle_io, of ?k "[]" "[]" "\<lambda>_. Inr ClientHello" ClientHello config0
        "V4 0x0A000001" 24 pc0_json "[2, 0, 0, 0, 0, 9]" "[1]"] cfg j by auto
  have p: "fst ?k = framed (control []) @ []" "length ([] :: bytes) < 2 ^ 32 - 1"
      "(\<lambda>_. Inr ClientHello) ([] :: bytes) = (Inr ClientHello :: string + client_hello)"
      "length ([1] :: bytes) < 2 ^ 32 - 1" by simp_all
  let ?cfg = "set_mtu 1500 (set_local_addr (V4 0x0A000002) 24 (set_peer_addr (V4 0x0A000001) 24 tap_config_new))"
  let ?gw = "(V4 0x0A000001, [2, 0, 0, 0, 0, 9]) :: gateway"
  have c: "connect_stream script_libc (framed (control [1])) [47] = (Inr 3, framed (control [1])) \<and>
      snd ?k @ framed (control [1]) = snd k' @ [] \<and>
      connect_to_blocking True script_libc script_unix (\<lambda>_. Inr []) pc0_parse [47] None
        (framed (control [1])) = Some (Inr (?cfg, ?gw, 3), [])"
    using script_connect script_connect_to k'(2) by simp
  from handshake_agreement [where sys_read = trickle_read and sys_write = trickle_write and pinc = fst and pout = snd
      and k = ?k and hello = "[]" and prest = "[]" and from_hello = "\<lambda>_. Inr ClientHello" and h = ClientHello
      and config = config0 and tap_ip = "V4 0x0A000001" and plen = 24 and to_config = pc0_json
      and tap_mac = "[2, 0, 0, 0, 0, 9]" and json = "[1]" and from_config = pc0_parse and U = script_unix
      and inc = "\<lambda>fd st. st" and L = script_libc and chk = True and to_hello = "\<lambda>_. Inr []",
      OF trickle_io p(1,2,3) cfg(1) j p(4) json script_unix_stream]
  have "?gw = (V4 0x0A000001, [2, 0, 0, 0, 0, 9]) \<and>
      (\<exists>ip. pick_client_ip True None (V4 0x0A000001) = Some ip \<and> local_addr ?cfg = Some (ip, 24))"
  proof (elim exE conjE, goal_cases)
    case (1 k2)
    from 1(1) k'(1) have "k2 = k'" by simp
    with 1(2) c show ?case by blast
  qed
  moreover have "local_addr ?cfg = Some (V4 0x0A000002, 24)" by (simp add: set_mtu_def set_local_addr_def)
  ultimately show ?thesis using script_connect_to by blast
qed

end
