(* ===== verification/Stack_Types.thy ===== *)
theory Stack_Types
  imports Stack_Run
begin

text \<open>
  The types of the answers. In the sources every command carries a sender of its own type;
  in the model all answers are values of one type. The stack task never sends an answer of
  another type than the command that carried the sender asks for.
\<close>

section \<open>Types of answers\<close>

datatype answer_type = TConnected | TListening | TUdpBound | TUnit | TIps

text \<open>All senders but that of \<^verbatim>\<open>GetIps\<close> take a \<^verbatim>\<open>Result\<close>.\<close>

fun has_type :: "reply \<Rightarrow> answer_type \<Rightarrow> bool" where
  "has_type (RConnected h l p ch) t = (t = TConnected)"
| "has_type (RListening h l) t = (t = TListening)"
| "has_type (RUdpBound h l ch) t = (t = TUdpBound)"
| "has_type RUnit t = (t = TUnit)"
| "has_type (RIps ips) t = (t = TIps)"
| "has_type (RErr e) t = (t \<noteq> TIps)"

fun cmd_typed :: "(response \<Rightarrow> answer_type) \<Rightarrow> stack_command \<Rightarrow> bool" where
  "cmd_typed G (TcpConnect _ _ r) = (G r = TConnected)"
| "cmd_typed G (TcpListen _ _ r) = (G r = TListening)"
| "cmd_typed G (TcpAccept _ r) = (G r = TConnected)"
| "cmd_typed G (TcpListenerClose _) = True"
| "cmd_typed G (TcpClose _) = True"
| "cmd_typed G (UdpBind _ r) = (G r = TUdpBound)"
| "cmd_typed G (UdpClose _) = True"
| "cmd_typed G (AddIp _ _ r) = (G r = TUnit)"
| "cmd_typed G (RemoveIp _ r) = (G r = TUnit)"
| "cmd_typed G (GetIps r) = (G r = TIps)"

definition tick_typed :: "(response \<Rightarrow> answer_type) \<Rightarrow> tick \<Rightarrow> bool" where
  "tick_typed G tk = (case tk_wake tk of Command cmd \<Rightarrow> cmd_typed G cmd | _ \<Rightarrow> True)"

fun event_typed :: "(response \<Rightarrow> answer_type) \<Rightarrow> event \<Rightarrow> bool" where
  "event_typed G (Reply r a) = has_type a (G r)"
| "event_typed G (Dropped r) = True"

definition well_typed :: "(response \<Rightarrow> answer_type) \<Rightarrow> ('ifc, 'set, 'c, 'd) stack \<Rightarrow> bool" where
  "well_typed G s \<longleftrightarrow>
     (\<forall>h op. map_of (pending s) h = Some op \<longrightarrow> G (op_response op) = TConnected) \<and>
     (\<forall>e \<in> set (events s). event_typed G e)"

section \<open>Every step keeps the types\<close>

lemma well_typed_same:
  "well_typed G s \<Longrightarrow> pending s' = pending s \<Longrightarrow> events s' = events s \<Longrightarrow> well_typed G s'"
  by (simp add: well_typed_def)

lemma well_typed_reply:
  "well_typed G s \<Longrightarrow> pending s' = pending s \<Longrightarrow> events s' = events s @ [Reply r a] \<Longrightarrow>
     has_type a (G r) \<Longrightarrow> well_typed G s'"
  by (auto simp: well_typed_def)

lemma well_typed_reply_pending:
  "well_typed G s \<Longrightarrow> map_of (pending s) h = Some op \<Longrightarrow> pending s' = hm_remove h (pending s) \<Longrightarrow>
     events s' = events s @ [Reply (op_response op) a] \<Longrightarrow> has_type a TConnected \<Longrightarrow> well_typed G s'"
  by (auto simp: well_typed_def hm_simps split: if_splits)

lemma drop_pending_op_events:
  "pending (drop_pending_op E op s) = pending s"
  "events (drop_pending_op E op s) = events s @ [Dropped (op_response op)]"
  by (cases op; simp)+

lemma well_typed_insert_pending:
  "well_typed G s \<Longrightarrow> G (op_response op) = TConnected \<Longrightarrow> well_typed G (insert_pending E h op s)"
  by (cases "map_of (pending s) h")
     (auto simp: insert_pending_def well_typed_def drop_pending_op_events hm_simps split: if_splits)

lemma well_typed_discard_pending:
  "well_typed G s \<Longrightarrow> well_typed G (discard_pending E h s)"
  by (cases "map_of (pending s) h")
     (auto simp: discard_pending_def well_typed_def drop_pending_op_events hm_simps split: if_splits)

lemma insert_tcp_state_events:
  "pending (insert_tcp_state E h st s) = pending s" "events (insert_tcp_state E h st s) = events s"
  by (simp_all add: insert_tcp_state_def Let_def split: option.split)

lemma finish_accept_events:
  "\<exists>ch. events (finish_accept E a l p r s) = events s @ [Reply r (RConnected a l p ch)]"
  by (auto simp: finish_accept_def create_tcp_channels_def insert_tcp_state_def Let_def split: option.split)

lemma well_typed_finish_accept:
  "well_typed G s \<Longrightarrow> G r = TConnected \<Longrightarrow> well_typed G (finish_accept E a l p r s)"
  using finish_accept_events [of E a l p r s]
  by (elim exE) (rule well_typed_reply, auto)

lemma typed_tcp_connect:
  assumes "well_typed G s" and "G r = TConnected" and "handle_tcp_connect E cfg lip addr r s = Some s'"
  shows "well_typed G s'"
  using assms(3)
proof (cases rule: handle_tcp_connect_cases)
  case failed
  with assms(1,2) show ?thesis by (auto intro!: well_typed_reply [OF assms(1)])
next
  case (started h ss1 sock sock' ifc' channels state s3 rem loc la)
  from create_tcp_channels_frame [OF started(3)] assms(1)
  have "well_typed G (insert_tcp_state E h state s3)"
    by (intro well_typed_same [OF assms(1)]) (simp_all add: insert_tcp_state_events)
  with started(4) assms(2) show ?thesis by (simp add: well_typed_insert_pending)
qed

lemma typed_tcp_listen:
  assumes "well_typed G s" and "G r = TListening" and "handle_tcp_listen E addr n r s = Some s'"
  shows "well_typed G s'"
  using assms(3)
  by (cases rule: handle_tcp_listen_cases) (use assms(2) in \<open>auto intro!: well_typed_reply [OF assms(1)]\<close>)

lemma typed_tcp_accept:
  assumes "well_typed G s" and "G r = TConnected" and "handle_tcp_accept E h r s = Some s'"
  shows "well_typed G s'"
proof (cases "map_of (listeners s) h")
  case None
  with assms show ?thesis by (auto simp: handle_tcp_accept_def intro!: well_typed_reply [OF assms(1)])
next
  case (Some st)
  with assms(3) obtain res ss1 st1 where t: "try_accept_socket E (sockets s) st = Some (res, ss1, st1)"
    by (auto simp: handle_tcp_accept_def bind_eq_Some_conv)
  let ?s = "s\<lparr>sockets := ss1, listeners := hm_insert h st1 (listeners s)\<rparr>"
  have "well_typed G ?s" by (rule well_typed_same [OF assms(1)]) simp_all
  with Some t assms(2,3) show ?thesis
    by (cases res) (auto simp: handle_tcp_accept_def Let_def well_typed_insert_pending well_typed_finish_accept)
qed

lemma typed_tcp_listener_close:
  assumes "well_typed G s" and "handle_tcp_listener_close E h s = Some s'"
  shows "well_typed G s'"
  using assms(2) well_typed_discard_pending [OF assms(1), of E h]
  by (auto simp: handle_tcp_listener_close_def Let_def bind_eq_Some_conv well_typed_def
      split: option.splits)

lemma typed_closes:
  assumes "well_typed G s"
  shows "handle_tcp_close E h s = Some s' \<Longrightarrow> well_typed G s'"
    and "handle_udp_close E h s = Some s' \<Longrightarrow> well_typed G s'"
  by (auto simp: handle_tcp_close_def handle_udp_close_def Let_def bind_eq_Some_conv
      intro: well_typed_same [OF assms])

lemma typed_udp_bind:
  assumes "well_typed G s" and "G r = TUdpBound" and "handle_udp_bind E addr r s = Some s'"
  shows "well_typed G s'"
  using assms(2,3)
  by (auto simp: handle_udp_bind_def Let_def allocate_ephemeral_port_def create_udp_channels_def
      split: prod.splits sum.splits if_splits intro!: well_typed_reply [OF assms(1)])

lemma typed_ips:
  assumes "well_typed G s"
  shows "handle_add_ip E ip p r s = Some s' \<Longrightarrow> G r = TUnit \<Longrightarrow> well_typed G s'"
    and "handle_remove_ip E ip r s = Some s' \<Longrightarrow> G r = TUnit \<Longrightarrow> well_typed G s'"
    and "handle_get_ips E r s = Some s' \<Longrightarrow> G r = TIps \<Longrightarrow> well_typed G s'"
  by (auto simp: handle_add_ip_def handle_remove_ip_def handle_get_ips_def Let_def
      bind_eq_Some_conv split: if_splits intro!: well_typed_reply [OF assms])

lemmas typed_handlers = typed_tcp_connect typed_tcp_listen typed_tcp_accept typed_tcp_listener_close typed_closes
  typed_udp_bind typed_ips

lemma typed_handle_command:
  assumes "well_typed G s" and "cmd_typed G cmd" and "handle_command E cfg cmd s = Some (b, s')"
  shows "well_typed G s'"
  using assms(2,3) by (cases cmd) (auto dest: typed_handlers [OF assms(1)])

lemma typed_process_pending_one:
  assumes "well_typed G s" and "process_pending_one E h s = Some s'"
  shows "well_typed G s'"
  using assms(2)
proof (cases rule: process_pending_one_cases)
  case waiting
  then show ?thesis by (auto intro: well_typed_same [OF assms(1)])
next
  case connected
  then show ?thesis by (auto intro!: well_typed_reply_pending [OF assms(1)])
next
  case refused
  then show ?thesis by (auto intro!: well_typed_reply_pending [OF assms(1)])
next
  case (accepted r st a l p ss1 st1)
  let ?s = "s\<lparr>sockets := ss1, listeners := hm_insert h st1 (listeners s), pending := hm_remove h (pending s)\<rparr>"
  from assms(1) have "well_typed G ?s" by (auto simp: well_typed_def hm_simps split: if_splits)
  moreover from assms(1) accepted(1) have "G (op_response (PendingAccept r)) = TConnected"
    unfolding well_typed_def by blast
  ultimately have "well_typed G ?s" "G r = TConnected" by simp_all
  with accepted(4) show ?thesis by (simp add: well_typed_finish_accept)
next
  case closed
  then show ?thesis by (auto intro!: well_typed_reply_pending [OF assms(1)])
qed

lemma typed_process_pending:
  assumes "well_typed G s" and "process_pending E ord s = Some s'"
  shows "well_typed G s'"
  using assms
  by (auto simp: process_pending_def Let_def
      intro: for_handles_invariant [where P = "well_typed G"] typed_process_pending_one)

section \<open>Runs\<close>

lemma hm_drain_values:
  assumes "any_order ord" and "op \<in> set (hm_drain ord m)"
  obtains h where "map_of m h = Some op"
proof -
  from assms(1) have "set (ord (hm_keys m)) = set (hm_keys m)"
    unfolding any_order_def by (metis set_mset_mset)
  with assms(2) obtain k where "k \<in> fst ` set m" "op = the (map_of m k)"
    by (auto simp: hm_drain_def)
  then show thesis using that by (metis domD dom_map_of_conv_image_fst option.sel)
qed

lemma typed_abort_pending:
  assumes "any_order ord" and "well_typed G s"
  shows "well_typed G (abort_pending E ord s)"
proof -
  have "G (op_response op) = TConnected" if "op \<in> set (hm_drain ord (pending s))" for op
    using hm_drain_values [OF assms(1) that] assms(2) by (auto simp: well_typed_def)
  with assms(2) show ?thesis
    by (auto simp: abort_pending_def well_typed_def abort_ops_frame)
qed

lemma typed_drop_locals:
  "well_typed G s \<Longrightarrow> well_typed G (drop_locals E ord s)"
  by (auto simp: drop_locals_def Let_def well_typed_def drop_ops_events)

lemma typed_iteration:
  assumes "any_order (tk_ord tk)" and "tick_typed G tk" and "well_typed G s"
    and "stack_iteration E P cfg tk (dev, s) = Some r"
  shows "well_typed G (snd (flow_state r))"
  using assms(4)
proof (cases rule: stack_iteration_cases)
  case (closed s1)
  then have "well_typed G s1"
    using assms(2,3) by (auto simp: tick_typed_def intro: typed_handle_command)
  with closed(1) show ?thesis by (simp add: typed_drop_locals)
next
  case (iteration s1 s2 c3 ifc3 dev3 ss3 eg ifc4 dev4 ss4 s5 s6)
  have s1: "well_typed G s1"
    using iteration(1) assms(2,3) by (auto simp: tick_typed_def intro: typed_handle_command)
  from poll_write_channels_frame [OF iteration(2)] poll_read_channels_frame [OF iteration(5)]
  have "well_typed G s5" by (intro well_typed_same [OF s1]) simp_all
  with iteration(6) have "well_typed G s6" by (auto split: if_splits intro: typed_process_pending)
  with iteration(7) assms(1) show ?thesis by (simp add: typed_drop_locals typed_abort_pending)
qed

interpretation stack_typed: task_invariant_all "stack_iteration E P cfg"
    "\<lambda>(dev, s). well_typed G s" "\<lambda>ds tk. any_order (tk_ord tk) \<and> tick_typed G tk"
  for E :: "('ifc, 'set, 'tcp, 'udp, 'c, 'd) stack_env" and P :: "('ifc, 'set, 'dev) poll_api" and cfg G
proof (unfold_locales, goal_cases)
  case (1 ds tk ds')
  with typed_iteration [of tk G "snd ds" E P cfg "fst ds" "Continue ds'"] show ?case by (simp add: split_beta)
next
  case (2 ds tk ds')
  with typed_iteration [of tk G "snd ds" E P cfg "fst ds" "Return ds'"] show ?case by (simp add: split_beta)
qed



end
