(* ===== verification/Tunnel.thy ===== *)
theory Tunnel
  imports Socket Device Ipc_Tasks Handshake Stack_Types
begin

text \<open>
  The tunnel itself, \<^verbatim>\<open>src/lib.rs\<close>: its statistics, the state behind a \<^verbatim>\<open>Tunnel\<close> and its
  closing, the setting up of the tasks on a connected stream, and the operations of the
  application: those that send a command to the stack task and those that send one to the
  proxy.
\<close>

section \<open>Statistics\<close>

record tunnel_stats_snapshot =
  sn_ipc_rx_frames :: u64
  sn_ipc_rx_dropped :: u64
  sn_ipc_tx_frames :: u64
  sn_ipc_tx_errors :: u64
  sn_device_rx_frames :: u64
  sn_device_tx_frames :: u64
  sn_device_tx_dropped :: u64
  sn_udp_tx_packets :: u64
  sn_udp_tx_failed :: u64
  sn_udp_rx_packets :: u64
  sn_udp_rx_dropped :: u64

definition snapshot :: "tunnel_stats \<Rightarrow> tunnel_stats_snapshot" where
  "snapshot st =
     \<lparr>sn_ipc_rx_frames = ipc_rx_frames st, sn_ipc_rx_dropped = ipc_rx_dropped st,
      sn_ipc_tx_frames = ipc_tx_frames st, sn_ipc_tx_errors = ipc_tx_errors st,
      sn_device_rx_frames = device_rx_frames st, sn_device_tx_frames = device_tx_frames st,
      sn_device_tx_dropped = device_tx_dropped st, sn_udp_tx_packets = udp_tx_packets st,
      sn_udp_tx_failed = udp_tx_failed st, sn_udp_rx_packets = udp_rx_packets st,
      sn_udp_rx_dropped = udp_rx_dropped st\<rparr>"

definition field_text :: "string \<Rightarrow> u64 \<Rightarrow> string" where
  "field_text name v = name @ ''='' @ dec (unat v)"

definition show_snapshot :: "tunnel_stats_snapshot \<Rightarrow> string" where
  "show_snapshot s =
     ''IPC:    '' @ field_text ''rx'' (sn_ipc_rx_frames s) @ '' '' @
       field_text ''rx_drop'' (sn_ipc_rx_dropped s) @ '' '' @
       field_text ''tx'' (sn_ipc_tx_frames s) @ '' '' @ field_text ''tx_err'' (sn_ipc_tx_errors s) @ [CHR 0x0A] @
     ''Device: '' @ field_text ''rx'' (sn_device_rx_frames s) @ '' '' @
       field_text ''tx'' (sn_device_tx_frames s) @ '' '' @
       field_text ''tx_drop'' (sn_device_tx_dropped s) @ [CHR 0x0A] @
     ''UDP:    '' @ field_text ''tx'' (sn_udp_tx_packets s) @ '' '' @
       field_text ''tx_fail'' (sn_udp_tx_failed s) @ '' '' @
       field_text ''rx'' (sn_udp_rx_packets s) @ '' '' @ field_text ''rx_drop'' (sn_udp_rx_dropped s)"

section \<open>The state of a tunnel\<close>

definition COMMAND_CHANNEL_CAPACITY :: nat where "COMMAND_CHANNEL_CAPACITY = 256"
definition FRAME_CHANNEL_CAPACITY :: nat where "FRAME_CHANNEL_CAPACITY = 2048"
definition CONTROL_CHANNEL_CAPACITY :: nat where "CONTROL_CHANNEL_CAPACITY = 32"
definition DEFAULT_TCP_BACKLOG :: nat where "DEFAULT_TCP_BACKLOG = 8"

text \<open>
  A clone of a \<^verbatim>\<open>Tunnel\<close> shares this state. The locks of the child, of the response map and
  of the task handles are never held across a panic, so they are not poisoned. The tasks are
  known by their handles.
\<close>

datatype task = IpcReaderTask | IpcWriterTask | StackTask

record ('q, 'k) tunnel_inner =
  ti_commands :: 'q
  ti_control_tx :: 'k
  ti_proxy_child :: "child option"
  ti_gateway :: gateway
  ti_local_addr :: ip_with_prefix
  ti_closed :: bool
  ti_ipc_dead :: bool
  ti_next_request_id :: u64
  ti_pending :: "(u64, response) hash_map"
  ti_stats :: tunnel_stats
  ti_task_handles :: "task list"

text \<open>\<^verbatim>\<open>Child::kill\<close>, \<^verbatim>\<open>Child::wait\<close> and \<^verbatim>\<open>JoinHandle::abort\<close>, whose results are ignored.\<close>

record 'o process_api =
  child_kill :: "'o \<Rightarrow> child \<Rightarrow> 'o"
  child_wait :: "'o \<Rightarrow> child \<Rightarrow> 'o"
  task_abort :: "'o \<Rightarrow> task \<Rightarrow> 'o"

definition tunnel_close ::
    "'o process_api \<Rightarrow> ('q, 'k) tunnel_inner \<times> 'o \<Rightarrow> ('q, 'k) tunnel_inner \<times> 'o" where
  "tunnel_close A x =
     (case x of (t, st) \<Rightarrow>
        if ti_closed t then (t, st)
        else
          (let st1 = (case ti_proxy_child t of
                        None \<Rightarrow> st
                      | Some c \<Rightarrow> child_wait A (child_kill A st c) c);
               st2 = foldl (task_abort A) st1 (ti_task_handles t)
           in (t\<lparr>ti_closed := True, ti_ipc_dead := True, ti_proxy_child := None, ti_task_handles := []\<rparr>, st2)))"

text \<open>\<^verbatim>\<open>Drop\<close>, when the last clone goes.\<close>

definition tunnel_drop ::
    "'o process_api \<Rightarrow> ('q, 'k) tunnel_inner \<times> 'o \<Rightarrow> ('q, 'k) tunnel_inner \<times> 'o" where
  "tunnel_drop A x = tunnel_close A x"

definition tunnel_local_addr :: "('q, 'k) tunnel_inner \<Rightarrow> ip_with_prefix" where
  "tunnel_local_addr t = ti_local_addr t"

definition tunnel_gateway :: "('q, 'k) tunnel_inner \<Rightarrow> gateway" where
  "tunnel_gateway t = ti_gateway t"

definition tunnel_stats_of :: "('q, 'k) tunnel_inner \<Rightarrow> tunnel_stats_snapshot" where
  "tunnel_stats_of t = snapshot (ti_stats t)"

section \<open>Setting up the tasks\<close>

text \<open>
  What \<^verbatim>\<open>setup_stack_from_fd\<close> spawns the tasks with. A channel stands in the state of both of
  its ends. \<open>su_drop_chance\<close> is the chance of the fault injector, if the device is wrapped in
  one.
\<close>

record ('r, 'w, 'f, 'k, 'q) tunnel_setup =
  su_stack_config :: stack_config
  su_device :: "'f proxy_device"
  su_drop_chance :: "u8 option"
  su_reader :: "('r, 'f) ipc_reader"
  su_writer :: "('w, 'f, 'k) ipc_writer"
  su_inner :: "('q, 'k) tunnel_inner"

definition setup_config :: "u32 \<Rightarrow> tap_config \<Rightarrow> stack_config io_result" where
  "setup_config process_id config =
     (let m = (case mac config of Some m \<Rightarrow> m | None \<Rightarrow> default_mac process_id)
      in case local_addr config of
           None \<Rightarrow> Inl (IoError InvalidInput ''local_addr must be configured'')
         | Some (local_ip, local_prefix) \<Rightarrow>
             (case peer_addr config of
                None \<Rightarrow> Inl (IoError InvalidInput ''peer_addr missing'')
              | Some (gateway_ip, _) \<Rightarrow>
                  Inr \<lparr>sc_mac = m, sc_ip = local_ip, sc_prefix_len = local_prefix, sc_gateway = gateway_ip\<rparr>))"

definition spawn_tasks ::
    "('f, bytes) mpsc \<Rightarrow> ('k, bytes) mpsc \<Rightarrow> ('q, stack_command) mpsc \<Rightarrow> 'r \<Rightarrow> 'w \<Rightarrow>
     stack_config \<Rightarrow> tap_config \<Rightarrow> child option \<Rightarrow> gateway \<Rightarrow> ('r, 'w, 'f, 'k, 'q) tunnel_setup" where
  "spawn_tasks F K Q read_half write_half sc config proxy_child gw =
     (let frames_in = mpsc_channel F FRAME_CHANNEL_CAPACITY;
          frames_out = mpsc_channel F FRAME_CHANNEL_CAPACITY;
          control = mpsc_channel K CONTROL_CHANNEL_CAPACITY;
          ethernet_frame_size = unat (mtu config) + ETHERNET_HEADER_SIZE
      in \<lparr>su_stack_config = sc,
          su_device = proxy_device_new frames_in frames_out ethernet_frame_size,
          su_drop_chance =
            (if 0 < packet_loss_percent config then Some (packet_loss_percent config) else None),
          su_reader = \<lparr>ir_reader = read_half, ir_msg_buf = replicate MSG_BUF_SIZE 0, ir_frame_tx = frames_in,
            ir_pending = [], ir_replies = [], ir_stats = stats_default, ir_ipc_dead = False\<rparr>,
          su_writer = \<lparr>iw_writer = write_half, iw_frame_rx = frames_out, iw_control_rx = control,
            iw_stats = stats_default, iw_ipc_dead = False\<rparr>,
          su_inner = \<lparr>ti_commands = mpsc_channel Q COMMAND_CHANNEL_CAPACITY, ti_control_tx = control,
            ti_proxy_child = proxy_child, ti_gateway = gw, ti_local_addr = (sc_ip sc, sc_prefix_len sc),
            ti_closed = False, ti_ipc_dead = False, ti_next_request_id = 1, ti_pending = [],
            ti_stats = stats_default, ti_task_handles = [IpcReaderTask, IpcWriterTask, StackTask]\<rparr>\<rparr>)"

text \<open>
  \<open>nonblocking\<close> and \<open>from_std\<close> are \<^verbatim>\<open>set_nonblocking\<close> and tokio's \<^verbatim>\<open>UnixStream::from_std\<close> with
  the split; an error drops the stream, which closes it.
\<close>

definition setup_stack_from_fd ::
    "('f, bytes) mpsc \<Rightarrow> ('k, bytes) mpsc \<Rightarrow> ('q, stack_command) mpsc \<Rightarrow> 'o libc_api \<Rightarrow>
     ('o \<Rightarrow> nat \<Rightarrow> unit io_result \<times> 'o) \<Rightarrow> ('o \<Rightarrow> nat \<Rightarrow> ('r \<times> 'w) io_result \<times> 'o) \<Rightarrow> u32 \<Rightarrow>
     nat \<Rightarrow> tap_config \<Rightarrow> child option \<Rightarrow> gateway \<Rightarrow> 'o \<Rightarrow>
     ('r, 'w, 'f, 'k, 'q) tunnel_setup io_result \<times> 'o" where
  "setup_stack_from_fd F K Q L nonblocking from_std process_id fd config proxy_child gw st =
     (case setup_config process_id config of
        Inl e \<Rightarrow> (Inl e, sys_close L st fd)
      | Inr sc \<Rightarrow>
          (case nonblocking st fd of
             (Inl e, st1) \<Rightarrow> (Inl e, sys_close L st1 fd)
           | (Inr _, st1) \<Rightarrow>
               (case from_std st1 fd of
                  (Inl e, st2) \<Rightarrow> (Inl e, sys_close L st2 fd)
                | (Inr (read_half, write_half), st2) \<Rightarrow>
                    (Inr (spawn_tasks F K Q read_half write_half sc config proxy_child gw), st2))))"

text \<open>
  The two ways to a tunnel, whole. \<open>setup\<close> is \<^verbatim>\<open>setup_stack_from_fd\<close> with its libraries;
  \<^verbatim>\<open>Tunnel::connect\<close> is the second with the default configuration.
\<close>

definition tunnel_connect_to ::
    "(nat \<Rightarrow> tap_config \<Rightarrow> child option \<Rightarrow> gateway \<Rightarrow> 'o \<Rightarrow> 't io_result \<times> 'o) \<Rightarrow> bool \<Rightarrow> 'o libc_api \<Rightarrow>
     'o unix_api \<Rightarrow> (client_hello \<Rightarrow> string + bytes) \<Rightarrow> (bytes \<Rightarrow> string + proxy_config) \<Rightarrow>
     bytes \<Rightarrow> ip_addr option \<Rightarrow> 'o \<Rightarrow> ('t io_result \<times> 'o) option" where
  "tunnel_connect_to setup chk L U to_vec from_slice socket_path local_ip st = do {
     (r, st1) \<leftarrow> connect_to_blocking chk L U to_vec from_slice socket_path local_ip st;
     Some (case r of
             Inl e \<Rightarrow> (Inl e, st1)
           | Inr (config, gw, fd) \<Rightarrow> setup fd config None gw st1)
   }"

definition tunnel_connect_with_config ::
    "(nat \<Rightarrow> tap_config \<Rightarrow> child option \<Rightarrow> gateway \<Rightarrow> 'o \<Rightarrow> 't io_result \<times> 'o) \<Rightarrow> bool \<Rightarrow> 'o libc_api \<Rightarrow>
     'o unix_api \<Rightarrow> 'o fd_api \<Rightarrow> ('o \<Rightarrow> search_env) \<Rightarrow> ('o \<Rightarrow> string \<Rightarrow> string list \<Rightarrow> child io_result \<times> 'o) \<Rightarrow>
     (client_hello \<Rightarrow> string + bytes) \<Rightarrow> (bytes \<Rightarrow> string + proxy_config) \<Rightarrow> u32 \<Rightarrow> tap_config \<Rightarrow> 'o \<Rightarrow>
     ('t io_result \<times> 'o) option" where
  "tunnel_connect_with_config setup chk L U F env spawn to_vec from_slice pid config st = do {
     (r, st1) \<leftarrow> connect_with_config_blocking chk L U F env spawn to_vec from_slice pid config st;
     Some (case r of
             Inl e \<Rightarrow> (Inl e, st1)
           | Inr ((config', gw, fd), proxy_child) \<Rightarrow> setup fd config' (Some proxy_child) gw st1)
   }"

definition tunnel_connect ::
    "(nat \<Rightarrow> tap_config \<Rightarrow> child option \<Rightarrow> gateway \<Rightarrow> 'o \<Rightarrow> 't io_result \<times> 'o) \<Rightarrow> bool \<Rightarrow> 'o libc_api \<Rightarrow>
     'o unix_api \<Rightarrow> 'o fd_api \<Rightarrow> ('o \<Rightarrow> search_env) \<Rightarrow> ('o \<Rightarrow> string \<Rightarrow> string list \<Rightarrow> child io_result \<times> 'o) \<Rightarrow>
     (client_hello \<Rightarrow> string + bytes) \<Rightarrow> (bytes \<Rightarrow> string + proxy_config) \<Rightarrow> u32 \<Rightarrow> 'o \<Rightarrow>
     ('t io_result \<times> 'o) option" where
  "tunnel_connect setup chk L U F env spawn to_vec from_slice pid st =
     tunnel_connect_with_config setup chk L U F env spawn to_vec from_slice pid tap_config_default st"

section \<open>Operations of the stack task\<close>

text \<open>
  Each sends a command with a fresh response sender \<open>r\<close> and waits for the answer; \<open>call\<close> is
  that exchange. An answer of another type than the sender has is \<open>None\<close>; there is none.
\<close>

definition tunnel_tcp_connect ::
    "(stack_command \<Rightarrow> call_result) \<Rightarrow> socket_addr \<Rightarrow> response \<Rightarrow> tcp_stream io_result option" where
  "tunnel_tcp_connect call addr r = connected (call (TcpConnect None addr r))"

definition tunnel_tcp_connect_from ::
    "(stack_command \<Rightarrow> call_result) \<Rightarrow> ip_addr \<Rightarrow> socket_addr \<Rightarrow> response \<Rightarrow> tcp_stream io_result option" where
  "tunnel_tcp_connect_from call local_ip remote_addr r = connected (call (TcpConnect (Some local_ip) remote_addr r))"

fun listening :: "call_result \<Rightarrow> tcp_listener io_result option" where
  "listening SendFailed = Some (Inl call_failed)"
| "listening ResponseDropped = Some (Inl call_failed)"
| "listening (Answered (RErr e)) = Some (Inl e)"
| "listening (Answered (RListening h l)) = Some (Inr (tcp_listener_from_handle h l))"
| "listening (Answered _) = None"

definition tunnel_tcp_listen_with_backlog ::
    "(stack_command \<Rightarrow> call_result) \<Rightarrow> socket_addr \<Rightarrow> nat \<Rightarrow> response \<Rightarrow> tcp_listener io_result option" where
  "tunnel_tcp_listen_with_backlog call addr backlog r = listening (call (TcpListen addr backlog r))"

definition tunnel_tcp_listen ::
    "(stack_command \<Rightarrow> call_result) \<Rightarrow> socket_addr \<Rightarrow> response \<Rightarrow> tcp_listener io_result option" where
  "tunnel_tcp_listen call addr r = tunnel_tcp_listen_with_backlog call addr DEFAULT_TCP_BACKLOG r"

fun udp_bound :: "call_result \<Rightarrow> udp_socket io_result option" where
  "udp_bound SendFailed = Some (Inl call_failed)"
| "udp_bound ResponseDropped = Some (Inl call_failed)"
| "udp_bound (Answered (RErr e)) = Some (Inl e)"
| "udp_bound (Answered (RUdpBound h l ch)) = Some (Inr (udp_socket_from_channels h l ch))"
| "udp_bound (Answered _) = None"

definition tunnel_udp_bind ::
    "(stack_command \<Rightarrow> call_result) \<Rightarrow> socket_addr \<Rightarrow> response \<Rightarrow> udp_socket io_result option" where
  "tunnel_udp_bind call addr r = udp_bound (call (UdpBind addr r))"

fun unit_answer :: "call_result \<Rightarrow> unit io_result option" where
  "unit_answer SendFailed = Some (Inl call_failed)"
| "unit_answer ResponseDropped = Some (Inl call_failed)"
| "unit_answer (Answered (RErr e)) = Some (Inl e)"
| "unit_answer (Answered RUnit) = Some (Inr ())"
| "unit_answer (Answered _) = None"

definition tunnel_add_local_ip ::
    "(stack_command \<Rightarrow> call_result) \<Rightarrow> ip_addr \<Rightarrow> u8 \<Rightarrow> response \<Rightarrow> unit io_result option" where
  "tunnel_add_local_ip call ip prefix_len r = unit_answer (call (AddIp ip prefix_len r))"

definition tunnel_remove_local_ip ::
    "(stack_command \<Rightarrow> call_result) \<Rightarrow> ip_addr \<Rightarrow> response \<Rightarrow> unit io_result option" where
  "tunnel_remove_local_ip call ip r = unit_answer (call (RemoveIp ip r))"

fun ips_answer :: "call_result \<Rightarrow> ip_with_prefix list io_result option" where
  "ips_answer SendFailed = Some (Inl call_failed)"
| "ips_answer ResponseDropped = Some (Inl call_failed)"
| "ips_answer (Answered (RIps ips)) = Some (Inr ips)"
| "ips_answer (Answered _) = None"

definition tunnel_local_ips ::
    "(stack_command \<Rightarrow> call_result) \<Rightarrow> response \<Rightarrow> ip_with_prefix list io_result option" where
  "tunnel_local_ips call r = ips_answer (call (GetIps r))"

section \<open>Operations of the proxy\<close>

fun with_id :: "u64 \<Rightarrow> proxy_command \<Rightarrow> proxy_command" where
  "with_id i (AddRoute _ d p) = AddRoute i d p"
| "with_id i (RemoveRoute _ d p) = RemoveRoute i d p"
| "with_id i (GetIfaceStats _) = GetIfaceStats i"

text \<open>
  \<^verbatim>\<open>send_proxy_command\<close> up to its first wait: the number is taken, the sender registered, and
  the command encoded. A failure to encode leaves the sender registered.
\<close>

definition proxy_command_start ::
    "(proxy_command \<Rightarrow> string + bytes) \<Rightarrow> proxy_command \<Rightarrow> response \<Rightarrow> ('q, 'k) tunnel_inner \<Rightarrow>
     bytes io_result \<times> ('q, 'k) tunnel_inner" where
  "proxy_command_start to_vec cmd r t =
     (let i = ti_next_request_id t
      in (encode_control to_vec (with_id i cmd),
          t\<lparr>ti_next_request_id := i + 1, ti_pending := hm_insert i r (ti_pending t)\<rparr>))"

definition proxy_command_send ::
    "('k, bytes) mpsc \<Rightarrow> bytes \<Rightarrow> ('q, 'k) tunnel_inner \<Rightarrow> unit io_result poll \<times> ('q, 'k) tunnel_inner" where
  "proxy_command_send K m t =
     (case poll_send K (ti_control_tx t) m of
        (Ready True, k) \<Rightarrow> (Ready (Inr ()), t\<lparr>ti_control_tx := k\<rparr>)
      | (Ready False, k) \<Rightarrow> (Ready (Inl (broken_pipe ''IPC writer gone'')), t\<lparr>ti_control_tx := k\<rparr>)
      | (Pending, k) \<Rightarrow> (Pending, t\<lparr>ti_control_tx := k\<rparr>))"

text \<open>What the response receiver yields; \<open>None\<close> is a sender that was dropped.\<close>

definition proxy_command_finish :: "proxy_response option \<Rightarrow> proxy_response io_result" where
  "proxy_command_finish a =
     (case a of None \<Rightarrow> Inl (broken_pipe ''proxy response lost'') | Some resp \<Rightarrow> Inr resp)"

text \<open>The first poll of \<^verbatim>\<open>send_proxy_command\<close>, with what the receiver yields then.\<close>

definition send_proxy_command ::
    "('k, bytes) mpsc \<Rightarrow> (proxy_command \<Rightarrow> string + bytes) \<Rightarrow> proxy_response option poll \<Rightarrow>
     proxy_command \<Rightarrow> response \<Rightarrow> ('q, 'k) tunnel_inner \<Rightarrow>
     proxy_response io_result poll \<times> ('q, 'k) tunnel_inner" where
  "send_proxy_command K to_vec answer cmd r t =
     (case proxy_command_start to_vec cmd r t of
        (Inl e, t1) \<Rightarrow> (Ready (Inl e), t1)
      | (Inr m, t1) \<Rightarrow>
          (case proxy_command_send K m t1 of
             (Ready (Inl e), t2) \<Rightarrow> (Ready (Inl e), t2)
           | (Pending, t2) \<Rightarrow> (Pending, t2)
           | (Ready (Inr _), t2) \<Rightarrow>
               (case answer of
                  Pending \<Rightarrow> (Pending, t2)
                | Ready a \<Rightarrow> (Ready (proxy_command_finish a), t2))))"

fun route_answer :: "proxy_response io_result \<Rightarrow> unit io_result" where
  "route_answer (Inl e) = Inl e"
| "route_answer (Inr (RespOk _)) = Inr ()"
| "route_answer (Inr (RespError _ e)) = Inl (IoError Other e)"
| "route_answer (Inr _) = Inl (IoError Other ''unexpected response'')"

fun stats_answer :: "proxy_response io_result \<Rightarrow> (string \<rightharpoonup> interface_stats) io_result" where
  "stats_answer (Inl e) = Inl e"
| "stats_answer (Inr (RespIfaceStats _ interfaces)) = Inr interfaces"
| "stats_answer (Inr (RespError _ e)) = Inl (IoError Other e)"
| "stats_answer (Inr _) = Inl (IoError Other ''unexpected response'')"

definition map_ready :: "('a \<Rightarrow> 'b) \<Rightarrow> 'a poll \<Rightarrow> 'b poll" where
  "map_ready f p = (case p of Ready a \<Rightarrow> Ready (f a) | Pending \<Rightarrow> Pending)"

definition tunnel_add_peer_route ::
    "('k, bytes) mpsc \<Rightarrow> (proxy_command \<Rightarrow> string + bytes) \<Rightarrow> proxy_response option poll \<Rightarrow>
     ip_addr \<Rightarrow> u8 \<Rightarrow> response \<Rightarrow> ('q, 'k) tunnel_inner \<Rightarrow> unit io_result poll \<times> ('q, 'k) tunnel_inner" where
  "tunnel_add_peer_route K to_vec answer dest prefix_len r t =
     apfst (map_ready route_answer) (send_proxy_command K to_vec answer (AddRoute 0 dest prefix_len) r t)"

definition tunnel_remove_peer_route ::
    "('k, bytes) mpsc \<Rightarrow> (proxy_command \<Rightarrow> string + bytes) \<Rightarrow> proxy_response option poll \<Rightarrow>
     ip_addr \<Rightarrow> u8 \<Rightarrow> response \<Rightarrow> ('q, 'k) tunnel_inner \<Rightarrow> unit io_result poll \<times> ('q, 'k) tunnel_inner" where
  "tunnel_remove_peer_route K to_vec answer dest prefix_len r t =
     apfst (map_ready route_answer) (send_proxy_command K to_vec answer (RemoveRoute 0 dest prefix_len) r t)"

definition tunnel_get_iface_stats ::
    "('k, bytes) mpsc \<Rightarrow> (proxy_command \<Rightarrow> string + bytes) \<Rightarrow> proxy_response option poll \<Rightarrow>
     response \<Rightarrow> ('q, 'k) tunnel_inner \<Rightarrow>
     (string \<rightharpoonup> interface_stats) io_result poll \<times> ('q, 'k) tunnel_inner" where
  "tunnel_get_iface_stats K to_vec answer r t =
     apfst (map_ready stats_answer) (send_proxy_command K to_vec answer (GetIfaceStats 0) r t)"

section \<open>Answers of the right type\<close>

text \<open>An answer of its sender's type gives every operation a result.\<close>

lemma typed_answers:
  "has_type a TConnected \<Longrightarrow> connected (Answered a) \<noteq> None"
  "has_type a TListening \<Longrightarrow> listening (Answered a) \<noteq> None"
  "has_type a TUdpBound \<Longrightarrow> udp_bound (Answered a) \<noteq> None"
  "has_type a TUnit \<Longrightarrow> unit_answer (Answered a) \<noteq> None"
  "has_type a TIps \<Longrightarrow> ips_answer (Answered a) \<noteq> None"
  by (cases a; simp)+

section \<open>Properties\<close>

text \<open>
  C12: Closing a tunnel cleans up exactly once. The first close of an open tunnel marks it
  closed, tells the stack task that the connection is gone, kills the proxy and waits for it
  if there is one, and aborts every task, in this order; any sequence of further closes and
  drops does nothing more.
\<close>

theorem tunnel_closes_once:
  assumes "\<not> ti_closed t"
  shows "fold (\<lambda>dropped. if dropped then tunnel_drop A else tunnel_close A) later (tunnel_close A (t, st)) =
    (t\<lparr>ti_closed := True, ti_ipc_dead := True, ti_proxy_child := None, ti_task_handles := []\<rparr>,
     foldl (task_abort A)
       (case ti_proxy_child t of None \<Rightarrow> st | Some c \<Rightarrow> child_wait A (child_kill A st c) c) (ti_task_handles t))"
proof -
  have closed: "tunnel_close A (u, st') = (u, st')" if "ti_closed u" for u :: "('a, 'b) tunnel_inner" and st'
    using that by (simp add: tunnel_close_def)
  have "fold (\<lambda>dropped. if dropped then tunnel_drop A else tunnel_close A) later (u, st') = (u, st')"
    if "ti_closed u" for u :: "('a, 'b) tunnel_inner" and st'
    using that by (induction later) (simp_all add: tunnel_drop_def closed)
  moreover obtain u st' where u: "tunnel_close A (t, st) = (u, st')" by fastforce
  moreover from u assms have "ti_closed u" by (auto simp: tunnel_close_def Let_def)
  ultimately show ?thesis using assms by (auto simp: tunnel_close_def Let_def)
qed

text \<open>Closed instances: a system that records what is done to it, and an open tunnel.\<close>

datatype process_event = Killed nat | Waited nat | Aborted task

definition log_process :: "process_event list process_api" where
  "log_process = \<lparr>child_kill = (\<lambda>st c. st @ [Killed (ch_id c)]),
     child_wait = (\<lambda>st c. st @ [Waited (ch_id c)]), task_abort = (\<lambda>st h. st @ [Aborted h])\<rparr>"

definition inner0 :: "(stack_command chan, bytes chan) tunnel_inner" where
  "inner0 = su_inner (spawn_tasks (chan_mpsc :: (bytes chan, bytes) mpsc) chan_mpsc chan_mpsc () ()
     \<lparr>sc_mac = [], sc_ip = V4 2, sc_prefix_len = 24, sc_gateway = V4 1\<rparr> tap_config_default
     (Some \<lparr>ch_id = 7, ch_stderr = None\<rparr>) (V4 1, []))"

theorem tunnel_closes_once_witness:
  "snd (fold (\<lambda>dropped. if dropped then tunnel_drop log_process else tunnel_close log_process)
      [False, True] (tunnel_close log_process (inner0, []))) =
   [Killed 7, Waited 7, Aborted IpcReaderTask, Aborted IpcWriterTask, Aborted StackTask]"
proof -
  have "\<not> ti_closed inner0" by (simp add: inner0_def spawn_tasks_def Let_def)
  from tunnel_closes_once [OF this, of log_process "[False, True]" "[]"] show ?thesis
    by (simp add: inner0_def spawn_tasks_def Let_def log_process_def)
qed

text \<open>Both ways of connecting take the proxy's address and MTU.\<close>

lemma agreed_config:
  assumes "spawned_config chk pid config pc = Some c \<or> connected_config chk local_ip pc = Some c"
  shows "peer_addr c = Some (pc_tap_ip pc, pc_prefix_len pc)" and "mtu c = pc_mtu pc"
  using assms
  by (auto simp: spawned_config_def connected_config_def set_mtu_def set_local_addr_def set_peer_addr_def
      Let_def split: if_splits)

lemma setup_device_size:
  "setup_stack_from_fd F K Q L nonblocking from_std process_id fd c child gw st = (Inr s, st') \<Longrightarrow>
   cap_max_transmission_unit (capabilities (su_device s)) = unat (mtu c) + ETHERNET_HEADER_SIZE"
  by (auto simp: setup_stack_from_fd_def spawn_tasks_def Let_def capabilities_def proxy_device_new_def
      split: sum.splits prod.splits)

text \<open>
  C13: A tunnel is set up as the handshake agreed. With a configuration that either way of
  connecting computed from the proxy's announcement, the set-up fails only when the system
  does, and then it closes the stream; otherwise the stack has the TAP address as its gateway
  and the announced prefix length, the tunnel reports the stack's address as its own, and
  the device's largest frame is one IP packet of the announced MTU with its Ethernet header.
  The tunnel starts open, with no command pending and every channel empty.
\<close>

theorem tunnel_set_up_as_announced:
  assumes "spawned_config chk pid config pc = Some c \<or> connected_config chk local_ip pc = Some c"
    and "setup_stack_from_fd F K Q L nonblocking from_std process_id fd c child gw st = (r, st')"
  shows "(\<exists>e st1. r = Inl e \<and> st' = sys_close L st1 fd \<and>
      (nonblocking st fd = (Inl e, st1) \<or>
       (\<exists>st2. nonblocking st fd = (Inr (), st2) \<and> from_std st2 fd = (Inl e, st1)))) \<or>
    (\<exists>s ip. r = Inr s \<and>
       su_stack_config s = \<lparr>sc_mac = (case mac c of Some m \<Rightarrow> m | None \<Rightarrow> default_mac process_id), sc_ip = ip,
         sc_prefix_len = pc_prefix_len pc, sc_gateway = pc_tap_ip pc\<rparr> \<and>
       (pick_client_ip chk local_ip (pc_tap_ip pc) = Some ip \<or>
        pick_client_ip chk (map_option fst (local_addr config)) (pc_tap_ip pc) = Some ip) \<and>
       tunnel_local_addr (su_inner s) = (ip, pc_prefix_len pc) \<and> tunnel_gateway (su_inner s) = gw \<and>
       cap_max_transmission_unit (capabilities (su_device s)) = unat (pc_mtu pc) + ETHERNET_HEADER_SIZE \<and>
       \<not> ti_closed (su_inner s) \<and> \<not> ti_ipc_dead (su_inner s) \<and> ti_pending (su_inner s) = [] \<and>
       pd_rx (su_device s) = mpsc_channel F FRAME_CHANNEL_CAPACITY)"
proof -
  note c = agreed_config [OF assms(1)]
  from assms(1) obtain ip where ip: "local_addr c = Some (ip, pc_prefix_len pc)"
    "pick_client_ip chk local_ip (pc_tap_ip pc) = Some ip \<or>
     pick_client_ip chk (map_option fst (local_addr config)) (pc_tap_ip pc) = Some ip"
    by (auto simp: spawned_config_def connected_config_def set_mtu_def set_local_addr_def set_peer_addr_def
        Let_def split: if_splits)
  let ?sc = "\<lparr>sc_mac = (case mac c of Some m \<Rightarrow> m | None \<Rightarrow> default_mac process_id), sc_ip = ip,
         sc_prefix_len = pc_prefix_len pc, sc_gateway = pc_tap_ip pc\<rparr>"
  have sc: "setup_config process_id c = Inr ?sc"
    using c ip by (simp add: setup_config_def Let_def)
  obtain x1 st1 where n: "nonblocking st fd = (x1, st1)" by fastforce
  obtain x2 st2 where f: "from_std st1 fd = (x2, st2)" by fastforce
  show ?thesis
  proof (cases x1)
    case (Inl e)
    with assms(2) n sc show ?thesis by (auto simp: setup_stack_from_fd_def)
  next
    case (Inr u)
    with assms(2) n f sc c(2) ip(2) show ?thesis
      by (cases x2)
         (auto simp: setup_stack_from_fd_def spawn_tasks_def Let_def tunnel_local_addr_def tunnel_gateway_def
           capabilities_def proxy_device_new_def)
  qed
qed

theorem tunnel_set_up_as_announced_witness:
  "\<exists>s ip. fst (setup_stack_from_fd (chan_mpsc :: (bytes chan, bytes) mpsc) chan_mpsc chan_mpsc script_libc
       (\<lambda>st fd. (Inr (), st)) (\<lambda>st fd. (Inr ((), ()), st)) 1 3
       (set_mtu 1500 (set_local_addr (V4 0x0A000002) 24 (set_peer_addr (V4 0x0A000001) 24 tap_config_new)))
       None (V4 0x0A000001, []) []) = Inr s \<and>
     sc_gateway (su_stack_config s) = V4 0x0A000001 \<and>
     tunnel_local_addr (su_inner s) = (ip, 24) \<and>
     cap_max_transmission_unit (capabilities (su_device s)) = 1514"
proof -
  let ?cfg = "set_mtu 1500 (set_local_addr (V4 0x0A000002) 24 (set_peer_addr (V4 0x0A000001) 24 tap_config_new))"
  have "default_client_ip True (V4 0x0A000001) = Some (V4 0x0A000002)"
    by (simp add: default_client_ip_v4 del: default_client_ip.simps)
  then have c: "spawned_config True 1 config0 pc0 = Some ?cfg \<or> connected_config True None pc0 = Some ?cfg"
    by (simp add: connected_config_def pick_client_ip_def pc0_def del: default_client_ip.simps)
  show ?thesis
    using tunnel_set_up_as_announced [OF c prod.collapse [symmetric], of
        "chan_mpsc :: (bytes chan, bytes) mpsc" chan_mpsc chan_mpsc script_libc "\<lambda>st fd. (Inr (), st)"
        "\<lambda>st fd. (Inr ((), ()), st)" 1 3 None "(V4 0x0A000001, [])" "[]"]
    by (auto simp: pc0_def ETHERNET_HEADER_SIZE_def)
qed

end
