(* ===== verification/Proxy_System.thy ===== *)
theory Proxy_System
  imports Text
begin

text \<open>
  What the proxy does to the system it runs on: joining the target's namespaces
  (\<^verbatim>\<open>proxy/src/namespace.rs\<close>), creating and configuring the TAP interface
  (\<^verbatim>\<open>proxy/src/tap.rs\<close>), and the routes through it (\<^verbatim>\<open>proxy/src/route.rs\<close>). The system
  calls and the libraries \<^verbatim>\<open>nix\<close>, \<^verbatim>\<open>netconfig_rs\<close>, \<^verbatim>\<open>ipnet\<close> and \<^verbatim>\<open>rtnetlink\<close> are parameters;
  an error of theirs is the text it prints as.
\<close>

definition io_error_other :: "string \<Rightarrow> io_error" where
  "io_error_other e = IoError Other e"

section \<open>Namespaces\<close>

datatype clone_flag = CLONE_NEWUSER | CLONE_NEWNET

record 'o ns_api =
  open_file :: "'o \<Rightarrow> string \<Rightarrow> nat io_result \<times> 'o"
  setns :: "'o \<Rightarrow> nat \<Rightarrow> clone_flag \<Rightarrow> (string + unit) \<times> 'o"
  close_file :: "'o \<Rightarrow> nat \<Rightarrow> 'o"

definition ns_path :: "u32 \<Rightarrow> string \<Rightarrow> string" where
  "ns_path pid ns = ''/proc/'' @ dec (unat pid) @ ''/ns/'' @ ns"

definition join_namespace :: "'o ns_api \<Rightarrow> 'o \<Rightarrow> u32 \<Rightarrow> unit io_result \<times> 'o" where
  "join_namespace N st pid =
     (let user_ns_path = ns_path pid ''user''; net_ns_path = ns_path pid ''net''
      in case open_file N st user_ns_path of
           (Inl e, st1) \<Rightarrow>
             (Inl (IoError (kind e) (''failed to open user namespace '' @ user_ns_path @ '': '' @ msg e)), st1)
         | (Inr user_ns_file, st1) \<Rightarrow>
             (case setns N st1 user_ns_file CLONE_NEWUSER of
                (Inl e, st2) \<Rightarrow>
                  (Inl (IoError PermissionDenied (''failed to join user namespace: '' @ e)),
                   close_file N st2 user_ns_file)
              | (Inr _, st2) \<Rightarrow>
                  (case open_file N st2 net_ns_path of
                     (Inl e, st3) \<Rightarrow>
                       (Inl (IoError (kind e) (''failed to open network namespace '' @ net_ns_path @ '': '' @ msg e)),
                        close_file N st3 user_ns_file)
                   | (Inr net_ns_file, st3) \<Rightarrow>
                       (case setns N st3 net_ns_file CLONE_NEWNET of
                          (Inl e, st4) \<Rightarrow>
                            (Inl (IoError PermissionDenied (''failed to join network namespace: '' @ e)),
                             close_file N (close_file N st4 net_ns_file) user_ns_file)
                        | (Inr _, st4) \<Rightarrow>
                            (Inr (), close_file N (close_file N st4 net_ns_file) user_ns_file)))))"

section \<open>The TAP interface\<close>

definition IFNAMSIZ :: nat where "IFNAMSIZ = 16"
definition IFF_TAP :: nat where "IFF_TAP = 0x0002"
definition IFF_NO_PI :: nat where "IFF_NO_PI = 0x1000"
definition TAP_SNDBUF :: int where "TAP_SNDBUF = 2 * 1024 * 1024"

record if_req =
  ifr_name :: bytes
  ifr_flags :: nat

record if_req_txqlen =
  ifrq_name :: bytes
  ifrq_qlen :: int

record ('o, 'i, 'n) tap_api =
  open_tun :: "'o \<Rightarrow> nat io_result \<times> 'o"
  ioctl_tunsetiff :: "'o \<Rightarrow> nat \<Rightarrow> if_req \<Rightarrow> int \<times> 'o"
  ioctl_tunsetsndbuf :: "'o \<Rightarrow> nat \<Rightarrow> int \<Rightarrow> int \<times> 'o"
  dgram_socket :: "'o \<Rightarrow> int \<times> 'o"
  ioctl_siocsiftxqlen :: "'o \<Rightarrow> nat \<Rightarrow> if_req_txqlen \<Rightarrow> int \<times> 'o"
  close_fd :: "'o \<Rightarrow> nat \<Rightarrow> 'o"
  os_error :: "'o \<Rightarrow> io_error"
  try_from_name :: "'o \<Rightarrow> string \<Rightarrow> string + 'i"
  ipnet_new :: "ip_addr \<Rightarrow> u8 \<Rightarrow> string + 'n"
  add_address :: "'o \<Rightarrow> 'i \<Rightarrow> 'n \<Rightarrow> (string + unit) \<times> 'o"
  set_if_mtu :: "'o \<Rightarrow> 'i \<Rightarrow> u32 \<Rightarrow> (string + unit) \<times> 'o"
  set_up :: "'o \<Rightarrow> 'i \<Rightarrow> bool \<Rightarrow> (string + unit) \<times> 'o"
  hwaddress :: "'o \<Rightarrow> 'i \<Rightarrow> string + bytes"

text \<open>The zeroed name field with the bytes of the name copied to it, all but the last byte at most.\<close>

definition as_bytes :: "string \<Rightarrow> bytes" where
  "as_bytes s = map of_char s"

definition ifr_name_of :: "string \<Rightarrow> bytes" where
  "ifr_name_of name =
     (let name_bytes = as_bytes name; copy_len = min (length name_bytes) (IFNAMSIZ - 1)
      in take copy_len name_bytes @ replicate (IFNAMSIZ - copy_len) 0)"

definition create_tap :: "('o, 'i, 'n) tap_api \<Rightarrow> 'o \<Rightarrow> string \<Rightarrow> nat io_result \<times> 'o" where
  "create_tap T st name =
     (case open_tun T st of
        (Inl e, st1) \<Rightarrow> (Inl e, st1)
      | (Inr fd, st1) \<Rightarrow>
          (let ifr = \<lparr>ifr_name = ifr_name_of name, ifr_flags = IFF_TAP OR IFF_NO_PI\<rparr>
           in case ioctl_tunsetiff T st1 fd ifr of
                (ret, st2) \<Rightarrow>
                  if ret < 0 then (Inl (os_error T st2), close_fd T st2 fd)
                  else (Inr fd, snd (ioctl_tunsetsndbuf T st2 fd TAP_SNDBUF))))"

text \<open>The error is read after the socket has been closed.\<close>

definition set_txqueuelen :: "('o, 'i, 'n) tap_api \<Rightarrow> 'o \<Rightarrow> string \<Rightarrow> int \<Rightarrow> unit io_result \<times> 'o" where
  "set_txqueuelen T st name qlen =
     (case dgram_socket T st of
        (sock, st1) \<Rightarrow>
          if sock < 0 then (Inl (os_error T st1), st1)
          else
            (let ifr = \<lparr>ifrq_name = ifr_name_of name, ifrq_qlen = qlen\<rparr>
             in case ioctl_siocsiftxqlen T st1 (nat sock) ifr of
                  (ret, st2) \<Rightarrow>
                    (let st3 = close_fd T st2 (nat sock)
                     in if ret < 0 then (Inl (os_error T st3), st3) else (Inr (), st3))))"

definition configure_address ::
    "('o, 'i, 'n) tap_api \<Rightarrow> 'o \<Rightarrow> 'i \<Rightarrow> (ip_addr \<times> u8) option \<Rightarrow> unit io_result \<times> 'o" where
  "configure_address T st ifc addr =
     (case addr of
        None \<Rightarrow> (Inr (), st)
      | Some (ip, plen) \<Rightarrow>
          (case ipnet_new T ip plen of
             Inl e \<Rightarrow> (Inl (io_error_other e), st)
           | Inr net \<Rightarrow>
               (case add_address T st ifc net of
                  (Inl e, st1) \<Rightarrow> (Inl (io_error_other e), st1)
                | (Inr _, st1) \<Rightarrow> (Inr (), st1))))"

definition configure_mtu ::
    "('o, 'i, 'n) tap_api \<Rightarrow> 'o \<Rightarrow> 'i \<Rightarrow> u16 option \<Rightarrow> unit io_result \<times> 'o" where
  "configure_mtu T st ifc m =
     (case m of
        None \<Rightarrow> (Inr (), st)
      | Some v \<Rightarrow>
          (case set_if_mtu T st ifc (ucast v) of
             (Inl e, st1) \<Rightarrow> (Inl (io_error_other e), st1)
           | (Inr _, st1) \<Rightarrow> (Inr (), st1)))"

definition configure_interface ::
    "('o, 'i, 'n) tap_api \<Rightarrow> 'o \<Rightarrow> string \<Rightarrow> (ip_addr \<times> u8) option \<Rightarrow> u16 option \<Rightarrow> bytes io_result \<times> 'o" where
  "configure_interface T st name addr m =
     (case try_from_name T st name of
        Inl e \<Rightarrow> (Inl (io_error_other e), st)
      | Inr ifc \<Rightarrow>
          (case configure_address T st ifc addr of
             (Inl e, st1) \<Rightarrow> (Inl e, st1)
           | (Inr _, st1) \<Rightarrow>
               (case configure_mtu T st1 ifc m of
                  (Inl e, st2) \<Rightarrow> (Inl e, st2)
                | (Inr _, st2) \<Rightarrow>
                    (let st3 = snd (set_txqueuelen T st2 name 5000)
                     in case set_up T st3 ifc True of
                          (Inl e, st4) \<Rightarrow> (Inl (io_error_other e), st4)
                        | (Inr _, st4) \<Rightarrow>
                            (case hwaddress T st4 ifc of
                               Inl e \<Rightarrow> (Inl (io_error_other e), st4)
                             | Inr hw \<Rightarrow> (Inr hw, st4))))))"

section \<open>Routes\<close>

record ('h, 'm) rt_api =
  link_get :: "'h \<Rightarrow> string \<Rightarrow> string + u32 option"
  build_route :: "ip_addr \<Rightarrow> u8 \<Rightarrow> u32 \<Rightarrow> 'm"
  route_add :: "'h \<Rightarrow> 'm \<Rightarrow> (string + unit) \<times> 'h"
  route_del :: "'h \<Rightarrow> 'm \<Rightarrow> (string + unit) \<times> 'h"

definition get_link_index :: "('h, 'm) rt_api \<Rightarrow> 'h \<Rightarrow> string \<Rightarrow> u32 io_result" where
  "get_link_index R h iface_name =
     (case link_get R h iface_name of
        Inl e \<Rightarrow> Inl (io_error_other (''failed to query link '' @ iface_name @ '': '' @ e))
      | Inr None \<Rightarrow> Inl (IoError NotFound (''interface '' @ iface_name @ '' not found''))
      | Inr (Some index) \<Rightarrow> Inr index)"

definition add_route :: "('h, 'm) rt_api \<Rightarrow> 'h \<Rightarrow> string \<Rightarrow> ip_addr \<Rightarrow> u8 \<Rightarrow> unit io_result \<times> 'h" where
  "add_route R h iface_name dest plen =
     (case get_link_index R h iface_name of
        Inl e \<Rightarrow> (Inl e, h)
      | Inr index \<Rightarrow>
          (case route_add R h (build_route R dest plen index) of
             (Inl e, h1) \<Rightarrow> (Inl (io_error_other (''failed to add route: '' @ e)), h1)
           | (Inr _, h1) \<Rightarrow> (Inr (), h1)))"

definition remove_route :: "('h, 'm) rt_api \<Rightarrow> 'h \<Rightarrow> string \<Rightarrow> ip_addr \<Rightarrow> u8 \<Rightarrow> unit io_result \<times> 'h" where
  "remove_route R h iface_name dest plen =
     (case get_link_index R h iface_name of
        Inl e \<Rightarrow> (Inl e, h)
      | Inr index \<Rightarrow>
          (case route_del R h (build_route R dest plen index) of
             (Inl e, h1) \<Rightarrow> (Inl (io_error_other (''failed to delete route: '' @ e)), h1)
           | (Inr _, h1) \<Rightarrow> (Inr (), h1)))"

section \<open>Properties\<close>

text \<open>What the kernel reads from the name field: the bytes before the first zero.\<close>

definition c_name :: "bytes \<Rightarrow> bytes" where
  "c_name bs = takeWhile (\<lambda>b. b \<noteq> 0) bs"

lemma length_ifr_name [simp]: "length (ifr_name_of name) = IFNAMSIZ"
  by (simp add: ifr_name_of_def Let_def IFNAMSIZ_def)

lemma c_name_ifr:
  assumes "0 \<notin> set (as_bytes name)"
  shows "c_name (ifr_name_of name) = take 15 (as_bytes name)"
proof -
  have "\<forall>b \<in> set (take (min (length (as_bytes name)) 15) (as_bytes name)). b \<noteq> 0"
    using assms by (auto dest: in_set_takeD)
  then show ?thesis
    by (auto simp: c_name_def ifr_name_of_def Let_def IFNAMSIZ_def takeWhile_append takeWhile_replicate min_def)
qed

lemma length_as_bytes [simp]: "length (as_bytes s) = length s"
  by (simp add: as_bytes_def)

text \<open>
  The name field is always filled within its 16 bytes and terminated. The interface
  the kernel is asked to create has the configured name exactly when the name has at most
  15 bytes; the code goes on under the configured name, so where the system knows no
  interface with a longer name, the configuration of such an interface always fails.
\<close>

lemma tap_name_truncated:
  assumes "0 \<notin> set (as_bytes name)"
    and "\<And>st n. IFNAMSIZ \<le> length n \<Longrightarrow> \<exists>e. try_from_name T st n = Inl e"
  shows "length (ifr_name_of name) = IFNAMSIZ \<and> last (ifr_name_of name) = 0 \<and>
    (c_name (ifr_name_of name) = as_bytes name \<longleftrightarrow> length name < IFNAMSIZ) \<and>
    (length name < IFNAMSIZ \<or> (\<exists>e. configure_interface T st name addr m = (Inl e, st)))"
proof (intro conjI)
  show "last (ifr_name_of name) = 0"
    by (simp add: ifr_name_of_def Let_def IFNAMSIZ_def last_append)
  have "take 15 (as_bytes name) = as_bytes name \<longleftrightarrow> length name < IFNAMSIZ"
    by (auto simp: IFNAMSIZ_def dest: arg_cong [of _ _ length])
  then show "c_name (ifr_name_of name) = as_bytes name \<longleftrightarrow> length name < IFNAMSIZ"
    using c_name_ifr [OF assms(1)] by simp
  show "length name < IFNAMSIZ \<or> (\<exists>e. configure_interface T st name addr m = (Inl e, st))"
  proof (cases "length name < IFNAMSIZ")
    case False
    then obtain e where "try_from_name T st name = Inl e" using assms(2) [of name st] by auto
    then show ?thesis by (simp add: configure_interface_def)
  qed simp
qed simp

text \<open>A system with one interface, called \<open>tap0\<close>.\<close>

definition tap0_system :: "(unit, unit, unit) tap_api" where
  "tap0_system = \<lparr>open_tun = (\<lambda>_. (Inr 3, ())), ioctl_tunsetiff = (\<lambda>_ _ _. (0, ())),
     ioctl_tunsetsndbuf = (\<lambda>_ _ _. (0, ())), dgram_socket = (\<lambda>_. (4, ())),
     ioctl_siocsiftxqlen = (\<lambda>_ _ _. (0, ())), close_fd = (\<lambda>_ _. ()), os_error = (\<lambda>_. IoError Other []),
     try_from_name = (\<lambda>_ n. if n = ''tap0'' then Inr () else Inl ''no such interface''),
     ipnet_new = (\<lambda>_ _. Inr ()), add_address = (\<lambda>_ _ _. (Inr (), ())), set_if_mtu = (\<lambda>_ _ _. (Inr (), ())),
     set_up = (\<lambda>_ _ _. (Inr (), ())), hwaddress = (\<lambda>_ _. Inr [2, 0, 0, 0, 0, 1])\<rparr>"

lemma tap_name_truncated_witness:
  "\<exists>e. configure_interface tap0_system () ''a-rather-long-name'' None None = (Inl e, ())"
proof -
  have "\<exists>e. try_from_name tap0_system st n = Inl e" if "IFNAMSIZ \<le> length n" for st n
    using that by (auto simp: tap0_system_def IFNAMSIZ_def)
  then show ?thesis
    using tap_name_truncated [of "''a-rather-long-name''" tap0_system "()" None None]
    by (simp add: IFNAMSIZ_def as_bytes_def)
qed

text \<open>
  What \<^verbatim>\<open>setns\<close> is documented to do, over a view of the process: the namespaces it is in.
\<close>

record namespaces =
  user_ns :: string
  net_ns :: string

definition joins_namespaces :: "'o ns_api \<Rightarrow> ('o \<Rightarrow> namespaces) \<Rightarrow> ('o \<Rightarrow> nat \<Rightarrow> string) \<Rightarrow> bool" where
  "joins_namespaces N nss file \<longleftrightarrow>
     (\<forall>st p fd st'. open_file N st p = (Inr fd, st') \<longrightarrow> file st' fd = p \<and> nss st' = nss st) \<and>
     (\<forall>st p e st'. open_file N st p = (Inl e, st') \<longrightarrow> nss st' = nss st) \<and>
     (\<forall>st fd st'. setns N st fd CLONE_NEWUSER = (Inr (), st') \<longrightarrow> nss st' = (nss st)\<lparr>user_ns := file st fd\<rparr>) \<and>
     (\<forall>st fd st'. setns N st fd CLONE_NEWNET = (Inr (), st') \<longrightarrow> nss st' = (nss st)\<lparr>net_ns := file st fd\<rparr>) \<and>
     (\<forall>st fd k e st'. setns N st fd k = (Inl e, st') \<longrightarrow> nss st' = nss st) \<and>
     (\<forall>st fd. nss (close_file N st fd) = nss st)"

text \<open>
  Joining the target's namespaces succeeds only with both the user and the network
  namespace of the target joined, in this order; on any failure the network namespace is
  still the process's own.
\<close>

lemma join_namespace_joins_both:
  assumes "joins_namespaces N nss file"
  shows "case join_namespace N st pid of
      (Inr _, st') \<Rightarrow> nss st' = \<lparr>user_ns = ns_path pid ''user'', net_ns = ns_path pid ''net''\<rparr>
    | (Inl _, st') \<Rightarrow> net_ns (nss st') = net_ns (nss st)"
proof -
  let ?u = "ns_path pid ''user''" and ?n = "ns_path pid ''net''"
  obtain r1 st1 where o1: "open_file N st ?u = (r1, st1)" by fastforce
  show ?thesis
  proof (cases r1)
    case (Inl e)
    with o1 assms show ?thesis by (auto simp: join_namespace_def Let_def joins_namespaces_def)
  next
    case (Inr fd1)
    with o1 assms have f1: "file st1 fd1 = ?u" "nss st1 = nss st" by (auto simp: joins_namespaces_def)
    obtain r2 st2 where o2: "setns N st1 fd1 CLONE_NEWUSER = (r2, st2)" by fastforce
    show ?thesis
    proof (cases r2)
      case (Inl e)
      with o1 Inr o2 f1 assms show ?thesis
        by (auto simp: join_namespace_def Let_def joins_namespaces_def)
    next
      case r2: (Inr u)
      with o2 f1 assms have f2: "nss st2 = (nss st)\<lparr>user_ns := ?u\<rparr>"
        by (auto simp: joins_namespaces_def)
      obtain r3 st3 where o3: "open_file N st2 ?n = (r3, st3)" by fastforce
      show ?thesis
      proof (cases r3)
        case (Inl e)
        with o1 Inr o2 r2 o3 f2 assms show ?thesis
          by (auto simp: join_namespace_def Let_def joins_namespaces_def)
      next
        case r3: (Inr fd3)
        with o3 f2 assms have f3: "file st3 fd3 = ?n" "nss st3 = nss st2"
          by (auto simp: joins_namespaces_def)
        obtain r4 st4 where o4: "setns N st3 fd3 CLONE_NEWNET = (r4, st4)" by fastforce
        from o1 Inr o2 r2 o3 r3 o4 f2 f3 assms show ?thesis
          by (cases r4) (auto simp: join_namespace_def Let_def joins_namespaces_def)
      qed
    qed
  qed
qed

text \<open>A process whose files are numbered by the namespaces they stand for.\<close>

definition ns_model :: "(namespaces \<times> string list) ns_api" where
  "ns_model = \<lparr>open_file = (\<lambda>st p. (Inr (length (snd st)), (fst st, snd st @ [p]))),
     setns = (\<lambda>st fd k. (Inr (),
        (case k of CLONE_NEWUSER \<Rightarrow> (fst st)\<lparr>user_ns := snd st ! fd\<rparr>
                 | CLONE_NEWNET \<Rightarrow> (fst st)\<lparr>net_ns := snd st ! fd\<rparr>, snd st))),
     close_file = (\<lambda>st fd. st)\<rparr>"

lemma ns_model_joins: "joins_namespaces ns_model fst (\<lambda>st fd. snd st ! fd)"
  by (auto simp: joins_namespaces_def ns_model_def nth_append)

lemma join_namespace_joins_both_witness:
  "case join_namespace ns_model (\<lparr>user_ns = [], net_ns = []\<rparr>, []) 7 of
      (Inr _, st') \<Rightarrow> net_ns (fst st') = ns_path 7 ''net'' | (Inl _, st') \<Rightarrow> net_ns (fst st') = []"
  using join_namespace_joins_both [OF ns_model_joins, of "(\<lparr>user_ns = [], net_ns = []\<rparr>, [])" 7]
  by (auto split: prod.splits sum.splits)

text \<open>
  What \<^verbatim>\<open>rtnetlink\<close> is documented to do, over a view of the routing table: adding a route
  that is not there and deleting one that is.
\<close>

definition routes_table :: "('h, 'm) rt_api \<Rightarrow> ('h \<Rightarrow> 'm set) \<Rightarrow> bool" where
  "routes_table R table \<longleftrightarrow>
     (\<forall>h m h'. route_add R h m = (Inr (), h') \<longrightarrow> m \<notin> table h \<and> table h' = insert m (table h) \<and>
        link_get R h' = link_get R h) \<and>
     (\<forall>h m h'. route_del R h m = (Inr (), h') \<longrightarrow> m \<in> table h \<and> table h' = table h - {m} \<and>
        link_get R h' = link_get R h) \<and>
     (\<forall>h m e h'. route_add R h m = (Inl e, h') \<longrightarrow> table h' = table h) \<and>
     (\<forall>h m e h'. route_del R h m = (Inl e, h') \<longrightarrow> table h' = table h)"

text \<open>
  C33: A route that was added can be taken back: after a successful \<^verbatim>\<open>add_route\<close>, a
  successful \<^verbatim>\<open>remove_route\<close> with the same destination restores the routing table; and a
  call that fails leaves the table as it was.
\<close>

theorem route_add_remove:
  assumes "routes_table R table"
  shows "case add_route R h name dest plen of
      (Inl _, h1) \<Rightarrow> table h1 = table h
    | (Inr _, h1) \<Rightarrow>
        (\<exists>i. table h1 = insert (build_route R dest plen i) (table h) \<and> build_route R dest plen i \<notin> table h) \<and>
        (case remove_route R h1 name dest plen of
           (Inl _, h2) \<Rightarrow> table h2 = table h1
         | (Inr _, h2) \<Rightarrow> table h2 = table h)"
proof (cases "get_link_index R h name")
  case (Inl e)
  then show ?thesis by (simp add: add_route_def)
next
  case (Inr i)
  let ?m = "build_route R dest plen i"
  obtain r1 h1 where a: "route_add R h ?m = (r1, h1)" by fastforce
  show ?thesis
  proof (cases r1)
    case (Inl e)
    with \<open>get_link_index R h name = Inr i\<close> a assms show ?thesis
      by (auto simp: add_route_def routes_table_def)
  next
    case r1: (Inr u)
    with a assms have h1: "?m \<notin> table h" "table h1 = insert ?m (table h)" "link_get R h1 = link_get R h"
      by (auto simp: routes_table_def)
    then have i1: "get_link_index R h1 name = Inr i" using Inr by (simp add: get_link_index_def)
    obtain r2 h2 where d: "route_del R h1 ?m = (r2, h2)" by fastforce
    have "(case remove_route R h1 name dest plen of (Inl _, h2) \<Rightarrow> table h2 = table h1 | (Inr _, h2) \<Rightarrow> table h2 = table h)"
      using d i1 h1 assms by (cases r2) (auto simp: remove_route_def routes_table_def)
    with Inr a r1 h1 show ?thesis by (auto simp: add_route_def)
  qed
qed

definition set_rt :: "((ip_addr \<times> u8 \<times> u32) set, ip_addr \<times> u8 \<times> u32) rt_api" where
  "set_rt = \<lparr>link_get = (\<lambda>h n. Inr (if n = ''tap0'' then Some 4 else None)), build_route = (\<lambda>d p i. (d, p, i)),
     route_add = (\<lambda>h m. if m \<in> h then (Inl ''exists'', h) else (Inr (), insert m h)),
     route_del = (\<lambda>h m. if m \<in> h then (Inr (), h - {m}) else (Inl ''no route'', h))\<rparr>"

lemma set_rt_table: "routes_table set_rt id"
  by (auto simp: routes_table_def set_rt_def split: if_splits)

theorem route_add_remove_witness:
  "snd (remove_route set_rt (snd (add_route set_rt {} ''tap0'' (V4 1) 8)) ''tap0'' (V4 1) 8) = {}"
  using route_add_remove [OF set_rt_table, where h = "{}" and name = "''tap0''" and dest = "V4 1" and plen = 8]
  by (auto simp: add_route_def remove_route_def get_link_index_def set_rt_def split: prod.splits sum.splits)

end
