(* ===== verification/Relay.thy ===== *)
theory Relay
  imports Handshake Proxy_System Third_Party Task_Loop Reader
begin

text \<open>
  The running proxy, \<^verbatim>\<open>proxy/src/main.rs\<close>: the gratuitous ARP frame, the commands it
  carries out, \<^verbatim>\<open>/proc/net/dev\<close>, the asynchronous file descriptor, and the three
  tasks of the frame relay.
\<close>

section \<open>Gratuitous ARP\<close>

definition build_gratuitous_arp :: "bytes \<Rightarrow> u32 \<Rightarrow> bytes \<Rightarrow> bytes" where
  "build_gratuitous_arp sender_mac sender_ip target_mac =
     target_mac @ sender_mac @ [0x08, 0x06] @
     [0x00, 0x01] @ [0x08, 0x00] @ [6] @ [4] @ [0x00, 0x02] @
     sender_mac @ octets4 sender_ip @ target_mac @ octets4 sender_ip"

section \<open>Interface statistics\<close>

text \<open>\<^verbatim>\<open>str::lines\<close> and \<^verbatim>\<open>str::split_whitespace\<close>.\<close>

definition strip_cr :: "string \<Rightarrow> string" where
  "strip_cr l = (if l \<noteq> [] \<and> last l = CHR 0x0D then butlast l else l)"

definition lines :: "string \<Rightarrow> string list" where
  "lines s =
     (let ls = split_on CHR 0x0A s
      in map strip_cr (butlast ls) @ (if last ls = [] then [] else [last ls]))"

fun words_acc :: "string \<Rightarrow> string \<Rightarrow> string list" where
  "words_acc w [] = (if w = [] then [] else [w])"
| "words_acc w (c # cs) =
     (if is_space c then (if w = [] then words_acc [] cs else w # words_acc [] cs)
      else words_acc (w @ [c]) cs)"

definition split_whitespace :: "string \<Rightarrow> string list" where
  "split_whitespace s = words_acc [] s"

definition trim_end_matches :: "char \<Rightarrow> string \<Rightarrow> string" where
  "trim_end_matches c s = rev (dropWhile (\<lambda>x. x = c) (rev s))"

definition parse_u64_or_0 :: "string \<Rightarrow> u64" where
  "parse_u64_or_0 s = (case parse_uint (2 ^ 64) s of Some n \<Rightarrow> of_nat n | None \<Rightarrow> 0)"

definition dev_line :: "string list \<Rightarrow> interface_stats" where
  "dev_line parts =
     \<lparr>rx_bytes = parse_u64_or_0 (parts ! 1), rx_packets = parse_u64_or_0 (parts ! 2),
      rx_errors = parse_u64_or_0 (parts ! 3), rx_dropped = parse_u64_or_0 (parts ! 4),
      tx_bytes = parse_u64_or_0 (parts ! 9), tx_packets = parse_u64_or_0 (parts ! 10),
      tx_errors = parse_u64_or_0 (parts ! 11), tx_dropped = parse_u64_or_0 (parts ! 12)\<rparr>"

definition add_dev_line ::
    "(string \<rightharpoonup> interface_stats) \<Rightarrow> string \<Rightarrow> (string \<rightharpoonup> interface_stats)" where
  "add_dev_line m line =
     (let parts = split_whitespace line
      in if 13 \<le> length parts then m(trim_end_matches CHR '':'' (parts ! 0) \<mapsto> dev_line parts) else m)"

definition read_proc_net_dev :: "string io_result \<Rightarrow> (string \<rightharpoonup> interface_stats) io_result" where
  "read_proc_net_dev file =
     (case file of
        Inl e \<Rightarrow> Inl e
      | Inr content \<Rightarrow> Inr (foldl add_dev_line Map.empty (drop 2 (lines content))))"

section \<open>Proxy commands\<close>

definition handle_proxy_command ::
    "('h, 'm) rt_api \<Rightarrow> string io_result \<Rightarrow> 'h \<Rightarrow> string \<Rightarrow> proxy_command \<Rightarrow> proxy_response \<times> 'h" where
  "handle_proxy_command R proc_net_dev h iface_name cmd =
     (case cmd of
        AddRoute i destination plen \<Rightarrow>
          (case add_route R h iface_name destination plen of
             (Inr _, h1) \<Rightarrow> (resp_ok i, h1)
           | (Inl e, h1) \<Rightarrow> (resp_error i (msg e), h1))
      | RemoveRoute i destination plen \<Rightarrow>
          (case remove_route R h iface_name destination plen of
             (Inr _, h1) \<Rightarrow> (resp_ok i, h1)
           | (Inl e, h1) \<Rightarrow> (resp_error i (msg e), h1))
      | GetIfaceStats i \<Rightarrow>
          (case read_proc_net_dev proc_net_dev of
             Inr interfaces \<Rightarrow> (RespIfaceStats i interfaces, h)
           | Inl e \<Rightarrow> (resp_error i (msg e), h)))"

section \<open>Asynchronous file descriptors\<close>

definition O_NONBLOCK :: int where "O_NONBLOCK = 0x800"

text \<open>
  \<^verbatim>\<open>AsyncFd\<close>: \<open>poll_*_ready\<close> waits for readiness; \<open>try_*\<close> is \<^verbatim>\<open>try_io\<close> around the system
  call, \<open>None\<close> when it would block, which clears the readiness.
\<close>

record ('o, 'a) async_fd_api =
  fcntl_getfl :: "'o \<Rightarrow> nat \<Rightarrow> int"
  fcntl_setfl :: "'o \<Rightarrow> nat \<Rightarrow> int \<Rightarrow> int \<times> 'o"
  af_errno :: "'o \<Rightarrow> io_error"
  af_new :: "'o \<Rightarrow> nat \<Rightarrow> 'a io_result"
  af_dup :: "'o \<Rightarrow> nat \<Rightarrow> int \<times> 'o"
  af_close :: "'o \<Rightarrow> nat \<Rightarrow> 'o"
  poll_read_ready :: "'a \<Rightarrow> unit io_result poll \<times> 'a"
  try_read :: "'a \<Rightarrow> nat \<Rightarrow> bytes io_result option \<times> 'a"
  poll_write_ready :: "'a \<Rightarrow> unit io_result poll \<times> 'a"
  try_write :: "'a \<Rightarrow> bytes \<Rightarrow> nat io_result option \<times> 'a"

text \<open>The descriptor is owned, so an error closes it.\<close>

definition async_fd_new :: "('o, 'a) async_fd_api \<Rightarrow> 'o \<Rightarrow> nat \<Rightarrow> 'a io_result \<times> 'o" where
  "async_fd_new A st fd =
     (let flags = fcntl_getfl A st fd
      in if flags < 0 then (Inl (af_errno A st), af_close A st fd)
         else
           (case fcntl_setfl A st fd (flags OR O_NONBLOCK) of
              (ret, st1) \<Rightarrow>
                if ret < 0 then (Inl (af_errno A st1), af_close A st1 fd)
                else
                  (case af_new A st1 fd of
                     Inl e \<Rightarrow> (Inl e, af_close A st1 fd)
                   | Inr a \<Rightarrow> (Inr a, st1))))"

partial_function (option) async_fd_poll_read ::
    "('o, 'a) async_fd_api \<Rightarrow> 'a \<Rightarrow> nat \<Rightarrow> (bytes io_result poll \<times> 'a) option" where
  "async_fd_poll_read A a n =
     (case poll_read_ready A a of
        (Ready (Inl e), a1) \<Rightarrow> Some (Ready (Inl e), a1)
      | (Pending, a1) \<Rightarrow> Some (Pending, a1)
      | (Ready (Inr _), a1) \<Rightarrow>
          (case try_read A a1 n of
             (Some r, a2) \<Rightarrow> Some (Ready r, a2)
           | (None, a2) \<Rightarrow> async_fd_poll_read A a2 n))"

partial_function (option) async_fd_poll_write ::
    "('o, 'a) async_fd_api \<Rightarrow> 'a \<Rightarrow> bytes \<Rightarrow> (nat io_result poll \<times> 'a) option" where
  "async_fd_poll_write A a buf =
     (case poll_write_ready A a of
        (Ready (Inl e), a1) \<Rightarrow> Some (Ready (Inl e), a1)
      | (Pending, a1) \<Rightarrow> Some (Pending, a1)
      | (Ready (Inr _), a1) \<Rightarrow>
          (case try_write A a1 buf of
             (Some r, a2) \<Rightarrow> Some (Ready r, a2)
           | (None, a2) \<Rightarrow> async_fd_poll_write A a2 buf))"

definition async_fd_poll_flush :: "'a \<Rightarrow> unit io_result poll" where
  "async_fd_poll_flush a = Ready (Inr ())"

definition async_fd_poll_shutdown :: "'a \<Rightarrow> unit io_result poll" where
  "async_fd_poll_shutdown a = Ready (Inr ())"

definition dup_fd :: "('o, 'a) async_fd_api \<Rightarrow> 'o \<Rightarrow> nat \<Rightarrow> nat io_result \<times> 'o" where
  "dup_fd A st fd =
     (case af_dup A st fd of
        (ret, st1) \<Rightarrow> if ret < 0 then (Inl (af_errno A st1), st1) else (Inr (nat ret), st1))"

section \<open>Task 1: from the TAP device to the channel\<close>

definition PROXY_FRAME_CHANNEL_CAPACITY :: nat where "PROXY_FRAME_CHANNEL_CAPACITY = 4096"

text \<open>A task that ends has its result in the state.\<close>

record ('t, 'c) tap_reader =
  tr_tap :: 't
  tr_frame_tx :: 'c
  tr_dropped :: u64
  tr_result :: "unit io_result"

definition tap_reader_step ::
    "bool \<Rightarrow> ('t \<Rightarrow> nat \<Rightarrow> bytes io_result \<times> 't) \<Rightarrow> ('c, bytes) mpsc \<Rightarrow> nat \<Rightarrow>
     ('t, 'c) tap_reader \<Rightarrow> ('t, 'c) tap_reader flow option" where
  "tap_reader_step chk tap_read C max_frame_size s =
     (case tap_read (tr_tap s) max_frame_size of
        (Inl e, t) \<Rightarrow> Some (Return (s\<lparr>tr_tap := t, tr_result := Inl e\<rparr>))
      | (Inr frame, t) \<Rightarrow>
          if frame = [] then Some (Return (s\<lparr>tr_tap := t, tr_result := Inr ()\<rparr>))
          else
            (case try_send C (tr_frame_tx s) (encode_frame frame) of
               (SendOk, c) \<Rightarrow> Some (Continue (s\<lparr>tr_tap := t, tr_frame_tx := c\<rparr>))
             | (SendFull, c) \<Rightarrow> do {
                 d \<leftarrow> rust_add chk (tr_dropped s) 1;
                 Some (Continue (s\<lparr>tr_tap := t, tr_frame_tx := c, tr_dropped := d\<rparr>))
               }
             | (SendClosed, c) \<Rightarrow> Some (Return (s\<lparr>tr_tap := t, tr_frame_tx := c, tr_result := Inr ()\<rparr>))))"

section \<open>Task 2: from the channels to the socket\<close>

record ('w, 'c, 'k) relay_writer =
  rw_writer :: 'w
  rw_frame_rx :: 'c
  rw_response_rx :: 'k
  rw_result :: "unit io_result"

text \<open>
  The select: the branch that is looked at, and what it did. A closed response channel
  disables its branch.
\<close>

datatype relay_wake = WakeTap | WakeResponse

datatype 's relay_selected = RSelected 's | RWaiting 's | RReturn 's

fun relay_select ::
    "('w \<Rightarrow> bytes \<Rightarrow> unit io_result \<times> 'w) \<Rightarrow> ('w \<Rightarrow> unit io_result \<times> 'w) \<Rightarrow>
     ('c, bytes) mpsc \<Rightarrow> ('k, bytes) mpsc \<Rightarrow> relay_wake \<Rightarrow>
     ('w, 'c, 'k) relay_writer \<Rightarrow> ('w, 'c, 'k) relay_writer relay_selected" where
  "relay_select write_all flush C K WakeTap s =
     (case try_recv C (rw_frame_rx s) of
        (RecvOk m, c) \<Rightarrow>
          (case write_framed_sync write_all (rw_writer s) m of
             (Inl e, w) \<Rightarrow> RReturn (s\<lparr>rw_frame_rx := c, rw_writer := w, rw_result := Inl e\<rparr>)
           | (Inr _, w) \<Rightarrow> RSelected (s\<lparr>rw_frame_rx := c, rw_writer := w\<rparr>))
      | (RecvEmpty, c) \<Rightarrow> RWaiting (s\<lparr>rw_frame_rx := c\<rparr>)
      | (RecvDisconnected, c) \<Rightarrow>
          (case flush (rw_writer s) of
             (r, w) \<Rightarrow> RReturn (s\<lparr>rw_frame_rx := c, rw_writer := w, rw_result := r\<rparr>)))"
| "relay_select write_all flush C K WakeResponse s =
     (case try_recv K (rw_response_rx s) of
        (RecvOk m, k) \<Rightarrow>
          (case write_framed_sync write_all (rw_writer s) m of
             (Inl e, w) \<Rightarrow> RReturn (s\<lparr>rw_response_rx := k, rw_writer := w, rw_result := Inl e\<rparr>)
           | (Inr _, w) \<Rightarrow> RSelected (s\<lparr>rw_response_rx := k, rw_writer := w\<rparr>))
      | (RecvEmpty, k) \<Rightarrow> RWaiting (s\<lparr>rw_response_rx := k\<rparr>)
      | (RecvDisconnected, k) \<Rightarrow> RWaiting (s\<lparr>rw_response_rx := k\<rparr>))"

text \<open>A drain loop: everything in a channel is written, up to the first error.\<close>

partial_function (option) drain_channel ::
    "('w \<Rightarrow> bytes \<Rightarrow> unit io_result \<times> 'w) \<Rightarrow> ('c, bytes) mpsc \<Rightarrow> 'w \<Rightarrow> 'c \<Rightarrow>
     (unit io_result \<times> 'w \<times> 'c) option" where
  "drain_channel write_all C w c =
     (case try_recv C c of
        (RecvOk m, c1) \<Rightarrow>
          (case write_framed_sync write_all w m of
             (Inl e, w1) \<Rightarrow> Some (Inl e, w1, c1)
           | (Inr _, w1) \<Rightarrow> drain_channel write_all C w1 c1)
      | (RecvEmpty, c1) \<Rightarrow> Some (Inr (), w, c1)
      | (RecvDisconnected, c1) \<Rightarrow> Some (Inr (), w, c1))"

definition relay_writer_step ::
    "('w \<Rightarrow> bytes \<Rightarrow> unit io_result \<times> 'w) \<Rightarrow> ('w \<Rightarrow> unit io_result \<times> 'w) \<Rightarrow>
     ('c, bytes) mpsc \<Rightarrow> ('k, bytes) mpsc \<Rightarrow> relay_wake \<Rightarrow>
     ('w, 'c, 'k) relay_writer \<Rightarrow> ('w, 'c, 'k) relay_writer flow option" where
  "relay_writer_step write_all flush C K i s =
     (case relay_select write_all flush C K i s of
        RWaiting s1 \<Rightarrow> Some (Continue s1)
      | RReturn s1 \<Rightarrow> Some (Return s1)
      | RSelected s1 \<Rightarrow> do {
          (r2, w2, c2) \<leftarrow> drain_channel write_all C (rw_writer s1) (rw_frame_rx s1);
          (let s2 = s1\<lparr>rw_writer := w2, rw_frame_rx := c2\<rparr>
           in case r2 of
                Inl e \<Rightarrow> Some (Return (s2\<lparr>rw_result := Inl e\<rparr>))
              | Inr _ \<Rightarrow> do {
                  (r3, w3, k3) \<leftarrow> drain_channel write_all K (rw_writer s2) (rw_response_rx s2);
                  (let s3 = s2\<lparr>rw_writer := w3, rw_response_rx := k3\<rparr>
                   in case r3 of
                        Inl e \<Rightarrow> Some (Return (s3\<lparr>rw_result := Inl e\<rparr>))
                      | Inr _ \<Rightarrow>
                          Some (case flush (rw_writer s3) of
                                  (Inl e, w) \<Rightarrow> Return (s3\<lparr>rw_writer := w, rw_result := Inl e\<rparr>)
                                | (Inr _, w) \<Rightarrow> Continue (s3\<lparr>rw_writer := w\<rparr>)))
                })
        })"

section \<open>Task 3: from the socket to the TAP device\<close>

record ('r, 't, 'h, 'k) relay_reader =
  rr_reader :: 'r
  rr_msg_buf :: bytes
  rr_tap :: 't
  rr_rt :: 'h
  rr_response_tx :: 'k
  rr_result :: "unit io_result"

text \<open>
  \<^verbatim>\<open>Sender::send\<close>, awaited: it waits until there is room, so the message goes behind what is
  queued; it fails when the receiver is gone.
\<close>

definition send_wait :: "('k, bytes) mpsc \<Rightarrow> 'k \<Rightarrow> bytes \<Rightarrow> 'k" where
  "send_wait K k m =
     (case try_send K k m of
        (SendOk, k1) \<Rightarrow> k1
      | (SendFull, k1) \<Rightarrow> permit_send K k1 m
      | (SendClosed, k1) \<Rightarrow> k1)"

fun relay_dispatch ::
    "('t \<Rightarrow> bytes \<Rightarrow> unit io_result \<times> 't) \<Rightarrow> ('k, bytes) mpsc \<Rightarrow> ('h, 'm) rt_api \<Rightarrow> string io_result \<Rightarrow>
     string \<Rightarrow> (bytes \<Rightarrow> string + proxy_command) \<Rightarrow> (proxy_response \<Rightarrow> string + bytes) \<Rightarrow>
     message io_result \<Rightarrow> ('r, 't, 'h, 'k) relay_reader \<Rightarrow> ('r, 't, 'h, 'k) relay_reader flow option" where
  "relay_dispatch tap_write_all K R proc iface_name from_slice to_vec (Inr (Frame frame)) s =
     (case tap_write_all (rr_tap s) frame of
        (Inl e, t) \<Rightarrow> Some (Return (s\<lparr>rr_tap := t, rr_result := Inl e\<rparr>))
      | (Inr _, t) \<Rightarrow> Some (Continue (s\<lparr>rr_tap := t\<rparr>)))"
| "relay_dispatch tap_write_all K R proc iface_name from_slice to_vec (Inr (Control payload)) s =
     (case decode_control from_slice payload of
        Inl _ \<Rightarrow> Some (Continue s)
      | Inr cmd \<Rightarrow>
          (case handle_proxy_command R proc (rr_rt s) iface_name cmd of
             (response, h) \<Rightarrow>
               (case encode_control to_vec response of
                  Inl _ \<Rightarrow> None
                | Inr response_msg \<Rightarrow>
                    Some (Continue (s\<lparr>rr_rt := h, rr_response_tx := send_wait K (rr_response_tx s) response_msg\<rparr>)))))"
| "relay_dispatch tap_write_all K R proc iface_name from_slice to_vec (Inl _) s = Some (Continue s)"

definition relay_reader_step ::
    "('r \<Rightarrow> nat \<Rightarrow> bytes io_result \<times> 'r) \<Rightarrow> ('t \<Rightarrow> bytes \<Rightarrow> unit io_result \<times> 't) \<Rightarrow> ('k, bytes) mpsc \<Rightarrow>
     ('h, 'm) rt_api \<Rightarrow> string \<Rightarrow> (bytes \<Rightarrow> string + proxy_command) \<Rightarrow> (proxy_response \<Rightarrow> string + bytes) \<Rightarrow>
     string io_result \<Rightarrow> ('r, 't, 'h, 'k) relay_reader \<Rightarrow> ('r, 't, 'h, 'k) relay_reader flow option" where
  "relay_reader_step read_exact tap_write_all K R iface_name from_slice to_vec proc s =
     (case read_exact (rr_reader s) 4 of
        (Inl _, r1) \<Rightarrow> Some (Return (s\<lparr>rr_reader := r1, rr_result := Inr ()\<rparr>))
      | (Inr len_buf, r1) \<Rightarrow>
          (let msg_len = unat (from_be_bytes len_buf :: u32)
           in if msg_len = 0 \<or> length (rr_msg_buf s) < msg_len
              then Some (Continue (s\<lparr>rr_reader := r1\<rparr>))
              else
                (case read_exact r1 msg_len of
                   (Inl _, r2) \<Rightarrow> Some (Return (s\<lparr>rr_reader := r2, rr_result := Inr ()\<rparr>))
                 | (Inr body, r2) \<Rightarrow>
                     (let msg_buf = body @ drop msg_len (rr_msg_buf s)
                      in relay_dispatch tap_write_all K R proc iface_name from_slice to_vec
                           (decode_message (take msg_len msg_buf))
                           (s\<lparr>rr_reader := r2, rr_msg_buf := msg_buf\<rparr>)))))"

end
