(* ===== verification/Net_Dev.thy ===== *)
theory Net_Dev
  imports Relay
begin

text \<open>
  The proxy's answers to commands: every command is answered under its own number by an
  answer of its type, and the statistics are those of \<^verbatim>\<open>/proc/net/dev\<close>.
\<close>

section \<open>Commands\<close>

fun cmd_id :: "proxy_command \<Rightarrow> u64" where
  "cmd_id (AddRoute i d p) = i"
| "cmd_id (RemoveRoute i d p) = i"
| "cmd_id (GetIfaceStats i) = i"

fun answers :: "proxy_command \<Rightarrow> proxy_response \<Rightarrow> bool" where
  "answers (AddRoute i d p) (RespOk j) = (i = j)"
| "answers (RemoveRoute i d p) (RespOk j) = (i = j)"
| "answers (GetIfaceStats i) (RespIfaceStats j m) = (i = j)"
| "answers c (RespError j e) = (cmd_id c = j)"
| "answers c r = False"

lemma answers_id: "answers c r \<Longrightarrow> resp_id r = cmd_id c"
  by (cases "(c, r)" rule: answers.cases) auto

text \<open>
  The proxy answers every command under the number of the command, with success or
  statistics as the command asks for, or with an error.
\<close>

lemma command_answered:
  "answers cmd (fst (handle_proxy_command R proc h name cmd))"
  by (cases cmd)
     (auto simp: handle_proxy_command_def resp_ok_def resp_error_def split: prod.splits sum.splits)

section \<open>Lines and words\<close>

definition newline :: char where "newline = CHR 0x0A"

lemma split_on_append:
  "c \<notin> set a \<Longrightarrow> split_on c (a @ c # s) = a # split_on c s"
  by (induction a) auto

lemma split_on_lines:
  assumes "\<forall>l \<in> set ls. newline \<notin> set l"
  shows "split_on newline (concat (map (\<lambda>l. l @ [newline]) ls)) = ls @ [[]]"
  using assms by (induction ls) (auto simp: split_on_append)

lemma lines_terminated:
  assumes "\<forall>l \<in> set ls. newline \<notin> set l \<and> CHR 0x0D \<notin> set l"
  shows "lines (concat (map (\<lambda>l. l @ [newline]) ls)) = ls"
proof -
  have "map strip_cr ls = ls"
  proof (rule map_idI)
    fix l assume "l \<in> set ls"
    with assms have "CHR 0x0D \<notin> set l" by simp
    then show "strip_cr l = l" using last_in_set [of l] by (auto simp: strip_cr_def simp del: last_in_set)
  qed
  with split_on_lines [of ls] assms show ?thesis by (simp add: lines_def newline_def)
qed

lemma words_acc_word:
  assumes "\<forall>c \<in> set w. \<not> is_space c"
  shows "words_acc v (w @ s) = words_acc (v @ w) s"
  using assms by (induction w arbitrary: v) auto

lemma words_acc_spaces: "words_acc [] (replicate n CHR '' '' @ s) = words_acc [] s"
  by (induction n) (auto simp: is_space_def)

lemma words_acc_padded:
  assumes "\<forall>p \<in> set ps. snd p \<noteq> [] \<and> (\<forall>c \<in> set (snd p). \<not> is_space c)" and "v \<noteq> []"
  shows "words_acc v (concat (map (\<lambda>(n, w). CHR '' '' # replicate n CHR '' '' @ w) ps)) = v # map snd ps"
  using assms
proof (induction ps arbitrary: v)
  case Nil
  then show ?case by simp
next
  case (Cons p ps)
  obtain n w where p: "p = (n, w)" by (cases p)
  have "is_space CHR '' ''" by (simp add: is_space_def)
  with Cons p show ?case
    by (simp add: words_acc_spaces words_acc_word)
qed

section \<open>The statistics file\<close>

text \<open>
  A line of the file as the kernel prints it: the name, right-aligned, a colon, and sixteen
  counters, each after a space and aligned by more spaces.
\<close>

definition pad_to :: "nat \<Rightarrow> string \<Rightarrow> nat" where
  "pad_to k s = k - length s"

definition dev_text :: "string \<Rightarrow> nat list \<Rightarrow> string" where
  "dev_text name ns =
     replicate (pad_to 6 name) CHR '' '' @ name @ '':'' @
     concat (map (\<lambda>n. CHR '' '' # replicate (pad_to 7 (dec n)) CHR '' '' @ dec n) ns)"

definition name_ok :: "string \<Rightarrow> bool" where
  "name_ok name \<longleftrightarrow> name \<noteq> [] \<and> last name \<noteq> CHR '':'' \<and> (\<forall>c \<in> set name. \<not> is_space c)"

definition counters_ok :: "nat list \<Rightarrow> bool" where
  "counters_ok ns \<longleftrightarrow> length ns = 16 \<and> (\<forall>n \<in> set ns. n < 2 ^ 64)"

definition dev_stats :: "nat list \<Rightarrow> interface_stats" where
  "dev_stats ns =
     \<lparr>rx_bytes = of_nat (ns ! 0), rx_packets = of_nat (ns ! 1), rx_errors = of_nat (ns ! 2),
      rx_dropped = of_nat (ns ! 3), tx_bytes = of_nat (ns ! 8), tx_packets = of_nat (ns ! 9),
      tx_errors = of_nat (ns ! 10), tx_dropped = of_nat (ns ! 11)\<rparr>"

lemma dec_no_space: "\<forall>c \<in> set (dec n). \<not> is_space c"
proof
  fix c assume "c \<in> set (dec n)"
  then have "is_digit 10 c" using to_radix_digits [of 10 n] by (auto simp: list_all_iff)
  then show "\<not> is_space c"
    by (auto simp: is_digit_def to_digit_def is_space_def Let_def split: if_splits)
qed

lemma split_dev_text:
  assumes "name_ok name"
  shows "split_whitespace (dev_text name ns) = (name @ '':'') # map dec ns"
proof -
  let ?ps = "map (\<lambda>n. (pad_to 7 (dec n), dec n)) ns"
  have "\<forall>c \<in> set (name @ '':''). \<not> is_space c" using assms by (auto simp: name_ok_def is_space_def)
  moreover have "words_acc (name @ '':'') (concat (map (\<lambda>(n, w). CHR '' '' # replicate n CHR '' '' @ w) ?ps)) =
      (name @ '':'') # map snd ?ps"
    by (rule words_acc_padded) (auto simp: dec_no_space)
  moreover have "map snd ?ps = map dec ns" by simp
  ultimately show ?thesis
    using words_acc_word [of "name @ '':''" "[]"]
    by (simp add: split_whitespace_def dev_text_def words_acc_spaces comp_def)
qed

lemma trim_name: "name_ok name \<Longrightarrow> trim_end_matches CHR '':'' (name @ '':'') = name"
  by (cases name rule: rev_cases) (auto simp: trim_end_matches_def name_ok_def)

lemma parse_dec_u64: "n < 2 ^ 64 \<Longrightarrow> parse_u64_or_0 (dec n) = of_nat n"
  by (simp add: parse_u64_or_0_def parse_uint_dec)

lemma add_dev_text:
  assumes "name_ok name" and "counters_ok ns"
  shows "add_dev_line m (dev_text name ns) = m(name \<mapsto> dev_stats ns)"
proof -
  have n: "parse_u64_or_0 (map dec ns ! i) = of_nat (ns ! i)" if "i < 16" for i
    using assms(2) that by (simp add: counters_ok_def parse_dec_u64)
  have "dev_line ((name @ '':'') # map dec ns) = dev_stats ns"
    using n [of 0] n [of 1] n [of 2] n [of 3] n [of 8] n [of 9] n [of 10] n [of 11]
    by (simp add: dev_line_def dev_stats_def)
  then show ?thesis
    using assms by (simp add: add_dev_line_def split_dev_text trim_name counters_ok_def)
qed

lemma dev_text_chars:
  assumes "name_ok name" and "is_space c" and "c \<noteq> CHR '' ''"
  shows "c \<notin> set (dev_text name ns)"
proof
  assume "c \<in> set (dev_text name ns)"
  then have "c = CHR '' '' \<or> c = CHR '':'' \<or> c \<in> set name \<or> (\<exists>n. c \<in> set (dec n))"
    by (auto simp: dev_text_def set_replicate_conv_if split: if_splits)
  moreover have "\<not> is_space CHR '':''" by (simp add: is_space_def)
  ultimately show False using assms dec_no_space by (auto simp: name_ok_def)
qed

lemma foldl_dev_lines:
  assumes "\<forall>e \<in> set es. name_ok (fst e) \<and> counters_ok (snd e)"
  shows "foldl add_dev_line m (map (\<lambda>(n, ns). dev_text n ns) es) =
    m ++ map_of (rev (map (\<lambda>(n, ns). (n, dev_stats ns)) es))"
  using assms
proof (induction es arbitrary: m)
  case Nil
  then show ?case by simp
next
  case (Cons e es)
  obtain n ns where e: "e = (n, ns)" by (cases e)
  with Cons show ?case by (simp add: add_dev_text map_add_upd_left)
qed



end
