(* ===== verification/Control.thy ===== *)
theory Control
  imports Tunnel Net_Dev
begin

text \<open>
  The commands to the proxy and their answers, seen from the callers. Any number of tasks
  call \<^verbatim>\<open>send_proxy_command\<close> on clones of one tunnel; the proxy carries out the commands it
  receives and answers, at any time and, as far as this theory is concerned, in any order and
  any number of times; the IPC reader hands an answer to the caller that is registered under
  its number.
\<close>

section \<open>Callers, the reader and the proxy together\<close>

text \<open>
  The state: the tunnel, the IPC reader, which shares the map of registered senders with it,
  and what was sent, each command with its caller's response sender.
\<close>

record ('q, 'k, 'r, 'c) control_plane =
  cp_tunnel :: "('q, 'k) tunnel_inner"
  cp_reader :: "('r, 'c) ipc_reader"
  cp_sent :: "(response \<times> proxy_command \<times> bytes) list"

definition control_init :: "('q, 'k, 'r, 'c) control_plane \<Rightarrow> bool" where
  "control_init s \<longleftrightarrow> ti_next_request_id (cp_tunnel s) = 1 \<and> ti_pending (cp_tunnel s) = [] \<and>
     ir_pending (cp_reader s) = [] \<and> ir_replies (cp_reader s) = [] \<and> cp_sent s = []"

text \<open>
  A step is a call, with a sender that was not used before; an answer of the proxy to a
  message that was sent, arriving at the reader; or any other message arriving there.
\<close>

inductive control_step ::
    "('c, bytes) mpsc \<Rightarrow> (proxy_command \<Rightarrow> string + bytes) \<Rightarrow> (bytes \<Rightarrow> string + proxy_command) \<Rightarrow>
     (proxy_response \<Rightarrow> string + bytes) \<Rightarrow> (bytes \<Rightarrow> string + proxy_response) \<Rightarrow>
     ('h, 'm) rt_api \<Rightarrow> string \<Rightarrow>
     ('q, 'k, 'r, 'c) control_plane \<Rightarrow> ('q, 'k, 'r, 'c) control_plane \<Rightarrow> bool"
  for C cmd_to_vec cmd_from_slice resp_to_vec resp_from_slice R name where
  call: "proxy_command_start cmd_to_vec cmd r (cp_tunnel s) = (Inr m, t) \<Longrightarrow> r \<notin> fst ` set (cp_sent s) \<Longrightarrow>
    control_step C cmd_to_vec cmd_from_slice resp_to_vec resp_from_slice R name s
      (s\<lparr>cp_tunnel := t, cp_reader := (cp_reader s)\<lparr>ir_pending := ti_pending t\<rparr>,
         cp_sent := cp_sent s @ [(r, cmd, m)]\<rparr>)"
| answer: "(r, cmd, m) \<in> set (cp_sent s) \<Longrightarrow> decode_message m = Inr (Control payload) \<Longrightarrow>
    decode_control cmd_from_slice payload = Inr received \<Longrightarrow>
    encode_control resp_to_vec (fst (handle_proxy_command R proc h name received)) = Inr m' \<Longrightarrow>
    reader_dispatch C resp_from_slice (decode_message m') (cp_reader s) = Continue rd \<Longrightarrow>
    control_step C cmd_to_vec cmd_from_slice resp_to_vec resp_from_slice R name s
      (s\<lparr>cp_tunnel := (cp_tunnel s)\<lparr>ti_pending := ir_pending rd\<rparr>, cp_reader := rd\<rparr>)"
| frame: "reader_dispatch C resp_from_slice (Inr (Frame f)) (cp_reader s) = Continue rd \<Longrightarrow>
    control_step C cmd_to_vec cmd_from_slice resp_to_vec resp_from_slice R name s (s\<lparr>cp_reader := rd\<rparr>)"

section \<open>The invariant\<close>

text \<open>The number of the command at position \<open>k\<close>.\<close>

abbreviation nth_id :: "nat \<Rightarrow> u64" where
  "nth_id k \<equiv> of_nat (Suc k)"

definition control_inv :: "(proxy_command \<Rightarrow> string + bytes) \<Rightarrow> ('q, 'k, 'r, 'c) control_plane \<Rightarrow> bool" where
  "control_inv to_vec s \<longleftrightarrow>
     ti_next_request_id (cp_tunnel s) = nth_id (length (cp_sent s)) \<and>
     ir_pending (cp_reader s) = ti_pending (cp_tunnel s) \<and>
     distinct (map fst (cp_sent s)) \<and> distinct (map fst (ir_replies (cp_reader s))) \<and>
     (\<forall>k < length (cp_sent s). encode_control to_vec (with_id (nth_id k) (fst (snd (cp_sent s ! k)))) =
        Inr (snd (snd (cp_sent s ! k)))) \<and>
     (\<forall>i r. map_of (ti_pending (cp_tunnel s)) i = Some r \<longrightarrow>
        r \<notin> fst ` set (ir_replies (cp_reader s)) \<and>
        (\<exists>k < length (cp_sent s). i = nth_id k \<and> fst (cp_sent s ! k) = r)) \<and>
     (\<forall>(r, resp) \<in> set (ir_replies (cp_reader s)). \<exists>k < length (cp_sent s).
        fst (cp_sent s ! k) = r \<and> answers (with_id (nth_id k) (fst (snd (cp_sent s ! k)))) resp)"

lemma control_invD:
  assumes "control_inv to_vec s"
  shows "ti_next_request_id (cp_tunnel s) = nth_id (length (cp_sent s))"
    "ir_pending (cp_reader s) = ti_pending (cp_tunnel s)"
    "distinct (map fst (cp_sent s))" "distinct (map fst (ir_replies (cp_reader s)))"
    "k < length (cp_sent s) \<Longrightarrow>
       encode_control to_vec (with_id (nth_id k) (fst (snd (cp_sent s ! k)))) = Inr (snd (snd (cp_sent s ! k)))"
    "map_of (ti_pending (cp_tunnel s)) i = Some r \<Longrightarrow> r \<notin> fst ` set (ir_replies (cp_reader s))"
    "map_of (ti_pending (cp_tunnel s)) i = Some r \<Longrightarrow>
       \<exists>k < length (cp_sent s). i = nth_id k \<and> fst (cp_sent s ! k) = r"
    "(r, resp) \<in> set (ir_replies (cp_reader s)) \<Longrightarrow> \<exists>k < length (cp_sent s).
       fst (cp_sent s ! k) = r \<and> answers (with_id (nth_id k) (fst (snd (cp_sent s ! k)))) resp"
  using assms unfolding control_inv_def by (blast, blast, blast, blast, blast, blast, blast, blast)

lemma nth_id_inj:
  assumes "nth_id k = nth_id l" and "k < n" "l < n" "n < 2 ^ 64"
  shows "k = l"
proof -
  have "unat (nth_id k) = Suc k" "unat (nth_id l) = Suc l"
    using assms(2-4) by (simp_all add: unat_of_nat del: of_nat_Suc)
  with assms(1) show ?thesis by simp
qed

lemma cmd_id_with_id: "cmd_id (with_id i cmd) = i"
  by (cases cmd) simp_all

text \<open>JSON that reads back what it wrote.\<close>

definition codec :: "('a \<Rightarrow> string + bytes) \<Rightarrow> (bytes \<Rightarrow> string + 'a) \<Rightarrow> bool" where
  "codec to_vec from_slice \<longleftrightarrow> (\<forall>a json. to_vec a = Inr json \<longrightarrow> from_slice json = Inr a)"

lemma codec_decodes:
  assumes "codec to_vec from_slice" and "encode_control to_vec a = Inr m"
  obtains payload where "decode_message m = Inr (Control payload)" "decode_control from_slice payload = Inr a"
  using assms by (cases "to_vec a") (auto simp: encode_control_def decode_control_def decode_message_def codec_def)

lemma call_inv:
  assumes "control_inv to_vec s" and "length (cp_sent s) < 2 ^ 64"
    and "proxy_command_start to_vec cmd r (cp_tunnel s) = (Inr m, t)" and "r \<notin> fst ` set (cp_sent s)"
  shows "control_inv to_vec (s\<lparr>cp_tunnel := t, cp_reader := (cp_reader s)\<lparr>ir_pending := ti_pending t\<rparr>,
    cp_sent := cp_sent s @ [(r, cmd, m)]\<rparr>)"
proof -
  let ?n = "length (cp_sent s)"
  from assms(1) have nid: "ti_next_request_id (cp_tunnel s) = nth_id ?n" by (simp add: control_inv_def)
  with assms(3) have t: "ti_next_request_id t = nth_id (Suc ?n)"
      "ti_pending t = hm_insert (nth_id ?n) r (ti_pending (cp_tunnel s))"
      "encode_control to_vec (with_id (nth_id ?n) cmd) = Inr m"
    by (auto simp: proxy_command_start_def Let_def)
  have r: "r \<notin> fst ` set (ir_replies (cp_reader s))"
  proof
    assume "r \<in> fst ` set (ir_replies (cp_reader s))"
    then obtain resp where "(r, resp) \<in> set (ir_replies (cp_reader s))" by force
    from control_invD(8) [OF assms(1) this] assms(4) show False by (metis imageI nth_mem)
  qed
  let ?sent = "cp_sent s @ [(r, cmd, m)]"
  have enc: "encode_control to_vec (with_id (nth_id k) (fst (snd (?sent ! k)))) = Inr (snd (snd (?sent ! k)))"
    if "k < Suc ?n" for k
    using control_invD(5) [OF assms(1), of k] t(3) that by (cases "k = ?n") (simp_all add: nth_append del: of_nat_Suc)
  have pend: "r' \<notin> fst ` set (ir_replies (cp_reader s)) \<and> (\<exists>k < Suc ?n. i = nth_id k \<and> fst (?sent ! k) = r')"
    if i: "map_of (ti_pending t) i = Some r'" for i r'
  proof (cases "i = nth_id ?n")
    case True
    with i t(2) r show ?thesis by (auto simp: hm_simps simp del: of_nat_Suc intro!: exI [of _ ?n])
  next
    case False
    with i t(2) have i': "map_of (ti_pending (cp_tunnel s)) i = Some r'" by (simp add: hm_simps del: of_nat_Suc)
    from control_invD(7) [OF assms(1) i'] obtain k where "k < ?n" "i = nth_id k" "fst (cp_sent s ! k) = r'" by blast
    then have "k < Suc ?n \<and> i = nth_id k \<and> fst (?sent ! k) = r'" by (simp add: nth_append del: of_nat_Suc)
    with control_invD(6) [OF assms(1) i'] show ?thesis by blast
  qed
  have repl: "\<exists>k < Suc ?n. fst (?sent ! k) = r' \<and> answers (with_id (nth_id k) (fst (snd (?sent ! k)))) resp"
    if rr: "(r', resp) \<in> set (ir_replies (cp_reader s))" for r' resp
  proof -
    from control_invD(8) [OF assms(1) rr] obtain k where "k < ?n" "fst (cp_sent s ! k) = r'"
      "answers (with_id (nth_id k) (fst (snd (cp_sent s ! k)))) resp" by blast
    then show ?thesis by (intro exI [of _ k]) (simp add: nth_append del: of_nat_Suc)
  qed
  have "distinct (map fst ?sent)" using control_invD(3) [OF assms(1)] assms(4) by simp
  with control_invD(4) [OF assms(1)] t(1) enc pend repl show ?thesis
    unfolding control_inv_def by (simp add: split_beta' del: of_nat_Suc)
qed

text \<open>What an answer to the command at position \<open>k\<close> does to the reader.\<close>

lemma deliver_inv:
  assumes inv: "control_inv to_vec s" and n: "length (cp_sent s) < 2 ^ 64" and k: "k < length (cp_sent s)"
    and tx: "map_of (ti_pending (cp_tunnel s)) (nth_id k) = Some tx"
    and resp: "answers (with_id (nth_id k) (fst (snd (cp_sent s ! k)))) resp"
    and rd: "rd = (cp_reader s)\<lparr>ir_pending := hm_remove (nth_id k) (ti_pending (cp_tunnel s)),
        ir_replies := ir_replies (cp_reader s) @ [(tx, resp)]\<rparr>"
  shows "control_inv to_vec (s\<lparr>cp_tunnel := (cp_tunnel s)\<lparr>ti_pending := ir_pending rd\<rparr>, cp_reader := rd\<rparr>)"
proof -
  from control_invD(7) [OF inv tx] obtain l where l: "l < length (cp_sent s)" "nth_id k = nth_id l" "fst (cp_sent s ! l) = tx"
    by blast
  from nth_id_inj [OF l(2) k l(1) n] l(3) have txk: "fst (cp_sent s ! k) = tx" by simp
  have pend: "r' \<notin> fst ` set (ir_replies rd) \<and> (\<exists>k < length (cp_sent s). j = nth_id k \<and> fst (cp_sent s ! k) = r')"
    if j: "map_of (ir_pending rd) j = Some r'" for j r'
  proof -
    from j rd have j': "map_of (ti_pending (cp_tunnel s)) j = Some r'" "j \<noteq> nth_id k"
      by (auto simp: hm_simps simp del: of_nat_Suc split: if_splits)
    from control_invD(7) [OF inv j'(1)] obtain k' where
      k': "k' < length (cp_sent s)" "j = nth_id k'" "fst (cp_sent s ! k') = r'" by blast
    from j'(2) k'(2) have "k' \<noteq> k" by blast
    with control_invD(3) [OF inv] k k'(1) have "map fst (cp_sent s) ! k' \<noteq> map fst (cp_sent s) ! k"
      by (simp add: nth_eq_iff_index_eq del: nth_map)
    with k k' txk have "r' \<noteq> tx" by simp
    with control_invD(6) [OF inv j'(1)] rd k' show ?thesis by auto
  qed
  have repl: "\<exists>k < length (cp_sent s). fst (cp_sent s ! k) = r' \<and>
      answers (with_id (nth_id k) (fst (snd (cp_sent s ! k)))) resp'"
    if "(r', resp') \<in> set (ir_replies rd)" for r' resp'
  proof (cases "(r', resp') \<in> set (ir_replies (cp_reader s))")
    case True
    then show ?thesis by (rule control_invD(8) [OF inv])
  next
    case False
    with that rd have "r' = tx" "resp' = resp" by auto
    with k txk resp show ?thesis by blast
  qed
  have "distinct (map fst (ir_replies rd))"
    using control_invD(4) [OF inv] control_invD(6) [OF inv tx] rd by simp
  with control_invD(1,3) [OF inv] control_invD(5) [OF inv] pend repl show ?thesis
    unfolding control_inv_def by (simp add: split_beta' del: of_nat_Suc)
qed

lemma answer_inv:
  assumes inv: "control_inv cmd_to_vec s" and n: "length (cp_sent s) < 2 ^ 64"
    and codecs: "codec cmd_to_vec cmd_from_slice" "codec resp_to_vec resp_from_slice"
    and sent: "(r, cmd, m) \<in> set (cp_sent s)" "decode_message m = Inr (Control payload)"
      "decode_control cmd_from_slice payload = Inr received"
    and answered: "encode_control resp_to_vec (fst (handle_proxy_command R proc h name received)) = Inr m'"
    and arrives: "reader_dispatch C resp_from_slice (decode_message m') (cp_reader s) = Continue rd"
  shows "control_inv cmd_to_vec (s\<lparr>cp_tunnel := (cp_tunnel s)\<lparr>ti_pending := ir_pending rd\<rparr>, cp_reader := rd\<rparr>)"
proof -
  let ?resp = "fst (handle_proxy_command R proc h name received)"
  from sent(1) obtain k where k: "k < length (cp_sent s)" "cp_sent s ! k = (r, cmd, m)"
    by (metis in_set_conv_nth)
  then have "encode_control cmd_to_vec (with_id (nth_id k) cmd) = Inr m"
    using control_invD(5) [OF inv k(1)] by simp
  from codec_decodes [OF codecs(1) this] sent(2,3) have received: "received = with_id (nth_id k) cmd" by auto
  have resp: "answers received ?resp" by (rule command_answered)
  then have i: "resp_id ?resp = nth_id k"
    using received by (simp add: answers_id cmd_id_with_id del: of_nat_Suc)
  from codec_decodes [OF codecs(2) answered] obtain p where
    p: "decode_message m' = Inr (Control p)" "decode_control resp_from_slice p = Inr ?resp" by blast
  note pend = control_invD(2) [OF inv]
  show ?thesis
  proof (cases "map_of (ti_pending (cp_tunnel s)) (nth_id k)")
    case None
    with arrives p i pend have "rd = cp_reader s" by (simp del: of_nat_Suc)
    with inv pend show ?thesis by simp
  next
    case (Some tx)
    with arrives p i pend have "rd = (cp_reader s)\<lparr>ir_pending := hm_remove (nth_id k) (ti_pending (cp_tunnel s)),
        ir_replies := ir_replies (cp_reader s) @ [(tx, ?resp)]\<rparr>" by (simp del: of_nat_Suc)
    from deliver_inv [OF inv n k(1) Some _ this] resp received k(2) show ?thesis by simp
  qed
qed

lemma frame_inv:
  assumes "control_inv to_vec s" and "reader_dispatch C from_slice (Inr (Frame f)) (cp_reader s) = Continue rd"
  shows "control_inv to_vec (s\<lparr>cp_reader := rd\<rparr>)"
proof -
  from assms(2) have "ir_pending rd = ir_pending (cp_reader s)" "ir_replies rd = ir_replies (cp_reader s)"
    by (auto simp: Let_def split: prod.splits try_send_result.splits)
  with assms(1) show ?thesis by (simp add: control_inv_def)
qed

inductive_cases control_stepE:
  "control_step C cmd_to_vec cmd_from_slice resp_to_vec resp_from_slice R name s s'"

lemma control_step_sent:
  "control_step C cmd_to_vec cmd_from_slice resp_to_vec resp_from_slice R name s s' \<Longrightarrow>
     length (cp_sent s) \<le> length (cp_sent s')"
  by (erule control_stepE) simp_all

lemma control_step_inv:
  assumes "control_step C cmd_to_vec cmd_from_slice resp_to_vec resp_from_slice R name s s'"
    and "codec cmd_to_vec cmd_from_slice" "codec resp_to_vec resp_from_slice"
    and "control_inv cmd_to_vec s" and "length (cp_sent s) < 2 ^ 64"
  shows "control_inv cmd_to_vec s'"
  using assms(1)
proof cases
  case call
  with assms(4,5) show ?thesis by (simp add: call_inv)
next
  case (answer r cmd m payload received proc h m' rd)
  show ?thesis unfolding answer(1) by (rule answer_inv [OF assms(4,5,2,3) answer(2-6)])
next
  case frame
  with assms(4) show ?thesis by (simp add: frame_inv)
qed

lemma control_reachable_inv:
  assumes "(control_step C cmd_to_vec cmd_from_slice resp_to_vec resp_from_slice R name)\<^sup>*\<^sup>* s0 s"
    and "codec cmd_to_vec cmd_from_slice" "codec resp_to_vec resp_from_slice"
    and "control_init s0" and "length (cp_sent s) < 2 ^ 64"
  shows "control_inv cmd_to_vec s"
  using assms(1,5)
proof (induction rule: rtranclp_induct)
  case base
  from assms(4) show ?case by (simp add: control_init_def control_inv_def)
next
  case (step s1 s2)
  from control_step_sent [OF step(2)] step(4) have "length (cp_sent s1) < 2 ^ 64" by linarith
  with step control_step_inv [OF step(2) assms(2,3)] show ?case by blast
qed

section \<open>Every caller gets the answer to its own command\<close>

text \<open>
  C5: However the calls of \<^verbatim>\<open>send_proxy_command\<close> interleave with each other and with the
  answers of the proxy, and in whatever order and however often the proxy answers, every
  caller gets at most one answer, and it is an answer to the caller's own command: success
  for a change of routes, the statistics for a request for them, or an error. The
  \<^verbatim>\<open>unexpected response\<close> branches of the callers are never taken. This holds for the first
  \<open>2 ^ 64 - 1\<close> commands, after which the numbers repeat.
\<close>

theorem proxy_commands_answered:
  assumes "codec cmd_to_vec cmd_from_slice" and "codec resp_to_vec resp_from_slice" and "control_init s0"
    and "(control_step C cmd_to_vec cmd_from_slice resp_to_vec resp_from_slice R name)\<^sup>*\<^sup>* s0 s"
    and "length (cp_sent s) < 2 ^ 64"
  shows "distinct (map fst (cp_sent s)) \<and> distinct (map fst (ir_replies (cp_reader s))) \<and>
    (\<forall>r resp. (r, resp) \<in> set (ir_replies (cp_reader s)) \<longrightarrow>
      (\<exists>cmd m. (r, cmd, m) \<in> set (cp_sent s) \<and>
        (case cmd of
           GetIfaceStats _ \<Rightarrow> (\<exists>x. stats_answer (Inr resp) = Inr x) \<or> (\<exists>i e. resp = RespError i e)
         | _ \<Rightarrow> route_answer (Inr resp) = Inr () \<or> (\<exists>i e. resp = RespError i e))))"
proof (intro conjI allI impI)
  have inv: "control_inv cmd_to_vec s" by (rule control_reachable_inv [OF assms(4,1,2,3,5)])
  then show "distinct (map fst (cp_sent s))" "distinct (map fst (ir_replies (cp_reader s)))"
    by (rule control_invD)+
  fix r resp assume "(r, resp) \<in> set (ir_replies (cp_reader s))"
  from control_invD(8) [OF inv this] obtain k where k: "k < length (cp_sent s)" "fst (cp_sent s ! k) = r"
    "answers (with_id (nth_id k) (fst (snd (cp_sent s ! k)))) resp" by blast
  obtain cmd m where cm: "cp_sent s ! k = (r, cmd, m)" using k(2) by (metis prod.collapse)
  with k(1) have "(r, cmd, m) \<in> set (cp_sent s)" by (metis nth_mem)
  moreover have "answers (with_id (nth_id k) cmd) resp" using k(3) cm by simp
  ultimately show "\<exists>cmd m. (r, cmd, m) \<in> set (cp_sent s) \<and>
        (case cmd of
           GetIfaceStats _ \<Rightarrow> (\<exists>x. stats_answer (Inr resp) = Inr x) \<or> (\<exists>i e. resp = RespError i e)
         | _ \<Rightarrow> route_answer (Inr resp) = Inr () \<or> (\<exists>i e. resp = RespError i e))"
    by (intro exI [of _ cmd] exI [of _ m]) (cases cmd; cases resp; simp del: of_nat_Suc)
qed

text \<open>Closed instances: a codec for the numbers of commands that all ask for statistics.\<close>

definition stats_cmd_to_vec :: "proxy_command \<Rightarrow> string + bytes" where
  "stats_cmd_to_vec c = (case c of GetIfaceStats i \<Rightarrow> Inr (to_be_bytes 8 i) | _ \<Rightarrow> Inl ''not encoded'')"

definition stats_cmd_from_slice :: "bytes \<Rightarrow> string + proxy_command" where
  "stats_cmd_from_slice b = Inr (GetIfaceStats (from_be_bytes b))"

definition error_resp_to_vec :: "proxy_response \<Rightarrow> string + bytes" where
  "error_resp_to_vec r =
     (case r of RespError i e \<Rightarrow> if e = [] then Inr (to_be_bytes 8 i) else Inl ''not encoded'' | _ \<Rightarrow> Inl ''not encoded'')"

definition error_resp_from_slice :: "bytes \<Rightarrow> string + proxy_response" where
  "error_resp_from_slice b = Inr (RespError (from_be_bytes b) [])"

lemma stats_codecs:
  "codec stats_cmd_to_vec stats_cmd_from_slice" "codec error_resp_to_vec error_resp_from_slice"
  by (auto simp: codec_def stats_cmd_to_vec_def stats_cmd_from_slice_def error_resp_to_vec_def
      error_resp_from_slice_def from_to_be_bytes split: proxy_command.splits proxy_response.splits if_splits)

definition plane0 :: "(stack_command chan, bytes chan, bytes, bytes chan) control_plane" where
  "plane0 = \<lparr>cp_tunnel = inner0, cp_reader = reader0, cp_sent = []\<rparr>"

theorem proxy_commands_answered_witness:
  "\<exists>s. (control_step chan_mpsc stats_cmd_to_vec stats_cmd_from_slice error_resp_to_vec error_resp_from_slice
       set_rt ''tap0'')\<^sup>*\<^sup>* plane0 s \<and>
     ir_replies (cp_reader s) = [(5, RespError 1 [])] \<and> distinct (map fst (ir_replies (cp_reader s)))"
proof -
  let ?step = "control_step chan_mpsc stats_cmd_to_vec stats_cmd_from_slice error_resp_to_vec
    error_resp_from_slice set_rt ''tap0''"
  let ?m = "MSG_TYPE_CONTROL # to_be_bytes 8 (1 :: u64)"
  let ?t = "inner0\<lparr>ti_next_request_id := 2, ti_pending := [(1, 5)]\<rparr>"
  let ?s1 = "plane0\<lparr>cp_tunnel := ?t, cp_reader := reader0\<lparr>ir_pending := [(1, 5)]\<rparr>, cp_sent := [(5, GetIfaceStats 0, ?m)]\<rparr>"
  let ?rd = "reader0\<lparr>ir_pending := [], ir_replies := [(5, RespError 1 [])]\<rparr>"
  let ?s2 = "?s1\<lparr>cp_tunnel := (cp_tunnel ?s1)\<lparr>ti_pending := ir_pending ?rd\<rparr>, cp_reader := ?rd\<rparr>"
  have t: "proxy_command_start stats_cmd_to_vec (GetIfaceStats 0) 5 (cp_tunnel plane0) = (Inr ?m, ?t)"
    by (simp add: proxy_command_start_def plane0_def inner0_def spawn_tasks_def encode_control_def
        stats_cmd_to_vec_def Let_def hm_insert_def)
  have 1: "?step plane0 ?s1"
    using control_step.call [OF t] by (simp add: plane0_def)
  have h: "fst (handle_proxy_command set_rt (Inl (IoError Other [])) {} ''tap0'' (GetIfaceStats 1)) = RespError 1 []"
    by (simp add: handle_proxy_command_def read_proc_net_dev_def resp_error_def)
  have d: "reader_dispatch chan_mpsc error_resp_from_slice (decode_message ?m) (cp_reader ?s1) = Continue ?rd"
    by (simp add: decode_message_def decode_control_def error_resp_from_slice_def from_to_be_bytes
        reader0_def hm_remove_def)
  have 2: "?step ?s1 ?s2"
    by (rule control_step.answer [where r = 5 and cmd = "GetIfaceStats 0" and m = ?m and payload = "to_be_bytes 8 (1 :: u64)"
          and received = "GetIfaceStats 1" and m' = ?m and h = "{}" and proc = "Inl (IoError Other [])", OF _ _ _ _ d])
       (simp_all add: decode_message_def decode_control_def stats_cmd_from_slice_def from_to_be_bytes h
          encode_control_def error_resp_to_vec_def)
  have r: "?step\<^sup>*\<^sup>* plane0 ?s2" by (rule rtranclp.rtrancl_into_rtrancl [of ?step, OF r_into_rtranclp [of ?step, OF 1] 2])
  have "control_init plane0"
    by (simp add: control_init_def plane0_def inner0_def spawn_tasks_def Let_def reader0_def)
  from proxy_commands_answered [OF stats_codecs this r] have "distinct (map fst (ir_replies (cp_reader ?s2)))"
    by simp
  moreover have "ir_replies (cp_reader ?s2) = [(5, RespError 1 [])]" by simp
  ultimately show ?thesis using r by blast
qed

end
