(* ===== verification/Relay_Facts.thy ===== *)
theory Relay_Facts
  imports Net_Dev Ipc_Tasks
begin

text \<open>
  What the three tasks of the proxy's relay do with whole streams: frames from the socket
  to the TAP device, frames from the TAP device to the socket, and what happens to a
  message that is longer than the buffer.
\<close>

section \<open>From the socket to the TAP device\<close>

text \<open>
  The TAP device takes a frame per write; writing no bytes does nothing. \<open>tv\<close> are the frames
  it was given.
\<close>

definition tap_delivers :: "('t \<Rightarrow> bytes \<Rightarrow> unit io_result \<times> 't) \<Rightarrow> ('t \<Rightarrow> bytes list) \<Rightarrow> bool" where
  "tap_delivers tap_write_all tv \<longleftrightarrow>
     (\<forall>t f. \<exists>t'. tap_write_all t f = (Inr (), t') \<and> tv t' = tv t @ (if f = [] then [] else [f]))"

fun commands_of :: "(bytes \<Rightarrow> string + proxy_command) \<Rightarrow> bytes list \<Rightarrow> proxy_command list" where
  "commands_of from_slice [] = []"
| "commands_of from_slice (m # ms) =
     (case decode_message m of
        Inr (Control payload) \<Rightarrow>
          (case from_slice payload of
             Inr cmd \<Rightarrow> cmd # commands_of from_slice ms
           | Inl _ \<Rightarrow> commands_of from_slice ms)
      | _ \<Rightarrow> commands_of from_slice ms)"

lemma commands_of_Cons: "commands_of fs (m # ms) = commands_of fs [m] @ commands_of fs ms"
  by (auto split: sum.splits message.splits)

text \<open>A control message with an answer to a command.\<close>

definition answer_message :: "(proxy_response \<Rightarrow> string + bytes) \<Rightarrow> proxy_command \<Rightarrow> bytes \<Rightarrow> bool" where
  "answer_message to_vec cmd m \<longleftrightarrow>
     (\<exists>resp json. answers cmd resp \<and> to_vec resp = Inr json \<and> m = MSG_TYPE_CONTROL # json)"

lemma send_wait_view:
  assumes "mpsc_refines K kv" and "has_receiver (kv k)"
  shows "kv (send_wait K k m) = (kv k)\<lparr>queue := queue (kv k) @ [m]\<rparr>"
proof -
  obtain x k1 where x: "try_send K k m = (x, k1)" by fastforce
  then have "(x, kv k1) = chan_try_send (kv k) m" using mpsc_try_send [OF assms(1), of k m] by simp
  with x assms show ?thesis
    by (auto simp: send_wait_def chan_try_send_def chan_permit_send_def mpsc_permit_send split: if_splits)
qed

text \<open>What one message does; the message fits the buffer.\<close>

lemma relay_dispatch_effect:
  assumes K: "mpsc_refines K kv" "has_receiver (kv (rr_response_tx s))" and T: "tap_delivers tw tv"
    and V: "\<forall>resp. \<exists>json. to_vec resp = Inr json"
  obtains s' rs where "relay_dispatch tw K R proc name from_slice to_vec (decode_message m) s = Some (Continue s')"
    "rr_reader s' = rr_reader s" "rr_msg_buf s' = rr_msg_buf s"
    "tv (rr_tap s') = tv (rr_tap s) @ filter (\<lambda>f. f \<noteq> []) (frames_of [m])"
    "kv (rr_response_tx s') = (kv (rr_response_tx s))\<lparr>queue := queue (kv (rr_response_tx s)) @ rs\<rparr>"
    "list_all2 (answer_message to_vec) (commands_of from_slice [m]) rs"
proof (cases "decode_message m")
  case (Inl e)
  with that [of s "[]"] show thesis by simp
next
  case (Inr d)
  show thesis
  proof (cases d)
    case (Frame f)
    obtain t' where "tw (rr_tap s) f = (Inr (), t')" "tv t' = tv (rr_tap s) @ (if f = [] then [] else [f])"
      using T by (auto simp: tap_delivers_def)
    with that [of "s\<lparr>rr_tap := t'\<rparr>" "[]"] Inr Frame show thesis by (simp split: if_splits)
  next
    case (Control payload)
    show thesis
    proof (cases "from_slice payload")
      case (Inl e)
      with that [of s "[]"] Inr Control show thesis by (simp add: decode_control_def)
    next
      case cmd: (Inr cmd)
      obtain resp h where r: "handle_proxy_command R proc (rr_rt s) name cmd = (resp, h)" by fastforce
      obtain json where j: "to_vec resp = Inr json" using V by blast
      have "answers cmd resp" using command_answered [of cmd R proc "rr_rt s" name] r by simp
      with j have "answer_message to_vec cmd (MSG_TYPE_CONTROL # json)" by (auto simp: answer_message_def)
      with that [of "s\<lparr>rr_rt := h, rr_response_tx := send_wait K (rr_response_tx s) (MSG_TYPE_CONTROL # json)\<rparr>"
          "[MSG_TYPE_CONTROL # json]"] Inr Control cmd r j
      show thesis by (simp add: decode_control_def encode_control_def send_wait_view [OF K])
    qed
  qed
qed

lemma relay_step_framed:
  assumes rd: "reads_stream rd rv" and s: "rv (rr_reader s) = framed m @ rest"
    and m: "0 < length m" "length m \<le> length (rr_msg_buf s)" "length m < 2 ^ 32"
  shows "\<exists>r buf. rv r = rest \<and> length buf = length (rr_msg_buf s) \<and>
    relay_reader_step rd tw K R name from_slice to_vec proc s =
      relay_dispatch tw K R proc name from_slice to_vec (decode_message m) (s\<lparr>rr_reader := r, rr_msg_buf := buf\<rparr>)"
proof -
  let ?len = "to_be_bytes 4 (of_nat (length m) :: u32)"
  from rd obtain r1 where r1: "rd (rr_reader s) 4 = (Inr ?len, r1)" "rv r1 = m @ rest"
    by (cases rule: reads_stream_cases [where r = "rr_reader s" and n = 4])
       (use s in \<open>auto simp: framed_def\<close>)
  from rd obtain r2 where r2: "rd r1 (length m) = (Inr m, r2)" "rv r2 = rest"
    by (cases rule: reads_stream_cases [where r = r1 and n = "length m"]) (use r1 in auto)
  have len: "unat (from_be_bytes ?len :: u32) = length m"
    using m(3) by (simp add: from_to_be_bytes unat_frame_len)
  from r1 r2 len m show ?thesis
    by (intro exI [of _ r2] exI [of _ "m @ drop (length m) (rr_msg_buf s)"]) (simp add: relay_reader_step_def Let_def)
qed

text \<open>
  The proxy delivers what the library sends. On a stream of messages that fit its
  buffer, the reader task writes exactly the frames among them to the TAP device, each as
  one write and in order, leaving out empty ones, and queues exactly one answer per
  command, in order, of the command's type and under its number; nothing is read beyond
  the messages.
\<close>

lemma relay_reader_delivers:
  assumes "reads_stream rd rv" and "tap_delivers tw tv" and "mpsc_refines K kv"
    and "\<forall>resp. \<exists>json. to_vec resp = Inr json"
    and "rv (rr_reader s) = concat (map framed ms) @ rest"
    and "\<forall>m \<in> set ms. 0 < length m \<and> length m \<le> length (rr_msg_buf s) \<and> length m < 2 ^ 32"
    and "has_receiver (kv (rr_response_tx s))" and "length procs = length ms"
  shows "\<exists>s' rs. task_run (relay_reader_step rd tw K R name from_slice to_vec) procs s = Some (Continue s', []) \<and>
    rv (rr_reader s') = rest \<and>
    tv (rr_tap s') = tv (rr_tap s) @ filter (\<lambda>f. f \<noteq> []) (frames_of ms) \<and>
    queue (kv (rr_response_tx s')) = queue (kv (rr_response_tx s)) @ rs \<and>
    list_all2 (answer_message to_vec) (commands_of from_slice ms) rs"
  using assms(5-8)
proof (induction ms arbitrary: s procs)
  case Nil
  then show ?case by simp
next
  case (Cons m ms)
  then obtain p ps where p: "procs = p # ps" "length ps = length ms" by (cases procs) auto
  have "rv (rr_reader s) = framed m @ (concat (map framed ms) @ rest)" using Cons.prems by simp
  from relay_step_framed [OF assms(1) this, of tw K R name from_slice to_vec p] Cons.prems(2) obtain r buf where
    r: "rv r = concat (map framed ms) @ rest" "length buf = length (rr_msg_buf s)"
    and st: "relay_reader_step rd tw K R name from_slice to_vec p s =
      relay_dispatch tw K R p name from_slice to_vec (decode_message m) (s\<lparr>rr_reader := r, rr_msg_buf := buf\<rparr>)"
    by auto
  have "has_receiver (kv (rr_response_tx (s\<lparr>rr_reader := r, rr_msg_buf := buf\<rparr>)))" using Cons.prems(3) by simp
  from relay_dispatch_effect [OF assms(3) this assms(2,4), of R p name from_slice m] obtain s1 rs1 where
    d: "relay_dispatch tw K R p name from_slice to_vec (decode_message m) (s\<lparr>rr_reader := r, rr_msg_buf := buf\<rparr>) =
      Some (Continue s1)"
    and s1: "rr_reader s1 = r" "rr_msg_buf s1 = buf"
      "tv (rr_tap s1) = tv (rr_tap s) @ filter (\<lambda>f. f \<noteq> []) (frames_of [m])"
      "kv (rr_response_tx s1) = (kv (rr_response_tx s))\<lparr>queue := queue (kv (rr_response_tx s)) @ rs1\<rparr>"
      "list_all2 (answer_message to_vec) (commands_of from_slice [m]) rs1"
    by (auto simp del: frames_of.simps commands_of.simps)
  from Cons.IH [of s1 ps] r s1 Cons.prems p obtain s' rs where
    "task_run (relay_reader_step rd tw K R name from_slice to_vec) ps s1 = Some (Continue s', [])"
    "rv (rr_reader s') = rest" "tv (rr_tap s') = tv (rr_tap s1) @ filter (\<lambda>f. f \<noteq> []) (frames_of ms)"
    "queue (kv (rr_response_tx s')) = queue (kv (rr_response_tx s1)) @ rs"
    "list_all2 (answer_message to_vec) (commands_of from_slice ms) rs"
    by auto
  with p st d s1 show ?case
    by (intro exI [of _ s'] exI [of _ "rs1 @ rs"])
       (simp add: frames_of_Cons [of m ms] commands_of_Cons [of from_slice m ms] list_all2_appendI
          del: frames_of.simps commands_of.simps)
qed

text \<open>Closed instances: a TAP device that records its frames.\<close>

definition log_tap :: "bytes list \<Rightarrow> bytes \<Rightarrow> unit io_result \<times> bytes list" where
  "log_tap t f = (Inr (), if f = [] then t else t @ [f])"

lemma log_tap_delivers: "tap_delivers log_tap id"
  by (simp add: tap_delivers_def log_tap_def)

definition relay0 :: "bytes \<Rightarrow> (bytes, bytes list, (ip_addr \<times> u8 \<times> u32) set, bytes chan) relay_reader" where
  "relay0 stream = \<lparr>rr_reader = stream, rr_msg_buf = replicate 30 0, rr_tap = [], rr_rt = {},
     rr_response_tx = chan_new 8, rr_result = Inr ()\<rparr>"

lemma relay_reader_delivers_witness:
  "\<exists>s'. task_run (relay_reader_step slice_read_exact log_tap chan_mpsc set_rt ''tap0''
       (\<lambda>_. Inr (AddRoute 5 (V4 1) 8)) (\<lambda>_. Inr [])) [Inr [], Inr []]
       (relay0 (framed [1, 7] @ framed [0])) = Some (Continue s', []) \<and>
     rr_tap s' = [[7]] \<and> length (queue (rr_response_tx s')) = 1"
proof -
  have j: "\<forall>resp :: proxy_response. \<exists>json. (\<lambda>_. Inr []) resp = (Inr json :: string + bytes)" by simp
  show ?thesis
    using relay_reader_delivers [where to_vec = "\<lambda>_. Inr []", OF slice_reads_stream log_tap_delivers chan_mpsc_refines j,
      of "relay0 (framed [1, 7] @ framed [0])" "[[1, 7], [0]]" "[]" "[Inr [], Inr []]" set_rt "''tap0''"
         "\<lambda>_. Inr (AddRoute 5 (V4 1) 8)"]
    by (auto simp: relay0_def chan_new_def decode_message_def MSG_TYPE_CONTROL_def MSG_TYPE_FRAME_def
        list_all2_Cons1)
qed

section \<open>Messages longer than the buffer\<close>

lemma unat_len_bytes:
  "length m < 2 ^ 32 \<Longrightarrow> unat (from_be_bytes (to_be_bytes 4 (of_nat (length m) :: u32)) :: u32) = length m"
  by (simp add: from_to_be_bytes unat_frame_len)

lemma relay_step_skips:
  assumes "reads_stream rd rv" and "rv (rr_reader s) = len @ rest" "length len = 4"
    and "length (rr_msg_buf s) < unat (from_be_bytes len :: u32)"
  shows "\<exists>r. rv r = rest \<and>
    relay_reader_step rd tw K R name from_slice to_vec proc s = Some (Continue (s\<lparr>rr_reader := r\<rparr>))"
proof -
  from assms(1) obtain r1 where "rd (rr_reader s) 4 = (Inr len, r1)" "rv r1 = rest"
    by (cases rule: reads_stream_cases [where r = "rr_reader s" and n = 4]) (use assms(2,3) in auto)
  with assms(4) show ?thesis by (auto simp: relay_reader_step_def Let_def)
qed

text \<open>
  C34: The body of a message that is too long for the proxy's buffer is not skipped but
  taken for messages of its own: for every frame that fits the buffer there is an
  oversized frame, with other content, that makes the proxy write that frame to the TAP
  device.
\<close>

theorem relay_oversized_desync:
  assumes "reads_stream rd rv" and "tap_delivers tw tv"
    and "f \<noteq> []" and "length f < length (rr_msg_buf s)" and "length (rr_msg_buf s) < 2 ^ 24"
    and "rv (rr_reader s) = framed (encode_frame g) @ rest"
    and "g = [0, 0, 0] @ framed (encode_frame f) @ replicate (length (rr_msg_buf s)) 0"
  shows "\<exists>s'. task_run (relay_reader_step rd tw K R name from_slice to_vec) [p1, p2, p3] s = Some (Continue s', []) \<and>
    tv (rr_tap s') = tv (rr_tap s) @ [f] \<and> f \<noteq> g"
proof -
  let ?B = "length (rr_msg_buf s)"
  let ?len = "to_be_bytes 4 (of_nat (length (encode_frame g)) :: u32)"
  have lg: "length (encode_frame g) = 9 + length f + ?B" using assms(7) by (simp add: encode_frame_def)
  then have "length (encode_frame g) < 2 ^ 32" using assms(4,5) by simp
  then have "unat (from_be_bytes ?len :: u32) = length (encode_frame g)"
    by (rule unat_len_bytes)
  then have l1: "?B < unat (from_be_bytes ?len :: u32)" using lg by simp
  have "rv (rr_reader s) = ?len @ (encode_frame g @ rest)" using assms(6) by (simp add: framed_def)
  from relay_step_skips [OF assms(1) this _ l1, of tw K R name from_slice to_vec p1] obtain r1 where
    r1: "rv r1 = encode_frame g @ rest"
    and s1: "relay_reader_step rd tw K R name from_slice to_vec p1 s = Some (Continue (s\<lparr>rr_reader := r1\<rparr>))"
    by auto
  let ?h = "[MSG_TYPE_FRAME, 0, 0, 0]"
  have "unat (from_be_bytes ?h :: u32) = 2 ^ 24"
    using unat_from_be_bytes [of ?h, where 'a = 32] by (simp add: be_val_def MSG_TYPE_FRAME_def)
  with assms(5) have l2: "length (rr_msg_buf (s\<lparr>rr_reader := r1\<rparr>)) < unat (from_be_bytes ?h :: u32)" by simp
  let ?rest2 = "framed (encode_frame f) @ replicate ?B 0 @ rest"
  have "rv (rr_reader (s\<lparr>rr_reader := r1\<rparr>)) = ?h @ ?rest2"
    using r1 assms(7) by (simp add: encode_frame_def)
  from relay_step_skips [OF assms(1) this _ l2, of tw K R name from_slice to_vec p2] obtain r2 where
    r2: "rv r2 = ?rest2"
    and s2: "relay_reader_step rd tw K R name from_slice to_vec p2 (s\<lparr>rr_reader := r1\<rparr>) =
      Some (Continue (s\<lparr>rr_reader := r2\<rparr>))" by auto
  let ?s2 = "s\<lparr>rr_reader := r2\<rparr>"
  have "0 < length (encode_frame f)" "length (encode_frame f) \<le> length (rr_msg_buf ?s2)"
      "length (encode_frame f) < 2 ^ 32" using assms(4,5) by (simp_all add: encode_frame_def)
  with r2 relay_step_framed [OF assms(1), of ?s2 "encode_frame f" "replicate ?B 0 @ rest" tw K R name from_slice to_vec p3]
  obtain r3 buf where s3: "relay_reader_step rd tw K R name from_slice to_vec p3 ?s2 =
      relay_dispatch tw K R p3 name from_slice to_vec (decode_message (encode_frame f))
        (?s2\<lparr>rr_reader := r3, rr_msg_buf := buf\<rparr>)" by auto
  obtain t' where "tw (rr_tap s) f = (Inr (), t')" "tv t' = tv (rr_tap s) @ [f]"
    using assms(2,3) unfolding tap_delivers_def by metis
  moreover have "decode_message (encode_frame f) = Inr (Frame f)"
    by (simp add: decode_message_def encode_frame_def MSG_TYPE_FRAME_def MSG_TYPE_CONTROL_def)
  moreover have "length f \<noteq> length g" using lg by (simp add: encode_frame_def)
  ultimately show ?thesis using s1 s2 s3 by auto
qed

theorem relay_oversized_desync_witness:
  "\<exists>s'. task_run (relay_reader_step slice_read_exact log_tap chan_mpsc set_rt ''tap0''
       (\<lambda>_. Inl []) (\<lambda>_. Inr [])) [Inr [], Inr [], Inr []]
       (relay0 (framed (encode_frame ([0, 0, 0] @ framed (encode_frame [6]) @ replicate 30 0)))) =
       Some (Continue s', []) \<and> rr_tap s' = [[6]]"
  using relay_oversized_desync [OF slice_reads_stream log_tap_delivers, of "[6]"
      "relay0 (framed (encode_frame ([0, 0, 0] @ framed (encode_frame [6]) @ replicate 30 0)))"
      "[0, 0, 0] @ framed (encode_frame [6]) @ replicate 30 0" "[]" chan_mpsc set_rt "''tap0''"
      "\<lambda>_. Inl []" "\<lambda>_. Inr []" "Inr []" "Inr []" "Inr []"]
  by (auto simp: relay0_def)

section \<open>From the TAP device to the socket\<close>

text \<open>
  The TAP device gives a frame per read, cut to the buffer; \<open>tf\<close> are the frames to come.
\<close>

definition tap_frames :: "('t \<Rightarrow> nat \<Rightarrow> bytes io_result \<times> 't) \<Rightarrow> ('t \<Rightarrow> bytes list) \<Rightarrow> bool" where
  "tap_frames tap_read tf \<longleftrightarrow>
     (\<forall>t n f fs. tf t = f # fs \<longrightarrow> (\<exists>t'. tap_read t n = (Inr (take n f), t') \<and> tf t' = fs))"

lemma tap_reader_step_frame:
  assumes "mpsc_refines C cv" and "tap_frames rd tf" and "tf (tr_tap s) = f # fs"
    and "f \<noteq> []" "length f \<le> n" and "has_receiver (cv (tr_frame_tx s))"
  obtains s' kept where "tap_reader_step False rd C n s = Some (Continue s')"
    "tf (tr_tap s') = fs" "subseq kept [f]"
    "cv (tr_frame_tx s') = (cv (tr_frame_tx s))\<lparr>queue := queue (cv (tr_frame_tx s)) @ map encode_frame kept\<rparr>"
    "tr_dropped s' + of_nat (length kept) = tr_dropped s + 1"
    "length (queue (cv (tr_frame_tx s))) < capacity (cv (tr_frame_tx s)) \<Longrightarrow> kept = [f]"
proof -
  obtain t where t: "rd (tr_tap s) n = (Inr f, t)" "tf t = fs"
    using assms(2,3,5) unfolding tap_frames_def by (metis take_all)
  obtain x c where x: "try_send C (tr_frame_tx s) (encode_frame f) = (x, c)" by fastforce
  then have v: "(x, cv c) = chan_try_send (cv (tr_frame_tx s)) (encode_frame f)"
    using mpsc_try_send [OF assms(1), of "tr_frame_tx s" "encode_frame f"] by simp
  show thesis
  proof (cases "length (queue (cv (tr_frame_tx s))) < capacity (cv (tr_frame_tx s))")
    case True
    with v assms(6) have "x = SendOk"
        "cv c = (cv (tr_frame_tx s))\<lparr>queue := queue (cv (tr_frame_tx s)) @ [encode_frame f]\<rparr>"
      by (auto simp: chan_try_send_def split: if_splits)
    with x t assms(4) show thesis
      by (intro that [of "s\<lparr>tr_tap := t, tr_frame_tx := c\<rparr>" "[f]"]) (simp_all add: tap_reader_step_def)
  next
    case False
    with v assms(6) have "x = SendFull" "cv c = cv (tr_frame_tx s)"
      by (auto simp: chan_try_send_def split: if_splits)
    with x t assms(4) False show thesis
      by (intro that [of "s\<lparr>tr_tap := t, tr_frame_tx := c, tr_dropped := tr_dropped s + 1\<rparr>" "[]"])
         (simp_all add: tap_reader_step_def rust_add_def)
  qed
qed

text \<open>
  The TAP reader of the proxy never waits for the socket: it reads every frame that
  fits its buffer, queues them in order with their type byte, and counts each frame that
  finds the channel full as dropped. As long as there is room, no frame is missing.
\<close>

lemma tap_reader_queues_frames:
  assumes "mpsc_refines C cv" and "tap_frames rd tf" and "tf (tr_tap s) = fs @ rest"
    and "\<forall>f \<in> set fs. f \<noteq> [] \<and> length f \<le> n" and "has_receiver (cv (tr_frame_tx s))"
    and "length is = length fs"
  shows "\<exists>s' kept. task_run (\<lambda>_. tap_reader_step False rd C n) is s = Some (Continue s', []) \<and>
    tf (tr_tap s') = rest \<and> subseq kept fs \<and>
    queue (cv (tr_frame_tx s')) = queue (cv (tr_frame_tx s)) @ map encode_frame kept \<and>
    tr_dropped s' + of_nat (length kept) = tr_dropped s + of_nat (length fs) \<and>
    (length (queue (cv (tr_frame_tx s))) + length fs \<le> capacity (cv (tr_frame_tx s)) \<longrightarrow> kept = fs)"
  using assms(3-6)
proof (induction fs arbitrary: s "is")
  case Nil
  then show ?case by (intro exI [of _ s] exI [of _ "[]"]) simp
next
  case (Cons f fs)
  then obtain i is' where i: "is = i # is'" "length is' = length fs" by (cases "is") auto
  obtain s1 k1 where s1: "tap_reader_step False rd C n s = Some (Continue s1)"
    "tf (tr_tap s1) = fs @ rest" "subseq k1 [f]"
    "cv (tr_frame_tx s1) = (cv (tr_frame_tx s))\<lparr>queue := queue (cv (tr_frame_tx s)) @ map encode_frame k1\<rparr>"
    "tr_dropped s1 + of_nat (length k1) = tr_dropped s + 1"
    "length (queue (cv (tr_frame_tx s))) < capacity (cv (tr_frame_tx s)) \<Longrightarrow> k1 = [f]"
    using tap_reader_step_frame [OF assms(1,2), of s f "fs @ rest" n] Cons.prems by auto
  from Cons.IH [of s1 is'] s1 Cons.prems i obtain s' k2 where
    s': "task_run (\<lambda>_. tap_reader_step False rd C n) is' s1 = Some (Continue s', [])"
    "tf (tr_tap s') = rest" "subseq k2 fs"
    "queue (cv (tr_frame_tx s')) = queue (cv (tr_frame_tx s1)) @ map encode_frame k2"
    "tr_dropped s' + of_nat (length k2) = tr_dropped s1 + of_nat (length fs)"
    "length (queue (cv (tr_frame_tx s1))) + length fs \<le> capacity (cv (tr_frame_tx s1)) \<longrightarrow> k2 = fs"
    by auto
  have "subseq (k1 @ k2) (f # fs)" using list_emb_append_mono [OF s1(3) s'(3)] by simp
  moreover have "k1 @ k2 = f # fs"
    if "length (queue (cv (tr_frame_tx s))) + length (f # fs) \<le> capacity (cv (tr_frame_tx s))"
    using s1(4,6) s'(6) that by simp
  moreover have "tr_dropped s' + of_nat (length (k1 @ k2)) = tr_dropped s + of_nat (length (f # fs))"
  proof -
    have "tr_dropped s' + of_nat (length (k1 @ k2)) = (tr_dropped s' + of_nat (length k2)) + of_nat (length k1)"
      by (simp add: algebra_simps)
    also have "\<dots> = (tr_dropped s1 + of_nat (length k1)) + of_nat (length fs)"
      unfolding s'(5) by (simp add: algebra_simps)
    finally show ?thesis unfolding s1(5) by (simp add: algebra_simps)
  qed
  ultimately show ?case using i s1 s' by (intro exI [of _ s'] exI [of _ "k1 @ k2"]) auto
qed

definition list_tap :: "bytes list \<Rightarrow> nat \<Rightarrow> bytes io_result \<times> bytes list" where
  "list_tap t n = (case t of [] \<Rightarrow> (Inr [], []) | f # fs \<Rightarrow> (Inr (take n f), fs))"

lemma list_tap_frames: "tap_frames list_tap id"
  by (simp add: tap_frames_def list_tap_def)

lemma tap_reader_queues_frames_witness:
  "\<exists>s'. task_run (\<lambda>_. tap_reader_step False list_tap chan_mpsc 10) [(), ()]
     \<lparr>tr_tap = [[1], [2, 3]], tr_frame_tx = chan_new 4, tr_dropped = 0, tr_result = Inr ()\<rparr> =
     Some (Continue s', []) \<and> queue (tr_frame_tx s') = map encode_frame [[1], [2, 3]]"
  using tap_reader_queues_frames [OF chan_mpsc_refines list_tap_frames,
      of "\<lparr>tr_tap = [[1], [2, 3]], tr_frame_tx = chan_new 4, tr_dropped = 0, tr_result = Inr ()\<rparr>"
         "[[1], [2, 3]]" "[]" 10 "[(), ()]"]
  by (auto simp: chan_new_def)

lemma write_framed_sync_ok:
  assumes "writes_stream write_all wv" and "write_framed_sync write_all w m = (Inr u, w')"
  shows "wv w' = wv w @ framed m"
  using assms
  by (auto simp: write_framed_sync_def writes_stream_def framed_def Let_def split: prod.splits sum.splits)

lemma drain_channel_effect:
  assumes C: "mpsc_refines C cv" and W: "writes_stream write_all wv"
  shows "\<exists>w' c'. (\<exists>e. drain_channel write_all C w c = Some (Inl e, w', c')) \<or>
    (drain_channel write_all C w c = Some (Inr (), w', c') \<and>
     wv w' = wv w @ wire (queue (cv c)) \<and> cv c' = (cv c)\<lparr>queue := []\<rparr>)"
proof (induction "queue (cv c)" arbitrary: c w)
  case Nil
  from C show ?case
    by (cases rule: try_recv_cases [where c = c]) (use Nil in \<open>simp_all add: drain_channel.simps [of _ _ _ c]\<close>)
next
  case (Cons m ms)
  with C obtain c1 where c1: "try_recv C c = (RecvOk m, c1)" "cv c1 = (cv c)\<lparr>queue := ms\<rparr>"
    by (cases rule: try_recv_cases [where c = c]) auto
  obtain r w1 where w1: "write_framed_sync write_all w m = (r, w1)" by fastforce
  show ?case
  proof (cases r)
    case (Inl e)
    with c1 w1 show ?thesis by (simp add: drain_channel.simps [of _ _ _ c])
  next
    case (Inr u)
    then have "drain_channel write_all C w c = drain_channel write_all C w1 c1"
      using c1 w1 by (simp add: drain_channel.simps [of _ _ _ c])
    moreover have "wv w1 = wv w @ framed m" using write_framed_sync_ok [OF W] w1 Inr by simp
    ultimately show ?thesis using Cons.hyps(1) [of c1 w1] Cons.hyps(2) [symmetric] c1(2) by simp
  qed
qed

fun relay_batch :: "relay_wake \<Rightarrow> bytes list \<Rightarrow> bytes list \<Rightarrow> bytes list" where
  "relay_batch WakeTap [] rs = []"
| "relay_batch WakeTap fs rs = fs @ rs"
| "relay_batch WakeResponse fs [] = []"
| "relay_batch WakeResponse fs (r # rs) = r # fs @ rs"

lemma relay_select_effect:
  assumes C: "mpsc_refines C cv" and K: "mpsc_refines K kv" and W: "writes_stream write_all wv"
    and sel: "relay_select write_all flush C K i s = RSelected s1"
  shows "\<exists>sent. sent \<noteq> [] \<and> wv (rw_writer s1) = wv (rw_writer s) @ wire sent \<and>
    relay_batch i (queue (cv (rw_frame_rx s))) (queue (kv (rw_response_rx s))) =
      sent @ queue (cv (rw_frame_rx s1)) @ queue (kv (rw_response_rx s1)) \<and>
    has_receiver (cv (rw_frame_rx s1)) = has_receiver (cv (rw_frame_rx s)) \<and>
    has_receiver (kv (rw_response_rx s1)) = has_receiver (kv (rw_response_rx s))"
proof (cases i)
  case WakeTap
  from C show ?thesis
  proof (cases rule: try_recv_cases [where c = "rw_frame_rx s"])
    case (ok m c ms)
    obtain r w where w: "write_framed_sync write_all (rw_writer s) m = (r, w)" by fastforce
    with sel WakeTap ok have "r = Inr ()" "s1 = s\<lparr>rw_frame_rx := c, rw_writer := w\<rparr>"
      by (auto split: sum.splits)
    with write_framed_sync_ok [OF W] w ok WakeTap show ?thesis by (intro exI [of _ "[m]"]) auto
  qed (use sel WakeTap in \<open>auto split: prod.splits\<close>)
next
  case WakeResponse
  from K show ?thesis
  proof (cases rule: try_recv_cases [where c = "rw_response_rx s"])
    case (ok m k ms)
    obtain r w where w: "write_framed_sync write_all (rw_writer s) m = (r, w)" by fastforce
    with sel WakeResponse ok have "r = Inr ()" "s1 = s\<lparr>rw_response_rx := k, rw_writer := w\<rparr>"
      by (auto split: sum.splits)
    with write_framed_sync_ok [OF W] w ok WakeResponse show ?thesis by (intro exI [of _ "[m]"]) auto
  qed (use sel WakeResponse in auto)
qed

lemma relay_select_waits:
  assumes C: "mpsc_refines C cv" and K: "mpsc_refines K kv"
    and sel: "relay_select write_all flush C K i s = RWaiting s1"
  shows "rw_writer s1 = rw_writer s \<and> cv (rw_frame_rx s1) = cv (rw_frame_rx s) \<and>
    kv (rw_response_rx s1) = kv (rw_response_rx s) \<and> relay_batch i (queue (cv (rw_frame_rx s))) (queue (kv (rw_response_rx s))) = []"
proof (cases i)
  case WakeTap
  from C show ?thesis
    by (cases rule: try_recv_cases [where c = "rw_frame_rx s"])
       (use sel WakeTap in \<open>auto split: prod.splits sum.splits\<close>)
next
  case WakeResponse
  from K show ?thesis
    by (cases rule: try_recv_cases [where c = "rw_response_rx s"])
       (use sel WakeResponse in \<open>auto split: prod.splits sum.splits\<close>)
qed

text \<open>
  Every iteration of the proxy's socket writer returns. Unless it ends the task, it has
  written exactly the queued frames and answers, each with its length prefix: the one that
  woke it, all queued frames, then all queued answers, each queue in order.
\<close>

lemma relay_writer_batch:
  assumes "mpsc_refines C cv" and "mpsc_refines K kv"
    and "writes_stream write_all wv" and "flushes_stream flush wv"
  shows "\<exists>r. relay_writer_step write_all flush C K i s = Some r \<and>
    (\<forall>s'. r = Continue s' \<longrightarrow>
       (let ms = relay_batch i (queue (cv (rw_frame_rx s))) (queue (kv (rw_response_rx s)))
        in wv (rw_writer s') = wv (rw_writer s) @ concat (map framed ms) \<and>
           (ms = [] \<and> cv (rw_frame_rx s') = cv (rw_frame_rx s) \<and> kv (rw_response_rx s') = kv (rw_response_rx s) \<or>
            ms \<noteq> [] \<and> queue (cv (rw_frame_rx s')) = [] \<and> queue (kv (rw_response_rx s')) = [] \<and>
            has_receiver (cv (rw_frame_rx s')) = has_receiver (cv (rw_frame_rx s)) \<and>
            has_receiver (kv (rw_response_rx s')) = has_receiver (kv (rw_response_rx s)))))"
proof (cases "relay_select write_all flush C K i s")
  case (RReturn s1)
  then show ?thesis by (simp add: relay_writer_step_def)
next
  case (RWaiting s1)
  with relay_select_waits [OF assms(1,2) RWaiting] show ?thesis by (simp add: relay_writer_step_def)
next
  case (RSelected s1)
  from relay_select_effect [OF assms(1-3) RSelected] obtain sent where
    sent: "sent \<noteq> []" "wv (rw_writer s1) = wv (rw_writer s) @ wire sent"
      "relay_batch i (queue (cv (rw_frame_rx s))) (queue (kv (rw_response_rx s))) =
        sent @ queue (cv (rw_frame_rx s1)) @ queue (kv (rw_response_rx s1))"
      "has_receiver (cv (rw_frame_rx s1)) = has_receiver (cv (rw_frame_rx s))"
      "has_receiver (kv (rw_response_rx s1)) = has_receiver (kv (rw_response_rx s))" by blast
  from drain_channel_effect [OF assms(1,3), of "rw_writer s1" "rw_frame_rx s1"] obtain w2 c2 where
    d2: "(\<exists>e. drain_channel write_all C (rw_writer s1) (rw_frame_rx s1) = Some (Inl e, w2, c2)) \<or>
      (drain_channel write_all C (rw_writer s1) (rw_frame_rx s1) = Some (Inr (), w2, c2) \<and>
       wv w2 = wv (rw_writer s1) @ wire (queue (cv (rw_frame_rx s1))) \<and> cv c2 = (cv (rw_frame_rx s1))\<lparr>queue := []\<rparr>)" by blast
  from drain_channel_effect [OF assms(2,3), of w2 "rw_response_rx s1"] obtain w3 k3 where
    d3: "(\<exists>e. drain_channel write_all K w2 (rw_response_rx s1) = Some (Inl e, w3, k3)) \<or>
      (drain_channel write_all K w2 (rw_response_rx s1) = Some (Inr (), w3, k3) \<and>
       wv w3 = wv w2 @ wire (queue (kv (rw_response_rx s1))) \<and> kv k3 = (kv (rw_response_rx s1))\<lparr>queue := []\<rparr>)" by blast
  obtain x w4 where f: "flush w3 = (x, w4)" by fastforce
  with assms(4) have "wv w4 = wv w3" unfolding flushes_stream_def by (metis snd_conv)
  with RSelected sent d2 d3 f show ?thesis
    by (elim disjE exE conjE; cases x) (simp_all add: relay_writer_step_def Let_def)
qed

end
