(* ===== verification/Link.thy ===== *)
theory Link
  imports Prelude "HOL-Library.Sublist"
begin

text \<open>
  What a direction of the tunnel promises: frames go in at one end and come out at the other
  in order, each at most once; some may be lost on the way if the direction is lossy. The
  locale states what a system has to do in each of its steps to keep that promise.
\<close>

section \<open>The specification\<close>

record 'a fifo =
  delivered :: "'a list"
  in_flight :: "'a list"
  lost :: nat

definition fifo_empty :: "'a fifo" where
  "fifo_empty = \<lparr>delivered = [], in_flight = [], lost = 0\<rparr>"

text \<open>A step is labelled with the frames it accepts.\<close>

inductive fifo_step :: "bool \<Rightarrow> 'a fifo \<Rightarrow> 'a list \<Rightarrow> 'a fifo \<Rightarrow> bool" for lossy where
  accept: "fifo_step lossy s fs (s\<lparr>in_flight := in_flight s @ fs\<rparr>)"
| deliver: "in_flight s = f # q \<Longrightarrow> fifo_step lossy s [] (s\<lparr>delivered := delivered s @ [f], in_flight := q\<rparr>)"
| lose: "lossy \<Longrightarrow> in_flight s = q1 @ f # q2 \<Longrightarrow>
    fifo_step lossy s [] (s\<lparr>in_flight := q1 @ q2, lost := lost s + 1\<rparr>)"

text \<open>Runs, of the specification and of systems; the label is all that was accepted.\<close>

inductive link_run :: "('s \<Rightarrow> 'a list \<Rightarrow> 's \<Rightarrow> bool) \<Rightarrow> 's \<Rightarrow> 'a list \<Rightarrow> 's \<Rightarrow> bool" for step where
  refl: "link_run step s [] s"
| step: "link_run step s fs s' \<Longrightarrow> step s' gs s'' \<Longrightarrow> link_run step s (fs @ gs) s''"

lemma link_run_single: "step s fs s' \<Longrightarrow> link_run step s fs s'"
  using link_run.step [OF link_run.refl] by fastforce

lemma link_run_trans:
  assumes "link_run step s' gs s''" and "link_run step s fs s'"
  shows "link_run step s (fs @ gs) s''"
  using assms by (induction rule: link_run.induct) (auto intro: link_run.step simp flip: append_assoc)

lemma fifo_run_accept: "link_run (fifo_step lossy) a fs (a\<lparr>in_flight := in_flight a @ fs\<rparr>)"
  by (rule link_run_single [where step = "fifo_step lossy"]) (rule fifo_step.accept)

lemma fifo_run_deliver:
  "in_flight a = f # q \<Longrightarrow> link_run (fifo_step lossy) a [] (a\<lparr>delivered := delivered a @ [f], in_flight := q\<rparr>)"
  by (rule link_run_single [where step = "fifo_step lossy"]) (rule fifo_step.deliver)

lemma fifo_run_lose:
  "in_flight a = q1 @ f # q2 \<Longrightarrow> link_run (fifo_step True) a [] (a\<lparr>in_flight := q1 @ q2, lost := lost a + 1\<rparr>)"
  by (rule link_run_single [where step = "fifo_step True"]) (rule fifo_step.lose [OF TrueI])

text \<open>A frame that is refused at once.\<close>

lemma fifo_run_refuse: "link_run (fifo_step True) a [f] (a\<lparr>lost := lost a + 1\<rparr>)"
  using link_run_trans [where step = "fifo_step True", OF
      fifo_run_lose [of "a\<lparr>in_flight := in_flight a @ [f]\<rparr>" "in_flight a" f "[]"] fifo_run_accept [of True a "[f]"]]
  by simp

section \<open>What the specification implies\<close>

lemma fifo_step_lossless:
  "fifo_step False s fs s' \<Longrightarrow> delivered s' @ in_flight s' = delivered s @ in_flight s @ fs"
  by (erule fifo_step.cases) simp_all

lemma fifo_run_lossless:
  assumes "link_run (fifo_step False) s fs s'"
  shows "delivered s' @ in_flight s' = delivered s @ in_flight s @ fs"
  using assms by (induction rule: link_run.induct) (auto dest: fifo_step_lossless)

lemma fifo_step_subseq:
  assumes "fifo_step lossy s fs s'"
  shows "subseq (delivered s' @ in_flight s') (delivered s @ in_flight s @ fs) \<and>
    length (delivered s' @ in_flight s') + lost s' = length (delivered s @ in_flight s @ fs) + lost s"
  using assms
proof cases
  case (lose q1 f q2)
  have "subseq (q1 @ q2) (q1 @ f # q2)" by (simp add: subseq_append' list_emb_Cons)
  with lose show ?thesis by (simp add: list_emb_append_mono)
qed simp_all

lemma fifo_run_subseq:
  assumes "link_run (fifo_step lossy) s fs s'"
  shows "subseq (delivered s' @ in_flight s') (delivered s @ in_flight s @ fs) \<and>
    length (delivered s' @ in_flight s') + lost s' = length (delivered s @ in_flight s @ fs) + lost s"
  using assms
proof (induction rule: link_run.induct)
  case (refl s)
  then show ?case by simp
next
  case (step s fs s' gs s'')
  from fifo_step_subseq [OF step(2)] have s: "subseq (delivered s'' @ in_flight s'') ((delivered s' @ in_flight s') @ gs)"
    "length (delivered s'' @ in_flight s'') + lost s'' = length ((delivered s' @ in_flight s') @ gs) + lost s'" by simp_all
  from step(3) have "subseq ((delivered s' @ in_flight s') @ gs) ((delivered s @ in_flight s @ fs) @ gs)"
    by (meson list_emb_append_mono subseq_order.order_refl)
  with s step(3) show ?case by (auto dest: subseq_order.order_trans)
qed

section \<open>Systems that keep the promise\<close>

locale link_refinement =
  fixes step :: "'s \<Rightarrow> 'a list \<Rightarrow> 's \<Rightarrow> bool"
    and rel :: "'a fifo \<Rightarrow> 's \<Rightarrow> bool"
    and lossy :: bool
  assumes simulates: "rel a s \<Longrightarrow> step s fs s' \<Longrightarrow> \<exists>a'. link_run (fifo_step lossy) a fs a' \<and> rel a' s'"
begin

lemma run_refines:
  assumes "link_run step s fs s'" and "rel a s"
  shows "\<exists>a'. link_run (fifo_step lossy) a fs a' \<and> rel a' s'"
  using assms
proof (induction rule: link_run.induct)
  case (refl s)
  then show ?case by (blast intro: link_run.refl)
next
  case (step s fs s' gs s'')
  then obtain a1 where a1: "link_run (fifo_step lossy) a fs a1" "rel a1 s'" by blast
  from simulates [OF a1(2) step(2)] obtain a2 where "link_run (fifo_step lossy) a1 gs a2" "rel a2 s''" by blast
  with link_run_trans [OF _ a1(1)] show ?case by blast
qed

end

end
