(* ===== verification/Downlink.thy ===== *)
theory Downlink
  imports Tunnel Relay_Facts Link
begin

text \<open>
  The way of a frame from the smoltcp device to the TAP device: the device's transmit token,
  the IPC writer of the library, the socket, and the reader task of the proxy, in any
  interleaving and among control messages. The system implements a queue that loses nothing
  it accepted; only the device refuses frames, and counts them.
\<close>

section \<open>The system\<close>

text \<open>
  The libraries: the channels of frames, of control messages and of the proxy's answers, the
  two ends of the socket, the TAP device, and what the proxy's commands use. \<open>de_arrive\<close> adds
  bytes the library wrote to what the proxy's end of the socket has to read. \<open>de_size\<close> is
  the largest frame, which both sides compute from the MTU.
\<close>

record ('w, 'c, 'k, 'r, 't, 'h, 'p, 'm) down_env =
  de_write_all :: "'w \<Rightarrow> bytes \<Rightarrow> unit io_result \<times> 'w"
  de_flush :: "'w \<Rightarrow> unit io_result \<times> 'w"
  de_frames :: "('c, bytes) mpsc"
  de_control :: "('k, bytes) mpsc"
  de_read_exact :: "'r \<Rightarrow> nat \<Rightarrow> bytes io_result \<times> 'r"
  de_arrive :: "'r \<Rightarrow> bytes \<Rightarrow> 'r"
  de_tap :: "'t \<Rightarrow> bytes \<Rightarrow> unit io_result \<times> 't"
  de_answers :: "('p, bytes) mpsc"
  de_rt :: "('h, 'm) rt_api"
  de_from_slice :: "bytes \<Rightarrow> string + proxy_command"
  de_to_vec :: "proxy_response \<Rightarrow> string + bytes"
  de_size :: nat

text \<open>The state: the writer, whose end of the frame channel is the device's, and the proxy's reader.\<close>

record ('w, 'c, 'k, 'r, 't, 'h, 'p) downlink =
  dl_writer :: "('w, 'c, 'k) ipc_writer"
  dl_relay :: "('r, 't, 'h, 'p) relay_reader"
  dl_stats :: tunnel_stats

text \<open>Views of the libraries' states.\<close>

record ('w, 'c, 'k, 'r, 't, 'p) down_views =
  dv_written :: "'w \<Rightarrow> bytes"
  dv_frames :: "'c \<Rightarrow> bytes chan"
  dv_control :: "'k \<Rightarrow> bytes chan"
  dv_unread :: "'r \<Rightarrow> bytes"
  dv_tap :: "'t \<Rightarrow> bytes list"
  dv_answers :: "'p \<Rightarrow> bytes chan"

definition down_libs ::
    "('w, 'c, 'k, 'r, 't, 'h, 'p, 'm) down_env \<Rightarrow> ('w, 'c, 'k, 'r, 't, 'p) down_views \<Rightarrow> bool" where
  "down_libs D V \<longleftrightarrow>
     writes_stream (de_write_all D) (dv_written V) \<and> flushes_stream (de_flush D) (dv_written V) \<and>
     mpsc_refines (de_frames D) (dv_frames V) \<and> mpsc_refines (de_control D) (dv_control V) \<and>
     reads_stream (de_read_exact D) (dv_unread V) \<and>
     (\<forall>r bs. dv_unread V (de_arrive D r bs) = dv_unread V r @ bs) \<and>
     tap_delivers (de_tap D) (dv_tap V) \<and> mpsc_refines (de_answers D) (dv_answers V) \<and>
     (\<forall>resp. \<exists>json. de_to_vec D resp = Inr json) \<and> de_size D + 16 < 2 ^ 32"

text \<open>
  The steps, labelled with the frames they accept: smoltcp transmits a frame of at most the
  device's size, which is accepted if it is counted as sent; a caller queues a control
  message that fits the proxy's buffer; the writer goes through an iteration without losing
  the connection; the proxy reads a message.
\<close>

inductive down_step ::
    "('w, 'c, 'k, 'r, 't, 'h, 'p, 'm) down_env \<Rightarrow> ('w, 'c, 'k, 'r, 't, 'p) down_views \<Rightarrow>
     ('w, 'c, 'k, 'r, 't, 'h, 'p) downlink \<Rightarrow> bytes list \<Rightarrow> ('w, 'c, 'k, 'r, 't, 'h, 'p) downlink \<Rightarrow> bool"
  for D V where
  transmit: "tx_consume (de_frames D) (length f) (\<lambda>buffer. ((), f))
      (proxy_device_new rx (iw_frame_rx (dl_writer s)) (de_size D)) (dl_stats s) = (u, d, st) \<Longrightarrow>
    f \<noteq> [] \<Longrightarrow> length f \<le> cap_max_transmission_unit (capabilities d) \<Longrightarrow>
    down_step D V s (if device_tx_frames st = device_tx_frames (dl_stats s) then [] else [f])
      (s\<lparr>dl_writer := (dl_writer s)\<lparr>iw_frame_rx := pd_tx d\<rparr>, dl_stats := st\<rparr>)"
| command: "encode_control to_vec (cmd :: proxy_command) = Inr m \<Longrightarrow>
    poll_send (de_control D) (iw_control_rx (dl_writer s)) m = (Ready True, k) \<Longrightarrow> length m \<le> de_size D + 16 \<Longrightarrow>
    down_step D V s [] (s\<lparr>dl_writer := (dl_writer s)\<lparr>iw_control_rx := k\<rparr>\<rparr>)"
| written: "ipc_writer_iteration (de_write_all D) (de_flush D) (de_frames D) (de_control D) i (dl_writer s) =
      Some (Continue w) \<Longrightarrow> \<not> iw_ipc_dead w \<Longrightarrow>
    dv_written V (iw_writer w) = dv_written V (iw_writer (dl_writer s)) @ bs \<Longrightarrow>
    down_step D V s [] (s\<lparr>dl_writer := w,
      dl_relay := (dl_relay s)\<lparr>rr_reader := de_arrive D (rr_reader (dl_relay s)) bs\<rparr>\<rparr>)"
| relay: "relay_reader_step (de_read_exact D) (de_tap D) (de_answers D) (de_rt D) name (de_from_slice D)
      (de_to_vec D) proc (dl_relay s) = Some (Continue rr) \<Longrightarrow> dv_unread V (rr_reader (dl_relay s)) \<noteq> [] \<Longrightarrow>
    down_step D V s [] (s\<lparr>dl_relay := rr\<rparr>)"

section \<open>The simulation\<close>

text \<open>The messages on the socket, each of a length the proxy accepts.\<close>

definition msg_fits :: "nat \<Rightarrow> bytes \<Rightarrow> bool" where
  "msg_fits n m \<longleftrightarrow> 0 < length m \<and> length m \<le> n + 16"

definition down_ok ::
    "('w, 'c, 'k, 'r, 't, 'h, 'p, 'm) down_env \<Rightarrow> ('w, 'c, 'k, 'r, 't, 'p) down_views \<Rightarrow>
     ('w, 'c, 'k, 'r, 't, 'h, 'p) downlink \<Rightarrow> bool" where
  "down_ok D V s \<longleftrightarrow>
     (\<forall>f \<in> set (queue (dv_frames V (iw_frame_rx (dl_writer s)))). f \<noteq> [] \<and> length f \<le> de_size D) \<and>
     (\<forall>m \<in> set (queue (dv_control V (iw_control_rx (dl_writer s)))). msg_fits (de_size D) m \<and> frames_of [m] = []) \<and>
     length (rr_msg_buf (dl_relay s)) = de_size D + 16 \<and> has_receiver (dv_answers V (rr_response_tx (dl_relay s)))"

definition down_rel ::
    "('w, 'c, 'k, 'r, 't, 'h, 'p, 'm) down_env \<Rightarrow> ('w, 'c, 'k, 'r, 't, 'p) down_views \<Rightarrow>
     bytes fifo \<Rightarrow> ('w, 'c, 'k, 'r, 't, 'h, 'p) downlink \<Rightarrow> bool" where
  "down_rel D V a s \<longleftrightarrow> down_ok D V s \<and>
     (\<exists>ms. dv_unread V (rr_reader (dl_relay s)) = wire ms \<and>
       (\<forall>m \<in> set ms. msg_fits (de_size D) m \<and> [] \<notin> set (frames_of [m])) \<and>
       delivered a = dv_tap V (rr_tap (dl_relay s)) \<and>
       in_flight a = frames_of ms @ queue (dv_frames V (iw_frame_rx (dl_writer s))))"

lemma framed_not_Nil: "framed m \<noteq> []"
  using arg_cong [of "framed m" "[]" length] by (auto simp: framed_def)

lemma frames_of_append: "frames_of (ms @ ns) = frames_of ms @ frames_of ns"
  by (induction ms) (auto split: sum.splits message.splits)

lemma frames_of_encoded: "frames_of (map encode_frame fs) = fs"
  by (induction fs) (simp_all add: encode_frame_def decode_message_def MSG_TYPE_FRAME_def MSG_TYPE_CONTROL_def)

lemma frames_of_controls:
  assumes "\<forall>m \<in> set ms. frames_of [m] = []"
  shows "frames_of ms = []"
  using assms
proof (induction ms)
  case (Cons m ms)
  then show ?case using frames_of_append [of "[m]" ms] by (simp del: frames_of.simps(2))
qed simp

lemma frames_of_batch:
  assumes "\<forall>m \<in> set cs. frames_of [m] = []" and "batch i fs cs \<noteq> []"
  shows "frames_of (batch i fs cs) = fs"
proof (cases i)
  case WakeFrame
  with assms(2) have "batch i fs cs = map encode_frame fs @ cs" by (cases fs) simp_all
  with assms(1) show ?thesis by (simp add: frames_of_append frames_of_encoded frames_of_controls)
next
  case WakeControl
  with assms(2) obtain c cs' where c: "cs = c # cs'" "batch i fs cs = [c] @ map encode_frame fs @ cs'"
    by (cases cs) simp_all
  with assms(1) have "frames_of [c] = []" "frames_of cs' = []" by (auto intro: frames_of_controls)
  with c show ?thesis by (simp only: frames_of_append frames_of_encoded append_Nil append_Nil2)
qed

lemma batch_subset: "set (batch i fs cs) \<subseteq> encode_frame ` set fs \<union> set cs"
  by (cases i; cases fs; cases cs) auto

lemma fits_frame: "length f \<le> n \<Longrightarrow> msg_fits n (encode_frame f)"
  by (simp add: msg_fits_def encode_frame_def)

lemma down_libsD:
  assumes "down_libs D V"
  shows "writes_stream (de_write_all D) (dv_written V)" "flushes_stream (de_flush D) (dv_written V)"
    "mpsc_refines (de_frames D) (dv_frames V)" "mpsc_refines (de_control D) (dv_control V)"
    "reads_stream (de_read_exact D) (dv_unread V)"
    "dv_unread V (de_arrive D r bs) = dv_unread V r @ bs"
    "tap_delivers (de_tap D) (dv_tap V)" "mpsc_refines (de_answers D) (dv_answers V)"
    "\<forall>resp. \<exists>json. de_to_vec D resp = Inr json" "de_size D + 16 < 2 ^ 32"
  using assms by (simp_all add: down_libs_def)

lemma transmit_effect:
  assumes "mpsc_refines C cv"
    and "tx_consume C (length f) (\<lambda>buffer. ((), f)) (proxy_device_new rx c n) st = (u, d, st')"
  shows "capabilities d = capabilities (proxy_device_new rx c n) \<and>
    (device_tx_frames st' = device_tx_frames st \<and> cv (pd_tx d) = cv c \<or>
     device_tx_frames st' = device_tx_frames st + 1 \<and> cv (pd_tx d) = (cv c)\<lparr>queue := queue (cv c) @ [f]\<rparr>)"
proof -
  obtain x c' where x: "try_send C c f = (x, c')" by fastforce
  then have "(x, cv c') = chan_try_send (cv c) f" using mpsc_try_send [OF assms(1), of c f] by simp
  with x assms(2) show ?thesis
    by (auto simp: tx_consume_def proxy_device_new_def capabilities_def chan_try_send_def
        split: if_splits try_send_result.splits)
qed

text \<open>Transmitting.\<close>

lemma down_transmit:
  assumes L: "down_libs D V" and r: "down_rel D V a s"
    and t: "tx_consume (de_frames D) (length f) (\<lambda>buffer. ((), f))
      (proxy_device_new rx (iw_frame_rx (dl_writer s)) (de_size D)) (dl_stats s) = (u, d, st)"
    and f: "f \<noteq> []" "length f \<le> cap_max_transmission_unit (capabilities d)"
  shows "down_rel D V
    (a\<lparr>in_flight := in_flight a @ (if device_tx_frames st = device_tx_frames (dl_stats s) then [] else [f])\<rparr>)
    (s\<lparr>dl_writer := (dl_writer s)\<lparr>iw_frame_rx := pd_tx d\<rparr>, dl_stats := st\<rparr>)"
proof -
  from transmit_effect [OF down_libsD(3) [OF L] t] f(2) have "length f \<le> de_size D"
    "device_tx_frames st = device_tx_frames (dl_stats s) \<and>
       dv_frames V (pd_tx d) = dv_frames V (iw_frame_rx (dl_writer s)) \<or>
     device_tx_frames st \<noteq> device_tx_frames (dl_stats s) \<and>
       dv_frames V (pd_tx d) = (dv_frames V (iw_frame_rx (dl_writer s)))\<lparr>queue :=
         queue (dv_frames V (iw_frame_rx (dl_writer s))) @ [f]\<rparr>"
    by (auto simp: capabilities_def proxy_device_new_def)
  with r f(1) show ?thesis
    unfolding down_rel_def down_ok_def by (elim disjE conjE exE) (simp_all, blast+)
qed

lemma control_frames: "encode_control to_vec cmd = Inr m \<Longrightarrow> frames_of [m] = [] \<and> 0 < length m"
  by (cases "to_vec cmd")
     (auto simp: encode_control_def decode_message_def)

lemma down_command:
  assumes L: "down_libs D V" and r: "down_rel D V a s"
    and m: "encode_control to_vec cmd = Inr m" "length m \<le> de_size D + 16"
    and k: "poll_send (de_control D) (iw_control_rx (dl_writer s)) m = (Ready True, k)"
  shows "down_rel D V a (s\<lparr>dl_writer := (dl_writer s)\<lparr>iw_control_rx := k\<rparr>\<rparr>)"
proof -
  have "dv_control V k = (dv_control V (iw_control_rx (dl_writer s)))\<lparr>queue :=
      queue (dv_control V (iw_control_rx (dl_writer s))) @ [m]\<rparr>"
    using k poll_send_cases [OF down_libsD(4) [OF L], of "iw_control_rx (dl_writer s)" m] by auto
  with r control_frames [OF m(1)] m(2) show ?thesis
    unfolding down_rel_def down_ok_def by (auto simp: msg_fits_def simp del: frames_of.simps(2))
qed

text \<open>An iteration of the writer.\<close>

lemma down_written:
  assumes L: "down_libs D V" and r: "down_rel D V a s"
    and w: "ipc_writer_iteration (de_write_all D) (de_flush D) (de_frames D) (de_control D) i (dl_writer s) =
      Some (Continue w)" "\<not> iw_ipc_dead w"
    and bs: "dv_written V (iw_writer w) = dv_written V (iw_writer (dl_writer s)) @ bs"
  shows "down_rel D V a (s\<lparr>dl_writer := w,
      dl_relay := (dl_relay s)\<lparr>rr_reader := de_arrive D (rr_reader (dl_relay s)) bs\<rparr>\<rparr>)"
proof -
  let ?fs = "queue (dv_frames V (iw_frame_rx (dl_writer s)))"
  let ?cs = "queue (dv_control V (iw_control_rx (dl_writer s)))"
  let ?ns = "batch i ?fs ?cs"
  from ipc_writer_batch [OF down_libsD(3,4,1,2) [OF L], of i "dl_writer s"] w
  have "dv_written V (iw_writer w) = dv_written V (iw_writer (dl_writer s)) @ wire ?ns"
    and q: "?ns = [] \<and> dv_frames V (iw_frame_rx w) = dv_frames V (iw_frame_rx (dl_writer s)) \<and>
        dv_control V (iw_control_rx w) = dv_control V (iw_control_rx (dl_writer s)) \<or>
      ?ns \<noteq> [] \<and> queue (dv_frames V (iw_frame_rx w)) = [] \<and> queue (dv_control V (iw_control_rx w)) = []"
    by (auto simp: Let_def)
  with bs have bs': "bs = wire ?ns" by simp
  from r obtain ms where ms: "dv_unread V (rr_reader (dl_relay s)) = wire ms"
    "\<forall>m \<in> set ms. msg_fits (de_size D) m \<and> [] \<notin> set (frames_of [m])"
    "delivered a = dv_tap V (rr_tap (dl_relay s))" "in_flight a = frames_of ms @ ?fs"
    and ok: "down_ok D V s" unfolding down_rel_def by blast
  let ?s = "s\<lparr>dl_writer := w, dl_relay := (dl_relay s)\<lparr>rr_reader := de_arrive D (rr_reader (dl_relay s)) bs\<rparr>\<rparr>"
  have unread: "dv_unread V (rr_reader (dl_relay ?s)) = wire (ms @ ?ns)"
    using ms(1) bs' down_libsD(6) [OF L] by simp
  have cs: "\<forall>m \<in> set ?cs. msg_fits (de_size D) m \<and> frames_of [m] = []"
    and fs: "\<forall>f \<in> set ?fs. f \<noteq> [] \<and> length f \<le> de_size D" using ok by (simp_all add: down_ok_def)
  have ns: "msg_fits (de_size D) m \<and> [] \<notin> set (frames_of [m])" if "m \<in> set ?ns" for m
  proof -
    from that batch_subset [of i ?fs ?cs] consider f where "f \<in> set ?fs" "m = encode_frame f" | "m \<in> set ?cs" by blast
    then show ?thesis
    proof cases
      case 1
      with fs frames_of_encoded [of "[f]"] show ?thesis by (auto simp: fits_frame simp del: frames_of.simps(2))
    qed (use cs in auto)
  qed
  have "frames_of (ms @ ?ns) @ queue (dv_frames V (iw_frame_rx w)) = frames_of ms @ ?fs"
    using q frames_of_batch [of ?cs i ?fs] cs by (auto simp: frames_of_append)
  moreover have "down_ok D V ?s" using ok q by (auto simp: down_ok_def)
  ultimately show ?thesis
    unfolding down_rel_def using ms unread ns
    by (intro conjI exI [of _ "ms @ ?ns"]) (auto simp del: frames_of.simps(2))
qed

text \<open>A message at the proxy: one frame reaches the TAP device, or none.\<close>

lemma frames_of_single: "frames_of [m] = [] \<or> (\<exists>f. frames_of [m] = [f])"
  by (auto split: sum.splits message.splits)

lemma down_relay:
  assumes L: "down_libs D V" and r: "down_rel D V a s"
    and st: "relay_reader_step (de_read_exact D) (de_tap D) (de_answers D) (de_rt D) name (de_from_slice D)
      (de_to_vec D) proc (dl_relay s) = Some (Continue rr)"
    and unread: "dv_unread V (rr_reader (dl_relay s)) \<noteq> []"
  shows "\<exists>a'. fifo_step False a [] a' \<and> down_rel D V a' (s\<lparr>dl_relay := rr\<rparr>)"
proof -
  let ?rr = "dl_relay s" and ?fs = "queue (dv_frames V (iw_frame_rx (dl_writer s)))"
  from r obtain ms0 where ms0: "dv_unread V (rr_reader ?rr) = wire ms0"
    "\<forall>n \<in> set ms0. msg_fits (de_size D) n \<and> [] \<notin> set (frames_of [n])"
    "delivered a = dv_tap V (rr_tap ?rr)" "in_flight a = frames_of ms0 @ ?fs"
    and ok: "down_ok D V s" unfolding down_rel_def by blast
  from unread ms0(1) obtain m ms where m0: "ms0 = m # ms" by (cases ms0) auto
  have ms: "dv_unread V (rr_reader ?rr) = framed m @ wire ms"
    "\<forall>n \<in> set (m # ms). msg_fits (de_size D) n \<and> [] \<notin> set (frames_of [n])"
    "delivered a = dv_tap V (rr_tap ?rr)" "in_flight a = frames_of (m # ms) @ ?fs"
    using ms0 unfolding m0 by (simp_all del: frames_of.simps(2))
  have m: "0 < length m" "length m \<le> length (rr_msg_buf ?rr)" "length m < 2 ^ 32"
    using ms(2) ok down_libsD(10) [OF L] by (auto simp: msg_fits_def down_ok_def)
  from relay_step_framed [OF down_libsD(5) [OF L] ms(1) m, of "de_tap D" "de_answers D" "de_rt D" name
      "de_from_slice D" "de_to_vec D" proc] obtain r1 buf where
    r1: "dv_unread V r1 = wire ms" "length buf = length (rr_msg_buf ?rr)"
    and d0: "relay_reader_step (de_read_exact D) (de_tap D) (de_answers D) (de_rt D) name (de_from_slice D)
        (de_to_vec D) proc ?rr = relay_dispatch (de_tap D) (de_answers D) (de_rt D) proc name (de_from_slice D)
        (de_to_vec D) (decode_message m) (?rr\<lparr>rr_reader := r1, rr_msg_buf := buf\<rparr>)" by blast
  have d: "relay_dispatch (de_tap D) (de_answers D) (de_rt D) proc name (de_from_slice D) (de_to_vec D)
      (decode_message m) (?rr\<lparr>rr_reader := r1, rr_msg_buf := buf\<rparr>) = Some (Continue rr)"
    using st d0 by simp
  have "has_receiver (dv_answers V (rr_response_tx (?rr\<lparr>rr_reader := r1, rr_msg_buf := buf\<rparr>)))"
    using ok by (simp add: down_ok_def)
  from relay_dispatch_effect [OF down_libsD(8) [OF L] this down_libsD(7,9) [OF L], of "de_rt D" proc name "de_from_slice D" m]
  obtain rs rr' where "rr' = rr" and rr: "rr_reader rr' = r1" "rr_msg_buf rr' = buf"
    "dv_tap V (rr_tap rr') = dv_tap V (rr_tap ?rr) @ filter (\<lambda>f. f \<noteq> []) (frames_of [m])"
    "dv_answers V (rr_response_tx rr') = (dv_answers V (rr_response_tx ?rr))\<lparr>queue :=
       queue (dv_answers V (rr_response_tx ?rr)) @ rs\<rparr>"
    using d by (simp del: frames_of.simps) blast
  note rr = rr [unfolded \<open>rr' = rr\<close>]
  let ?a = "a\<lparr>delivered := delivered a @ frames_of [m], in_flight := frames_of ms @ ?fs\<rparr>"
  have fm: "in_flight a = frames_of [m] @ frames_of ms @ ?fs" "filter (\<lambda>f. f \<noteq> []) (frames_of [m]) = frames_of [m]"
    using ms(2,4) frames_of_Cons [of m ms] by (auto simp: filter_id_conv simp del: frames_of.simps(2))
  have "fifo_step False a [] ?a"
  proof (cases "frames_of [m] = []")
    case True
    with fm fifo_step.accept [of False a "[]"] show ?thesis by (simp del: frames_of.simps(2))
  next
    case False
    with frames_of_single [of m] obtain f where "frames_of [m] = [f]" by blast
    with fm fifo_step.deliver [of a f "frames_of ms @ ?fs" False] show ?thesis by (simp del: frames_of.simps(2))
  qed
  moreover have "down_rel D V ?a (s\<lparr>dl_relay := rr\<rparr>)"
    unfolding down_rel_def using ms rr r1 ok fm
    by (intro conjI exI [of _ ms]) (auto simp: down_ok_def simp del: frames_of.simps(2))
  ultimately show ?thesis by blast
qed

interpretation down: link_refinement "down_step D V" "\<lambda>a s. down_libs D V \<and> down_rel D V a s" False
  for D :: "('w, 'c, 'k, 'r, 't, 'h, 'p, 'm) down_env" and V
proof (unfold_locales, elim conjE)
  fix a s fs s' assume L: "down_libs D V" and r: "down_rel D V a s" and st: "down_step D V s fs s'"
  from st have "\<exists>a'. fifo_step False a fs a' \<and> down_rel D V a' s'"
  proof cases
    case transmit
    from down_transmit [OF L r transmit(3-5)] fifo_step.accept transmit(1,2) show ?thesis by blast
  next
    case command
    from down_command [OF L r command(3,5,4)] fifo_step.accept [of False a "[]"] command(1,2) show ?thesis by auto
  next
    case written
    from down_written [OF L r written(3-5)] fifo_step.accept [of False a "[]"] written(1,2) show ?thesis by auto
  next
    case relay
    from down_relay [OF L r relay(3,4)] relay(1,2) show ?thesis by simp
  qed
  with L show "\<exists>a'. link_run (fifo_step False) a fs a' \<and> down_libs D V \<and> down_rel D V a' s'"
    by (blast intro: link_run_single)
qed

section \<open>The property\<close>

definition down_init ::
    "('w, 'c, 'k, 'r, 't, 'h, 'p, 'm) down_env \<Rightarrow> ('w, 'c, 'k, 'r, 't, 'p) down_views \<Rightarrow>
     ('w, 'c, 'k, 'r, 't, 'h, 'p) downlink \<Rightarrow> bool" where
  "down_init D V s \<longleftrightarrow>
     queue (dv_frames V (iw_frame_rx (dl_writer s))) = [] \<and> queue (dv_control V (iw_control_rx (dl_writer s))) = [] \<and>
     dv_unread V (rr_reader (dl_relay s)) = [] \<and> dv_tap V (rr_tap (dl_relay s)) = [] \<and>
     length (rr_msg_buf (dl_relay s)) = de_size D + 16 \<and> has_receiver (dv_answers V (rr_response_tx (dl_relay s)))"

lemma down_init_rel: "down_init D V s \<Longrightarrow> down_rel D V fifo_empty s"
  by (auto simp: down_init_def down_rel_def down_ok_def fifo_empty_def intro!: exI [of _ "[]"])

text \<open>
  C3: The path from the smoltcp device to the TAP device implements a queue without losses.
  However the device, callers with control messages, the library's writer and the proxy's
  reader interleave, every run is a run of the queue that accepts the frames the device
  counts as sent and delivers to the TAP device; so the TAP device has got the accepted
  frames in order, each once, up to some point, and all of them when the channel and the
  socket are empty. This holds while the connection lasts and the control messages fit the
  proxy's buffer.
\<close>

theorem downlink_refines_fifo:
  assumes "down_libs D V" and "down_init D V s0" and "link_run (down_step D V) s0 fs s"
  shows "\<exists>a. link_run (fifo_step False) fifo_empty fs a \<and> delivered a = dv_tap V (rr_tap (dl_relay s)) \<and>
    fs = dv_tap V (rr_tap (dl_relay s)) @ in_flight a \<and>
    (queue (dv_frames V (iw_frame_rx (dl_writer s))) = [] \<and> dv_unread V (rr_reader (dl_relay s)) = [] \<longrightarrow>
      in_flight a = [])"
proof -
  from down.run_refines [OF assms(3), of fifo_empty] assms(1) down_init_rel [OF assms(2)] obtain a where
    a: "link_run (fifo_step False) fifo_empty fs a" "down_rel D V a s" by blast
  from a(2) obtain ms where ms: "dv_unread V (rr_reader (dl_relay s)) = wire ms"
    "delivered a = dv_tap V (rr_tap (dl_relay s))"
    "in_flight a = frames_of ms @ queue (dv_frames V (iw_frame_rx (dl_writer s)))"
    unfolding down_rel_def by blast
  have "in_flight a = []" if "queue (dv_frames V (iw_frame_rx (dl_writer s))) = []" "wire ms = []"
    using that ms(3) by (cases ms) (simp_all add: framed_not_Nil)
  with fifo_run_lossless [OF a(1)] a(1) ms show ?thesis by (intro exI [of _ a]) (auto simp: fifo_empty_def)
qed

text \<open>A closed instance, and one frame that goes all the way.\<close>

definition down0 ::
    "(bytes, bytes chan, bytes chan, bytes, bytes list, (ip_addr \<times> u8 \<times> u32) set, bytes chan, ip_addr \<times> u8 \<times> u32) down_env" where
  "down0 = \<lparr>de_write_all = vec_write_all, de_flush = vec_flush, de_frames = chan_mpsc, de_control = chan_mpsc,
     de_read_exact = slice_read_exact, de_arrive = (@), de_tap = log_tap, de_answers = chan_mpsc, de_rt = set_rt,
     de_from_slice = (\<lambda>_. Inl []), de_to_vec = (\<lambda>_. Inr []), de_size = 14\<rparr>"

definition views0 :: "(bytes, bytes chan, bytes chan, bytes, bytes list, bytes chan) down_views" where
  "views0 = \<lparr>dv_written = id, dv_frames = id, dv_control = id, dv_unread = id, dv_tap = id, dv_answers = id\<rparr>"

definition downlink0 ::
    "(bytes, bytes chan, bytes chan, bytes, bytes list, (ip_addr \<times> u8 \<times> u32) set, bytes chan) downlink" where
  "downlink0 = \<lparr>dl_writer = \<lparr>iw_writer = [], iw_frame_rx = chan_new 4, iw_control_rx = chan_new 4,
     iw_stats = stats_default, iw_ipc_dead = False\<rparr>, dl_relay = relay0 [], dl_stats = stats_default\<rparr>"

lemma down0_libs: "down_libs down0 views0"
  by (simp add: down_libs_def down0_def views0_def vec_writes_stream vec_flushes_stream chan_mpsc_refines
      slice_reads_stream log_tap_delivers)

theorem downlink_refines_fifo_witness:
  "\<exists>s. link_run (down_step down0 views0) downlink0 [[7]] s \<and> rr_tap (dl_relay s) = [[7]] \<and>
     (\<exists>a :: bytes fifo. link_run (fifo_step False) fifo_empty [[7]] a \<and> delivered a = [[7]] \<and> in_flight a = [])"
proof -
  let ?w = "dl_writer downlink0"
  let ?s1 = "downlink0\<lparr>dl_writer := ?w\<lparr>iw_frame_rx := (chan_new 4)\<lparr>queue := [[7]]\<rparr>\<rparr>,
    dl_stats := stats_default\<lparr>device_tx_frames := 1\<rparr>\<rparr>"
  let ?w2 = "?w\<lparr>iw_writer := framed [1, 7], iw_stats := stats_default\<lparr>ipc_tx_frames := 1\<rparr>\<rparr>"
  let ?s2 = "?s1\<lparr>dl_writer := ?w2, dl_relay := (relay0 [])\<lparr>rr_reader := framed [1, 7]\<rparr>\<rparr>"
  let ?rr = "(relay0 [])\<lparr>rr_msg_buf := [1, 7] @ replicate 28 0, rr_tap := [[7]]\<rparr>"
  let ?s3 = "?s2\<lparr>dl_relay := ?rr\<rparr>"
  have t: "tx_consume chan_mpsc 1 (\<lambda>buffer. ((), [7])) (proxy_device_new (chan_new 0) (chan_new 4) 14) stats_default =
      ((), proxy_device_new (chan_new 0) ((chan_new 4)\<lparr>queue := [[7]]\<rparr>) 14, stats_default\<lparr>device_tx_frames := 1\<rparr>)"
    by (simp add: tx_consume_def proxy_device_new_def chan_mpsc_def chan_try_send_def chan_new_def stats_default_def)
  have 1: "down_step down0 views0 downlink0 [[7]] ?s1"
    using down_step.transmit [of down0 "[7]" "chan_new 0" downlink0 "()"
        "proxy_device_new (chan_new 0) ((chan_new 4)\<lparr>queue := [[7]]\<rparr>) 14" "stats_default\<lparr>device_tx_frames := 1\<rparr>" views0] t
    by (simp add: down0_def downlink0_def proxy_device_new_def capabilities_def stats_default_def)
  have w: "ipc_writer_iteration vec_write_all vec_flush chan_mpsc chan_mpsc WakeFrame (dl_writer ?s1) = Some (Continue ?w2)"
    by (simp add: ipc_writer_iteration_def downlink0_def chan_mpsc_def chan_try_recv_def chan_new_def write_msg_def
        encode_frame_def MSG_TYPE_FRAME_def vec_write_all_def vec_flush_def framed_def count_tx_frame_def
        drain_frames.simps drain_controls.simps stats_default_def Let_def)
  have 2: "down_step down0 views0 ?s1 [] ?s2"
    using down_step.written [of down0 WakeFrame ?s1 ?w2 views0 "framed [1, 7]"] w
    by (simp add: down0_def downlink0_def views0_def relay0_def)
  have rr: "relay_reader_step slice_read_exact log_tap chan_mpsc set_rt ''tap0'' (\<lambda>_. Inl []) (\<lambda>_. Inr []) (Inr [])
      (dl_relay ?s2) = Some (Continue ?rr)"
    by (simp add: relay_reader_step_def relay0_def slice_read_exact_def framed_def from_to_be_bytes Let_def
        decode_message_def MSG_TYPE_FRAME_def MSG_TYPE_CONTROL_def log_tap_def)
  have 3: "down_step down0 views0 ?s2 [] ?s3"
    using down_step.relay [of down0 "''tap0''" "Inr []" ?s2 ?rr views0] rr framed_not_Nil
    by (simp add: down0_def views0_def)
  have run: "link_run (down_step down0 views0) downlink0 [[7]] ?s3"
    using link_run.step [where step = "down_step down0 views0", OF link_run.step
        [where step = "down_step down0 views0", OF link_run_single [where step = "down_step down0 views0", OF 1] 2] 3]
    by simp
  have "down_init down0 views0 downlink0"
    by (simp add: down_init_def down0_def views0_def downlink0_def relay0_def chan_new_def)
  from downlink_refines_fifo [OF down0_libs this run]
  have "\<exists>a :: bytes fifo. link_run (fifo_step False) fifo_empty [[7]] a \<and> delivered a = [[7]] \<and> in_flight a = []"
    by (auto simp: views0_def downlink0_def relay0_def chan_new_def)
  then show ?thesis using run by (intro exI [of _ ?s3]) simp
qed

end
