(* ===== verification/Proxy_Run.thy ===== *)
theory Proxy_Run
  imports Relay_Facts
begin

text \<open>
  The proxy as a whole, \<^verbatim>\<open>proxy/src/main.rs\<close>: \<^verbatim>\<open>run_frame_relay\<close> with its three tasks sharing
  their channels, \<^verbatim>\<open>run_proxy\<close> before it, and \<^verbatim>\<open>run\<close>, \<^verbatim>\<open>run_socket_path_mode\<close> and \<^verbatim>\<open>main\<close> around
  them. The scheduling of the tasks is an argument: the sequence of their turns.
\<close>

section \<open>The outside world\<close>

text \<open>
  What the proxy calls: the system, with the state \<open>'o\<close>; the tokio stream \<open>'r \<times> 'w\<close> and the
  buffers \<open>'b\<close>, \<open>'v\<close> around its halves; the TAP device \<open>'a\<close>; the netlink handle \<open>'h\<close>; the channels;
  and the JSON of the four message types.
\<close>

record ('o, 'i, 'n, 'a, 'r, 'w, 'b, 'v, 'h, 'm, 'c, 'k) proxy_env =
  px_libc :: "'o libc_api"
  px_ns :: "'o ns_api"
  px_tap :: "('o, 'i, 'n) tap_api"
  px_async :: "('o, 'a) async_fd_api"
  px_read :: "nat \<Rightarrow> 'o \<Rightarrow> nat \<Rightarrow> bytes io_result \<times> 'o"
  px_write :: "nat \<Rightarrow> 'o \<Rightarrow> bytes \<Rightarrow> nat io_result \<times> 'o"
  px_runtime :: "'o \<Rightarrow> unit io_result \<times> 'o"
  px_set_nonblocking :: "'o \<Rightarrow> nat \<Rightarrow> unit io_result \<times> 'o"
  px_from_std :: "'o \<Rightarrow> nat \<Rightarrow> ('r \<times> 'w) io_result \<times> 'o"
  px_write_all :: "'w \<Rightarrow> bytes \<Rightarrow> unit io_result \<times> 'w"
  px_new_connection :: "'o \<Rightarrow> (string + 'h) \<times> 'o"
  px_rt :: "('h, 'm) rt_api"
  px_buf_reader :: "nat \<Rightarrow> 'r \<Rightarrow> 'b"
  px_buf_writer :: "nat \<Rightarrow> 'w \<Rightarrow> 'v"
  px_buf_read_exact :: "'b \<Rightarrow> nat \<Rightarrow> bytes io_result \<times> 'b"
  px_buf_write_all :: "'v \<Rightarrow> bytes \<Rightarrow> unit io_result \<times> 'v"
  px_buf_flush :: "'v \<Rightarrow> unit io_result \<times> 'v"
  px_tap_read :: "'a \<Rightarrow> nat \<Rightarrow> bytes io_result \<times> 'a"
  px_tap_write_all :: "'a \<Rightarrow> bytes \<Rightarrow> unit io_result \<times> 'a"
  px_frames :: "('c, bytes) mpsc"
  px_responses :: "('k, bytes) mpsc"
  px_hello_json :: "bytes \<Rightarrow> string + client_hello"
  px_config_json :: "proxy_config \<Rightarrow> string + bytes"
  px_command_json :: "bytes \<Rightarrow> string + proxy_command"
  px_response_json :: "proxy_response \<Rightarrow> string + bytes"

section \<open>The frame relay\<close>

definition PROXY_IPC_BUFFER_SIZE :: nat where "PROXY_IPC_BUFFER_SIZE = 256 * 1024"

text \<open>
  The three tasks. The frame channel is in \<open>rl_writer\<close> for the first two, the response
  channel in \<open>rl_writer\<close> for the last two. \<open>rl_result\<close> is what the first task to end
  left: \<open>None\<close> if it panicked.
\<close>

record ('a, 'b, 'v, 'h, 'c, 'k) relay =
  rl_tap_reader :: "('a, 'c) tap_reader"
  rl_writer :: "('v, 'c, 'k) relay_writer"
  rl_reader :: "('b, 'a, 'h, 'k) relay_reader"
  rl_result :: "unit io_result option"

definition relay_start ::
    "('o, 'i, 'n, 'a, 'r, 'w, 'b, 'v, 'h, 'm, 'c, 'k) proxy_env \<Rightarrow> nat \<Rightarrow> nat \<Rightarrow> 'a \<Rightarrow> 'r \<Rightarrow> 'w \<Rightarrow> 'h \<Rightarrow> nat \<Rightarrow>
     'o \<Rightarrow> ('a, 'b, 'v, 'h, 'c, 'k) relay io_result \<times> 'o" where
  "relay_start E frame_fd tap_fd tap ipc_read ipc_write rt max_frame_size st =
     (case dup_fd (px_async E) st tap_fd of
        (Inl e, st1) \<Rightarrow> (Inl e, af_close (px_async E) (sys_close (px_libc E) st1 frame_fd) tap_fd)
      | (Inr tap_write_fd, st1) \<Rightarrow>
          (case async_fd_new (px_async E) st1 tap_write_fd of
             (Inl e, st2) \<Rightarrow> (Inl e, sys_close (px_libc E) (af_close (px_async E) st2 tap_fd) frame_fd)
           | (Inr tap_writer, st2) \<Rightarrow>
               (let frames = mpsc_channel (px_frames E) PROXY_FRAME_CHANNEL_CAPACITY;
                    responses = mpsc_channel (px_responses E) 8
                in (Inr
                     \<lparr>rl_tap_reader = \<lparr>tr_tap = tap, tr_frame_tx = frames, tr_dropped = 0, tr_result = Inr ()\<rparr>,
                      rl_writer = \<lparr>rw_writer = px_buf_writer E PROXY_IPC_BUFFER_SIZE ipc_write,
                        rw_frame_rx = frames, rw_response_rx = responses, rw_result = Inr ()\<rparr>,
                      rl_reader = \<lparr>rr_reader = px_buf_reader E PROXY_IPC_BUFFER_SIZE ipc_read,
                        rr_msg_buf = replicate (max_frame_size + 16) 0, rr_tap = tap_writer, rr_rt = rt,
                        rr_response_tx = responses, rr_result = Inr ()\<rparr>,
                      rl_result = Some (Inr ())\<rparr>, st2))))"

text \<open>
  A turn of a task: one iteration of its loop, on the channels as the others left them. What
  \<^verbatim>\<open>/proc/net/dev\<close> holds at the time comes with the turn of the third.
\<close>

datatype relay_turn = TapReaderTurn | WriterTurn relay_wake | ReaderTurn "string io_result"

fun relay_turn_step ::
    "('o, 'i, 'n, 'a, 'r, 'w, 'b, 'v, 'h, 'm, 'c, 'k) proxy_env \<Rightarrow> bool \<Rightarrow> string \<Rightarrow> nat \<Rightarrow> relay_turn \<Rightarrow>
     ('a, 'b, 'v, 'h, 'c, 'k) relay \<Rightarrow> ('a, 'b, 'v, 'h, 'c, 'k) relay flow option" where
  "relay_turn_step E chk iface_name max_frame_size TapReaderTurn s =
     Some (case tap_reader_step chk (px_tap_read E) (px_frames E) max_frame_size
             ((rl_tap_reader s)\<lparr>tr_frame_tx := rw_frame_rx (rl_writer s)\<rparr>) of
             None \<Rightarrow> Return (s\<lparr>rl_result := None\<rparr>)
           | Some r \<Rightarrow>
               (let t = flow_state r;
                    s1 = s\<lparr>rl_tap_reader := t, rl_writer := (rl_writer s)\<lparr>rw_frame_rx := tr_frame_tx t\<rparr>\<rparr>
                in case r of Continue _ \<Rightarrow> Continue s1 | Return _ \<Rightarrow> Return (s1\<lparr>rl_result := Some (tr_result t)\<rparr>)))"
| "relay_turn_step E chk iface_name max_frame_size (WriterTurn i) s = do {
     r \<leftarrow> relay_writer_step (px_buf_write_all E) (px_buf_flush E) (px_frames E) (px_responses E) i (rl_writer s);
     Some (let w = flow_state r; s1 = s\<lparr>rl_writer := w\<rparr>
           in case r of Continue _ \<Rightarrow> Continue s1 | Return _ \<Rightarrow> Return (s1\<lparr>rl_result := Some (rw_result w)\<rparr>))
   }"
| "relay_turn_step E chk iface_name max_frame_size (ReaderTurn proc) s =
     Some (case relay_reader_step (px_buf_read_exact E) (px_tap_write_all E) (px_responses E) (px_rt E) iface_name
             (px_command_json E) (px_response_json E) proc
             ((rl_reader s)\<lparr>rr_response_tx := rw_response_rx (rl_writer s)\<rparr>) of
             None \<Rightarrow> Return (s\<lparr>rl_result := None\<rparr>)
           | Some r \<Rightarrow>
               (let q = flow_state r;
                    s1 = s\<lparr>rl_reader := q, rl_writer := (rl_writer s)\<lparr>rw_response_rx := rr_response_tx q\<rparr>\<rparr>
                in case r of Continue _ \<Rightarrow> Continue s1 | Return _ \<Rightarrow> Return (s1\<lparr>rl_result := Some (rr_result q)\<rparr>)))"

text \<open>
  The first task to end ends the relay, with its result; a task that panicked is an error.
  \<open>Pending\<close> is a relay that is still running after the turns given.
\<close>

definition relay_result :: "unit io_result option \<Rightarrow> unit io_result" where
  "relay_result r = (case r of None \<Rightarrow> Inl (io_error_other ''task panicked'') | Some x \<Rightarrow> x)"

definition relay_run ::
    "('o, 'i, 'n, 'a, 'r, 'w, 'b, 'v, 'h, 'm, 'c, 'k) proxy_env \<Rightarrow> bool \<Rightarrow> string \<Rightarrow> nat \<Rightarrow> relay_turn list \<Rightarrow>
     ('a, 'b, 'v, 'h, 'c, 'k) relay \<Rightarrow> unit io_result poll option" where
  "relay_run E chk iface_name max_frame_size turns s = do {
     (r, rest) \<leftarrow> task_run (relay_turn_step E chk iface_name max_frame_size) turns s;
     Some (case r of Continue _ \<Rightarrow> Pending | Return s1 \<Rightarrow> Ready (relay_result (rl_result s1)))
   }"

definition run_frame_relay ::
    "('o, 'i, 'n, 'a, 'r, 'w, 'b, 'v, 'h, 'm, 'c, 'k) proxy_env \<Rightarrow> bool \<Rightarrow> relay_turn list \<Rightarrow> nat \<Rightarrow> nat \<Rightarrow>
     'a \<Rightarrow> 'r \<Rightarrow> 'w \<Rightarrow> 'h \<Rightarrow> string \<Rightarrow> nat \<Rightarrow> 'o \<Rightarrow> (unit io_result poll \<times> 'o) option" where
  "run_frame_relay E chk turns frame_fd tap_fd tap ipc_read ipc_write rt iface_name max_frame_size st =
     (case relay_start E frame_fd tap_fd tap ipc_read ipc_write rt max_frame_size st of
        (Inl e, st1) \<Rightarrow> Some (Ready (Inl e), st1)
      | (Inr s, st1) \<Rightarrow> map_option (\<lambda>r. (r, st1)) (relay_run E chk iface_name max_frame_size turns s))"

section \<open>Before the relay\<close>

fun add_initial_routes :: "('h, 'm) rt_api \<Rightarrow> string \<Rightarrow> 'h \<Rightarrow> ip_with_prefix list \<Rightarrow> 'h" where
  "add_initial_routes R iface_name h [] = h"
| "add_initial_routes R iface_name h ((dest, plen) # rs) =
     add_initial_routes R iface_name (snd (add_route R h iface_name dest plen)) rs"

definition broadcast_mac :: bytes where
  "broadcast_mac = [0xff, 0xff, 0xff, 0xff, 0xff, 0xff]"

definition send_arp ::
    "('w \<Rightarrow> bytes \<Rightarrow> unit io_result \<times> 'w) \<Rightarrow> bytes \<Rightarrow> tap_config \<Rightarrow> 'w \<Rightarrow> unit io_result \<times> 'w" where
  "send_arp write_all tap_mac config w =
     (case peer_addr config of
        Some (V4 ipv4, _) \<Rightarrow>
          write_framed_sync write_all w (encode_frame (build_gratuitous_arp tap_mac ipv4 broadcast_mac))
      | _ \<Rightarrow> (Inr (), w))"


text \<open>
  \<^verbatim>\<open>run_proxy\<close>: the stream, the ARP frame, the netlink connection, the initial routes, the TAP
  device, and then the relay with frames of at most the MTU and the Ethernet header. An
  error closes both descriptors.
\<close>

definition run_proxy ::
    "('o, 'i, 'n, 'a, 'r, 'w, 'b, 'v, 'h, 'm, 'c, 'k) proxy_env \<Rightarrow> bool \<Rightarrow> relay_turn list \<Rightarrow>
     nat \<Rightarrow> nat \<Rightarrow> bytes \<Rightarrow> tap_config \<Rightarrow> 'o \<Rightarrow> (unit io_result poll \<times> 'o) option" where
  "run_proxy E chk turns frame_fd tap_fd tap_mac config st =
     (let fail = (\<lambda>e st. Some (Ready (Inl e), close_fd (px_tap E) (sys_close (px_libc E) st frame_fd) tap_fd))
      in case px_set_nonblocking E st frame_fd of
           (Inl e, st1) \<Rightarrow> fail e st1
         | (Inr _, st1) \<Rightarrow>
             (case px_from_std E st1 frame_fd of
                (Inl e, st2) \<Rightarrow> fail e st2
              | (Inr (ipc_read, ipc_write), st2) \<Rightarrow>
                  (case send_arp (px_write_all E) tap_mac config ipc_write of
                     (Inl e, _) \<Rightarrow> fail e st2
                   | (Inr _, ipc_write1) \<Rightarrow>
                       (case px_new_connection E st2 of
                          (Inl e, st3) \<Rightarrow> fail (io_error_other (''failed to create rtnetlink connection: '' @ e)) st3
                        | (Inr rt, st3) \<Rightarrow>
                            (let rt1 = add_initial_routes (px_rt E) (interface_name config) rt (peer_routes config)
                             in case async_fd_new (px_async E) st3 tap_fd of
                                  (Inl e, st4) \<Rightarrow> Some (Ready (Inl e), sys_close (px_libc E) st4 frame_fd)
                                | (Inr tap, st4) \<Rightarrow>
                                    (let max_frame_size = unat (mtu config) + ETHERNET_HEADER_SIZE
                                     in run_frame_relay E chk turns frame_fd tap_fd tap ipc_read ipc_write1 rt1
                                          (interface_name config) max_frame_size st4))))))"

text \<open>\<^verbatim>\<open>run\<close>: the TAP interface, the handshake, and the runtime with \<^verbatim>\<open>run_proxy\<close>.\<close>

definition run_tap ::
    "('o, 'i, 'n, 'a, 'r, 'w, 'b, 'v, 'h, 'm, 'c, 'k) proxy_env \<Rightarrow> bool \<Rightarrow> relay_turn list \<Rightarrow>
     nat \<Rightarrow> tap_config \<Rightarrow> 'o \<Rightarrow> (unit io_result poll \<times> 'o) option" where
  "run_tap E chk turns frame_fd config st =
     (case create_tap (px_tap E) st (interface_name config) of
        (Inl e, st1) \<Rightarrow> Some (Ready (Inl e), sys_close (px_libc E) st1 frame_fd)
      | (Inr tap_fd, st1) \<Rightarrow>
          (let mtu_opt = (if mtu config \<noteq> 1500 then Some (mtu config) else None);
               fail = (\<lambda>e st. Some (Ready (Inl e), sys_close (px_libc E) (close_fd (px_tap E) st tap_fd) frame_fd))
           in case configure_interface (px_tap E) st1 (interface_name config) (peer_addr config) mtu_opt of
                (Inl e, st2) \<Rightarrow> fail e st2
              | (Inr tap_mac, st2) \<Rightarrow> do {
                  (r, st3) \<leftarrow> perform_handshake (px_read E frame_fd) (px_write E frame_fd) (px_hello_json E)
                    (px_config_json E) st2 config tap_mac;
                  (case r of
                     Inl e \<Rightarrow> fail e st3
                   | Inr _ \<Rightarrow>
                       (case px_runtime E st3 of
                          (Inl e, st4) \<Rightarrow> fail e st4
                        | (Inr _, st4) \<Rightarrow> run_proxy E chk turns frame_fd tap_fd tap_mac config st4))
                }))"

definition run_socket_path_mode ::
    "('o, 'i, 'n, 'a, 'r, 'w, 'b, 'v, 'h, 'm, 'c, 'k) proxy_env \<Rightarrow> bool \<Rightarrow> relay_turn list \<Rightarrow>
     bytes \<Rightarrow> tap_config \<Rightarrow> 'o \<Rightarrow> (unit io_result poll \<times> 'o) option" where
  "run_socket_path_mode E chk turns socket_path config st =
     (case create_stream_listener (px_libc E) st socket_path of
        (Inl e, st1) \<Rightarrow> Some (Ready (Inl e), st1)
      | (Inr listener, st1) \<Rightarrow>
          (case accept_stream (px_libc E) st1 listener of
             (Inl e, st2) \<Rightarrow> Some (Ready (Inl e), sys_close (px_libc E) st2 listener)
           | (Inr frame_fd, st2) \<Rightarrow> run_tap E chk turns frame_fd config (sys_close (px_libc E) st2 listener)))"

text \<open>
  \<^verbatim>\<open>main\<close> on the arguments: the exit status of the process, \<open>Pending\<close> while the relay runs,
  \<open>None\<close> for a handshake that never ends.
\<close>

definition proxy_main ::
    "('o, 'i, 'n, 'a, 'r, 'w, 'b, 'v, 'h, 'm, 'c, 'k) proxy_env \<Rightarrow> bool \<Rightarrow> relay_turn list \<Rightarrow> args \<Rightarrow> 'o \<Rightarrow>
     (nat poll \<times> 'o) option" where
  "proxy_main E chk turns a st =
     (if a_frame_fd a = None \<and> a_socket_path a = None then Some (Ready 1, st)
      else
        (case (case a_pid a of None \<Rightarrow> (Inr (), st) | Some pid \<Rightarrow> join_namespace (px_ns E) st pid) of
           (Inl e, st1) \<Rightarrow> Some (Ready 1, st1)
         | (Inr _, st1) \<Rightarrow> do {
             let config = build_tap_config a;
             (result, st2) \<leftarrow>
               (case a_frame_fd a of
                  Some fd \<Rightarrow> run_tap E chk turns fd config st1
                | None \<Rightarrow> run_socket_path_mode E chk turns (as_bytes (the (a_socket_path a))) config st1);
             Some (case result of Pending \<Rightarrow> Pending | Ready (Inl _) \<Rightarrow> Ready 1 | Ready (Inr _) \<Rightarrow> Ready 0, st2)
           }))"

section \<open>Properties: the relay\<close>

text \<open>
  What is relied on: channels are bounded queues, \<^verbatim>\<open>read_exact\<close> fills its buffer, and a response
  can be written as JSON.
\<close>

definition relay_libs ::
    "('o, 'i, 'n, 'a, 'r, 'w, 'b, 'v, 'h, 'm, 'c, 'k) proxy_env \<Rightarrow> ('c \<Rightarrow> bytes chan) \<Rightarrow> ('k \<Rightarrow> bytes chan) \<Rightarrow> bool" where
  "relay_libs E fv kv \<longleftrightarrow> mpsc_refines (px_frames E) fv \<and> mpsc_refines (px_responses E) kv \<and>
     (\<forall>b n bs b'. px_buf_read_exact E b n = (Inr bs, b') \<longrightarrow> length bs = n) \<and>
     (\<forall>resp. \<exists>json. px_response_json E resp = Inr json)"

definition bounded :: "nat \<Rightarrow> 'x chan \<Rightarrow> bool" where
  "bounded n c \<longleftrightarrow> capacity c = n \<and> length (queue c) \<le> n"

definition relay_inv ::
    "('o, 'i, 'n, 'a, 'r, 'w, 'b, 'v, 'h, 'm, 'c, 'k) proxy_env \<Rightarrow> ('c \<Rightarrow> bytes chan) \<Rightarrow> ('k \<Rightarrow> bytes chan) \<Rightarrow>
     nat \<Rightarrow> ('a, 'b, 'v, 'h, 'c, 'k) relay \<Rightarrow> bool" where
  "relay_inv E fv kv n s \<longleftrightarrow> relay_libs E fv kv \<and>
     bounded PROXY_FRAME_CHANNEL_CAPACITY (fv (rw_frame_rx (rl_writer s))) \<and>
     length (rr_msg_buf (rl_reader s)) = n + 16 \<and> rl_result s \<noteq> None"

lemma bounded_send:
  assumes "mpsc_refines C cv" and "bounded n (cv c)" and "try_send C c m = (x, c')"
  shows "bounded n (cv c')"
  using assms(2,3) mpsc_try_send [OF assms(1), of c m]
  by (auto simp: bounded_def chan_try_send_def split: if_splits)

lemma bounded_recv:
  assumes "mpsc_refines C cv" and "bounded n (cv c)" and "try_recv C c = (x, c')"
  shows "bounded n (cv c')"
  using assms(2,3) mpsc_try_recv [OF assms(1), of c]
  by (auto simp: bounded_def chan_try_recv_def split: list.splits)

lemma drain_channel_returns:
  assumes C: "mpsc_refines C cv"
  shows "\<exists>r w' c'. drain_channel write_all C w c = Some (r, w', c') \<and> (bounded n (cv c) \<longrightarrow> bounded n (cv c'))"
proof (induction "length (queue (cv c))" arbitrary: c w rule: less_induct)
  case less
  note unfold = drain_channel.simps [of write_all C w c]
  obtain x c1 where x: "try_recv C c = (x, c1)" by fastforce
  note b = bounded_recv [OF C _ x]
  show ?case
  proof (cases x)
    case (RecvOk m)
    obtain y w1 where y: "write_framed_sync write_all w m = (y, w1)" by fastforce
    from RecvOk x mpsc_try_recv [OF C, of c] have "length (queue (cv c1)) < length (queue (cv c))"
      by (auto simp: chan_try_recv_def split: list.splits if_splits)
    from less [OF this, of w1] unfold x RecvOk y b show ?thesis by (cases y) (auto split: prod.splits)
  qed (use unfold x b in auto)
qed

lemma relay_select_bounded:
  assumes C: "mpsc_refines C cv" and K: "mpsc_refines K kv" and b: "bounded n (cv (rw_frame_rx s))"
  shows "case relay_select write_all flush C K i s of RSelected s1 \<Rightarrow> bounded n (cv (rw_frame_rx s1))
    | RWaiting s1 \<Rightarrow> bounded n (cv (rw_frame_rx s1)) | RReturn s1 \<Rightarrow> bounded n (cv (rw_frame_rx s1))"
proof (cases i)
  case WakeTap
  obtain x c1 where "try_recv C (rw_frame_rx s) = (x, c1)" by fastforce
  with bounded_recv [OF C b this] WakeTap show ?thesis by (cases x) (auto split: prod.splits sum.splits)
next
  case WakeResponse
  obtain x c1 where "try_recv K (rw_response_rx s) = (x, c1)" by fastforce
  with b WakeResponse show ?thesis by (cases x) (auto split: prod.splits sum.splits)
qed

lemma relay_writer_step_returns:
  assumes C: "mpsc_refines C cv" and K: "mpsc_refines K kv" and b: "bounded n (cv (rw_frame_rx s))"
  shows "\<exists>r. relay_writer_step write_all flush C K i s = Some r \<and> bounded n (cv (rw_frame_rx (flow_state r)))"
proof (cases "relay_select write_all flush C K i s")
  case (RSelected s1)
  with relay_select_bounded [OF C K b, of write_all flush i] have b1: "bounded n (cv (rw_frame_rx s1))" by simp
  from drain_channel_returns [OF C, of write_all "rw_writer s1" "rw_frame_rx s1" n] b1 obtain r2 w2 c2 where
    d2: "drain_channel write_all C (rw_writer s1) (rw_frame_rx s1) = Some (r2, w2, c2)" "bounded n (cv c2)" by auto
  from drain_channel_returns [OF K, of write_all w2 "rw_response_rx s1"] obtain r3 w3 k3 where
    d3: "drain_channel write_all K w2 (rw_response_rx s1) = Some (r3, w3, k3)" by blast
  obtain y w4 where y: "flush w3 = (y, w4)" by fastforce
  from RSelected d2 d3 y show ?thesis
    by (cases r2; cases r3; cases y) (auto simp: relay_writer_step_def Let_def)
qed (use relay_select_bounded [OF C K b, of write_all flush i] in \<open>auto simp: relay_writer_step_def\<close>)

lemma tap_reader_step_returns:
  assumes C: "mpsc_refines C cv" and b: "bounded n (cv (tr_frame_tx s))"
  shows "\<exists>r. tap_reader_step False rd C m s = Some r \<and> bounded n (cv (tr_frame_tx (flow_state r)))"
proof -
  obtain x t where x: "rd (tr_tap s) m = (x, t)" by fastforce
  show ?thesis
  proof (cases x)
    case (Inr f)
    obtain y c where y: "try_send C (tr_frame_tx s) (encode_frame f) = (y, c)" by fastforce
    with bounded_send [OF C b y] x b Inr show ?thesis
      by (cases y) (auto simp: tap_reader_step_def rust_add_def)
  qed (use x b in \<open>simp add: tap_reader_step_def\<close>)
qed

lemma relay_dispatch_returns:
  assumes "\<forall>resp. \<exists>json. to_vec resp = Inr json"
  shows "\<exists>r. relay_dispatch tw K R proc name from_slice to_vec m s = Some r \<and>
    rr_msg_buf (flow_state r) = rr_msg_buf s"
proof (cases "(tw, K, R, proc, name, from_slice, to_vec, m, s)" rule: relay_dispatch.cases)
  case (1 tw K R proc name from_slice to_vec frame s)
  then show ?thesis by (auto split: prod.splits sum.splits)
next
  case (2 tw K R proc name from_slice to_vec payload s)
  with assms show ?thesis
    by (auto simp: encode_control_def split: prod.splits sum.splits) (metis sum.distinct(1))
qed simp

lemma relay_reader_step_returns:
  assumes V: "\<forall>resp. \<exists>json. to_vec resp = Inr json"
    and rd: "\<forall>b n bs b'. rd b n = (Inr bs, b') \<longrightarrow> length bs = n"
  shows "\<exists>r. relay_reader_step rd tw K R name from_slice to_vec proc s = Some r \<and>
    length (rr_msg_buf (flow_state r)) = length (rr_msg_buf s)"
proof -
  obtain x r1 where x: "rd (rr_reader s) 4 = (x, r1)" by fastforce
  show ?thesis
  proof (cases x)
    case (Inr len)
    let ?n = "unat (from_be_bytes len :: u32)"
    obtain y r2 where y: "rd r1 ?n = (y, r2)" by fastforce
    show ?thesis
    proof (cases y)
      case Inl
      with x y Inr show ?thesis by (auto simp: relay_reader_step_def Let_def)
    next
      case body: (Inr body)
      let ?buf = "body @ drop ?n (rr_msg_buf s)"
      from relay_dispatch_returns [OF V, of tw K R proc name from_slice "decode_message (take ?n ?buf)"
          "s\<lparr>rr_reader := r2, rr_msg_buf := ?buf\<rparr>"] x y Inr body rd [rule_format, of r1 ?n body r2]
      show ?thesis by (auto simp: relay_reader_step_def Let_def)
    qed
  qed (use x in \<open>simp add: relay_reader_step_def\<close>)
qed

lemma relay_turn_returns:
  assumes "relay_inv E fv kv n s"
  shows "\<exists>r. relay_turn_step E False name m i s = Some r \<and> relay_inv E fv kv n (flow_state r)"
proof -
  from assms have L: "mpsc_refines (px_frames E) fv" "mpsc_refines (px_responses E) kv"
      "\<forall>b n bs b'. px_buf_read_exact E b n = (Inr bs, b') \<longrightarrow> length bs = n"
      "\<forall>resp. \<exists>json. px_response_json E resp = Inr json"
    and b: "bounded PROXY_FRAME_CHANNEL_CAPACITY (fv (rw_frame_rx (rl_writer s)))"
    by (simp_all add: relay_inv_def relay_libs_def)
  show ?thesis
  proof (cases i)
    case TapReaderTurn
    let ?s = "(rl_tap_reader s)\<lparr>tr_frame_tx := rw_frame_rx (rl_writer s)\<rparr>"
    from b have "bounded PROXY_FRAME_CHANNEL_CAPACITY (fv (tr_frame_tx ?s))" by simp
    from tap_reader_step_returns [OF L(1) this, of "px_tap_read E" m] obtain r where
      "tap_reader_step False (px_tap_read E) (px_frames E) m ?s = Some r"
      "bounded PROXY_FRAME_CHANNEL_CAPACITY (fv (tr_frame_tx (flow_state r)))" by blast
    with assms TapReaderTurn show ?thesis by (cases r) (auto simp: relay_inv_def Let_def)
  next
    case (WriterTurn w)
    from relay_writer_step_returns [OF L(1,2) b, of "px_buf_write_all E" "px_buf_flush E" w] obtain r where
      "relay_writer_step (px_buf_write_all E) (px_buf_flush E) (px_frames E) (px_responses E) w (rl_writer s) = Some r"
      "bounded PROXY_FRAME_CHANNEL_CAPACITY (fv (rw_frame_rx (flow_state r)))" by blast
    with assms WriterTurn show ?thesis by (cases r) (auto simp: relay_inv_def Let_def)
  next
    case (ReaderTurn proc)
    let ?s = "(rl_reader s)\<lparr>rr_response_tx := rw_response_rx (rl_writer s)\<rparr>"
    from relay_reader_step_returns [OF L(4,3), of "px_tap_write_all E" "px_responses E" "px_rt E" name
        "px_command_json E" proc ?s] obtain r where
      "relay_reader_step (px_buf_read_exact E) (px_tap_write_all E) (px_responses E) (px_rt E) name
         (px_command_json E) (px_response_json E) proc ?s = Some r"
      "length (rr_msg_buf (flow_state r)) = length (rr_msg_buf ?s)" by blast
    with assms ReaderTurn show ?thesis by (cases r) (auto simp: relay_inv_def Let_def)
  qed
qed

interpretation relaying: task_invariant_all "relay_turn_step E False name m" "relay_inv E fv kv n" "\<lambda>_ _. True"
proof unfold_locales
  fix s s' i
  assume "relay_inv E fv kv n s"
  note returns = relay_turn_returns [OF this, of name m i]
  show "relay_turn_step E False name m i s = Some (Continue s') \<Longrightarrow> relay_inv E fv kv n s'"
    using returns by auto
  show "relay_turn_step E False name m i s = Some (Return s') \<Longrightarrow> relay_inv E fv kv n s'"
    using returns by auto
qed

interpretation relaying: task_total "relay_turn_step E False name m" "relay_inv E fv kv n" "\<lambda>_ _. True"
  using relay_turn_returns by unfold_locales blast


section \<open>Properties: the proxy as a process\<close>

lemma run_tap_no_address:
  assumes "fd_io (px_read E fd) (px_write E fd) inc out" and "peer_addr config = None"
  shows "\<exists>e st'. run_tap E chk turns fd config st = Some (Ready (Inl e), st')"
proof -
  obtain x1 st1 where c: "create_tap (px_tap E) st (interface_name config) = (x1, st1)" by fastforce
  let ?mtu = "if mtu config \<noteq> 1500 then Some (mtu config) else None"
  obtain x2 st2 where i: "configure_interface (px_tap E) st1 (interface_name config) None ?mtu = (x2, st2)" by fastforce
  show ?thesis
  proof (cases x1; cases x2)
    fix tap_fd tap_mac
    assume "x1 = Inr tap_fd" "x2 = Inr tap_mac"
    with c i perform_handshake_no_address [OF assms, of "px_hello_json E" "px_config_json E" st2 tap_mac] assms(2)
    show ?thesis by (auto simp: run_tap_def Let_def)
  qed (use c i assms(2) in \<open>auto simp: run_tap_def Let_def\<close>)
qed


text \<open>\<^verbatim>\<open>run_proxy\<close> fails, or runs the relay with the frame size of the configuration.\<close>

lemma run_proxy_cases:
  obtains (failed) e st' where "run_proxy E chk turns frame_fd tap_fd tap_mac config st = Some (Ready (Inl e), st')"
  | (relaying) s0 st' where
    "run_proxy E chk turns frame_fd tap_fd tap_mac config st =
       map_option (\<lambda>r. (r, st'))
         (relay_run E chk (interface_name config) (unat (mtu config) + ETHERNET_HEADER_SIZE) turns s0)"
    "length (rr_msg_buf (rl_reader s0)) = unat (mtu config) + ETHERNET_HEADER_SIZE + 16"
proof -
  have "(\<exists>e st'. run_frame_relay E chk turns frame_fd tap_fd tap ir iw rt name n st = Some (Ready (Inl e), st')) \<or>
      (\<exists>s0 st'. run_frame_relay E chk turns frame_fd tap_fd tap ir iw rt name n st =
         map_option (\<lambda>r. (r, st')) (relay_run E chk name n turns s0) \<and> length (rr_msg_buf (rl_reader s0)) = n + 16)"
    for tap ir iw rt name n st
    by (cases "relay_start E frame_fd tap_fd tap ir iw rt n st")
       (auto simp: run_frame_relay_def relay_start_def Let_def split: sum.splits prod.splits)
  note relay = this
  have "(\<exists>e st'. run_proxy E chk turns frame_fd tap_fd tap_mac config st = Some (Ready (Inl e), st')) \<or>
      (\<exists>tap ir iw rt st1. run_proxy E chk turns frame_fd tap_fd tap_mac config st =
         run_frame_relay E chk turns frame_fd tap_fd tap ir iw rt (interface_name config)
           (unat (mtu config) + ETHERNET_HEADER_SIZE) st1)"
    by (auto simp: run_proxy_def Let_def split: sum.splits prod.splits) blast
  with relay show thesis using that by metis
qed

section \<open>A small system\<close>

text \<open>
  The state is what the library has yet to send and what was sent to it; the descriptors are
  there, the namespaces can be joined, and the network is empty.
\<close>

definition async0 :: "(bytes \<times> bytes, bytes list) async_fd_api" where
  "async0 = \<lparr>fcntl_getfl = (\<lambda>_ _. 2), fcntl_setfl = (\<lambda>st _ _. (0, st)), af_errno = (\<lambda>_. IoError Other []),
     af_new = (\<lambda>_ _. Inr []), af_dup = (\<lambda>st _. (9, st)), af_close = (\<lambda>st _. st),
     poll_read_ready = (\<lambda>a. (Ready (Inr ()), a)), try_read = (\<lambda>a n. (Some (fst (list_tap a n)), snd (list_tap a n))),
     poll_write_ready = (\<lambda>a. (Ready (Inr ()), a)), try_write = (\<lambda>a m. (Some (Inr (length m)), a @ [m]))\<rparr>"

definition proxy0 ::
    "(bytes \<times> bytes, unit, unit, bytes list, bytes, bytes, bytes, bytes, (ip_addr \<times> u8 \<times> u32) set,
      ip_addr \<times> u8 \<times> u32, bytes chan, bytes chan) proxy_env" where
  "proxy0 = \<lparr>
     px_libc = \<lparr>sys_socket = (\<lambda>st. (3, st)), sys_socketpair = (\<lambda>st. (0, (3, 4), st)),
       sys_setsockopt = (\<lambda>st fd opt v. (0, st)), sys_connect = (\<lambda>st fd a. (0, st)),
       sys_bind = (\<lambda>st fd a. (0, st)), sys_listen = (\<lambda>st fd b. (0, st)), sys_accept4 = (\<lambda>st fd. (5, st)),
       sys_close = (\<lambda>st fd. st), remove_file = (\<lambda>st p. st), errno = (\<lambda>_. IoError Other [])\<rparr>,
     px_ns = \<lparr>open_file = (\<lambda>st p. (Inr 6, st)), setns = (\<lambda>st fd k. (Inr (), st)), close_file = (\<lambda>st fd. st)\<rparr>,
     px_tap = \<lparr>open_tun = (\<lambda>st. (Inr 7, st)), ioctl_tunsetiff = (\<lambda>st _ _. (0, st)),
       ioctl_tunsetsndbuf = (\<lambda>st _ _. (0, st)), dgram_socket = (\<lambda>st. (8, st)),
       ioctl_siocsiftxqlen = (\<lambda>st _ _. (0, st)), close_fd = (\<lambda>st _. st), os_error = (\<lambda>_. IoError Other []),
       try_from_name = (\<lambda>_ _. Inr ()), ipnet_new = (\<lambda>_ _. Inr ()), add_address = (\<lambda>st _ _. (Inr (), st)),
       set_if_mtu = (\<lambda>st _ _. (Inr (), st)), set_up = (\<lambda>st _ _. (Inr (), st)),
       hwaddress = (\<lambda>_ _. Inr [2, 0, 0, 0, 0, 9])\<rparr>,
     px_async = async0, px_read = (\<lambda>_. trickle_read), px_write = (\<lambda>_. trickle_write),
     px_runtime = (\<lambda>st. (Inr (), st)), px_set_nonblocking = (\<lambda>st _. (Inr (), st)),
     px_from_std = (\<lambda>st _. (Inr ([], []), st)), px_write_all = vec_write_all,
     px_new_connection = (\<lambda>st. (Inr {}, st)), px_rt = set_rt, px_buf_reader = (\<lambda>_ r. r), px_buf_writer = (\<lambda>_ w. w),
     px_buf_read_exact = slice_read_exact, px_buf_write_all = vec_write_all, px_buf_flush = vec_flush,
     px_tap_read = list_tap, px_tap_write_all = log_tap, px_frames = chan_mpsc, px_responses = chan_mpsc,
     px_hello_json = (\<lambda>_. Inr ClientHello), px_config_json = pc0_json,
     px_command_json = (\<lambda>_. Inl ''unknown''), px_response_json = (\<lambda>_. Inr [])\<rparr>"

lemma proxy0_libs: "relay_libs proxy0 id id"
  by (auto simp: relay_libs_def proxy0_def chan_mpsc_refines slice_read_exact_def split: if_splits)



end
