(* ===== verification/Spec2Isabelle.thy ===== *)
theory Spec2Isabelle
  imports Stack_Behaviour Control Uplink Proxy_Run
begin

text \<open>
  A verification of tap-tunnel: a library that gives a Rust program TCP and UDP sockets inside
  another process's network namespace, and the proxy process that makes it possible.

  \<^bold>\<open>The program.\<close> The library (\<^verbatim>\<open>src/src\<close>) runs a smoltcp network stack in a task of its own
  (\<^verbatim>\<open>stack/mod.rs\<close>, \<^verbatim>\<open>run_stack\<close>). Socket objects (\<^verbatim>\<open>socket/mod.rs\<close>) and the methods of \<^verbatim>\<open>Tunnel\<close>
  (\<^verbatim>\<open>lib.rs\<close>) send it commands and exchange data with it over bounded channels. The stack's
  device (\<^verbatim>\<open>stack/device.rs\<close>) passes Ethernet frames to and from two IPC tasks (\<^verbatim>\<open>lib.rs\<close>,
  \<^verbatim>\<open>setup_stack_from_fd\<close>), which speak a length-prefixed protocol (\<^verbatim>\<open>protocol.rs\<close>) on a Unix
  socket (\<^verbatim>\<open>ipc.rs\<close>). At the other end is the proxy (\<^verbatim>\<open>src/proxy/src\<close>): it joins the namespace
  (\<^verbatim>\<open>namespace.rs\<close>), creates and configures a TAP device (\<^verbatim>\<open>tap.rs\<close>), shakes hands with the library,
  and relays frames between the socket and the device with three tasks, carrying out route
  and statistics commands (\<^verbatim>\<open>route.rs\<close>, \<^verbatim>\<open>main.rs\<close>) on the way.

  \<^bold>\<open>The model.\<close> An async task is an iteration function that takes what woke it and the state
  and returns the new state, to go on or to return; \<open>None\<close> is a panic or an iteration that does
  not end (\<open>Task_Loop\<close>). Blocking functions return an error or a value with the state of the
  system. Counters and ports are words of their width; arithmetic that depends on overflow
  checks has the build mode as the argument \<open>chk\<close>. Sharing a channel or a counter between
  tasks is passing its state from one turn to the next.

  \<^item> \<open>Prelude\<close>, \<open>Text\<close>, \<open>Streams\<close>, \<open>Reader\<close>, \<open>Hash_Map\<close>: bytes and words, printing and parsing of numbers
    and addresses, byte streams, ordered readers, hash maps iterated in any order.
  \<^item> \<open>Third_Party\<close>: what is relied on of smoltcp and of tokio's channels, each as a record of
    operations with a predicate that states their documented behaviour and an instance.
  \<^item> \<open>Net_Addr\<close>, \<open>Stack_State\<close>, \<open>Stack_Handlers\<close>, \<open>Stack_Data\<close>, \<open>Stack_Run\<close>: \<^verbatim>\<open>stack/mod.rs\<close>. The record
    \<open>stack\<close> has the maps of the task; there is a definition for each handler and each data path,
    \<open>stack_iteration\<close> is the body of the loop and \<open>run_stack\<close> the loop over its wake-ups.
  \<^item> \<open>Device\<close>: \<^verbatim>\<open>stack/device.rs\<close>. \<open>Socket\<close>: \<^verbatim>\<open>socket/mod.rs\<close>. \<open>Wire\<close>, \<open>Protocol\<close>: \<^verbatim>\<open>protocol.rs\<close>.
  \<^item> \<open>Tap_Config\<close>, \<open>Handshake\<close>, \<open>Ipc_Tasks\<close>, \<open>Tunnel\<close>: \<^verbatim>\<open>lib.rs\<close>, with the command line and the handshake
    of the proxy. \<open>Unix_Socket\<close>: the two \<^verbatim>\<open>ipc.rs\<close>.
  \<^item> \<open>Proxy_System\<close>: \<^verbatim>\<open>namespace.rs\<close>, \<^verbatim>\<open>tap.rs\<close>, \<^verbatim>\<open>route.rs\<close>. \<open>Relay\<close>, \<open>Proxy_Run\<close>: \<^verbatim>\<open>proxy/src/main.rs\<close>, the
    tasks of the relay and the process around them.
  \<^item> \<open>Control\<close>, \<open>Link\<close>, \<open>Downlink\<close>, \<open>Uplink\<close>: the two processes together, as step relations over the
    definitions above.

  \<^bold>\<open>What is shown.\<close>

  \<^item> The stack task (\<open>Stack_Lemmas\<close>, \<open>Stack_Ledger\<close>, \<open>Stack_Invariant\<close>, \<open>Stack_Safety\<close>, \<open>Stack_Types\<close>,
    \<open>Stack_Behaviour\<close>): every request is answered or dropped exactly once, with an answer of its
    type; no run panics; an invariant of its maps; what each handler and data path does.
  \<^item> The way of a frame: down to the TAP device a queue without losses, up from it a queue
    that counts its losses, for every interleaving of the tasks of both processes; both by
    a simulation (\<open>link_refinement\<close>). The two sides agree on the largest frame.
  \<^item> Commands to the proxy: every caller gets its own answer, in whatever order they come.
  \<^item> The handshake: both sides agree on addresses, prefix length and MTU, and the waiting ends;
    the configuration of the proxy is the one the library started it with.
  \<^item> The relay: its tasks neither panic nor get stuck, its memory is bounded, it ends with the
    first of its tasks. A message that is too long puts it out of step.
  \<^item> Sockets: reads are in order and end where the stream ends; closing happens at most once.
  \<^item> Protocol and text: round trips of messages, streams of messages, arguments, statistics.

  \<^bold>\<open>Interfaces.\<close> The laws of a loop are locales (\<open>task_invariant\<close>, \<open>task_invariant_all\<close>, \<open>task_total\<close>,
  \<open>task_ledger\<close>), as are those of a codec (\<open>wire_codec\<close>), of a reader (\<open>ordered_reader\<close>) and of a
  simulation (\<open>link_refinement\<close>); each is interpreted on the definitions of the program.

  \<^bold>\<open>Fuel and bounds.\<close> There is no fuel: loops of the code that need not end are partial functions
  into \<open>option\<close>, and that they return is proved (\<open>drain_channel\<close>, \<open>read_exact_fd\<close>,
  \<open>read_len_prefix\<close>, the data paths). Runs of tasks are finite sequences of turns of any length.
  Statements about overflow of a 64 bit counter are for builds without overflow checks.

  \<^bold>\<open>Not modelled.\<close> smoltcp, tokio, serde_json, clap, rtnetlink, netconfig and the system calls are
  parameters, with what is relied on of them as hypotheses. A runtime that loses wake-ups,
  memory exhaustion and the content of log messages other than the frame trace are out of
  scope, as are \<^verbatim>\<open>random_seed\<close>, smoltcp's \<^verbatim>\<open>FaultInjector\<close>, the unit tests of \<^verbatim>\<open>protocol.rs\<close> and the two
  example programs. The counter of ephemeral ports is global in the code and part of the one
  stack task here. A send that waits for room in a channel is modelled by its effect.
\<close>

section \<open>The two processes together\<close>

text \<open>
  C14: The library and the proxy agree on the largest frame. When the library has set up its
  device from what the proxy announced, the proxy's relay, if it gets that far, reads TAP
  frames of exactly the size of the device's largest frame, and has room for every frame
  the device can send with its type byte, so that none is skipped for its length.
\<close>

theorem frame_sizes_agree:
  assumes "spawned_config chk pid config pc = Some c \<or> connected_config chk local_ip pc = Some c"
    and "setup_stack_from_fd F K Q L nonblocking from_std process_id fd c child gw st = (Inr s, st')"
    and "pc_mtu pc = mtu proxy_side"
  shows "(\<exists>e ost'. run_proxy E chk' turns frame_fd tap_fd tap_mac proxy_side ost = Some (Ready (Inl e), ost')) \<or>
    (\<exists>s0 ost'. run_proxy E chk' turns frame_fd tap_fd tap_mac proxy_side ost =
       map_option (\<lambda>r. (r, ost')) (relay_run E chk' (interface_name proxy_side)
         (cap_max_transmission_unit (capabilities (su_device s))) turns s0) \<and>
       (\<forall>f. length f \<le> cap_max_transmission_unit (capabilities (su_device s)) \<longrightarrow>
          0 < length (encode_frame f) \<and> length (encode_frame f) \<le> length (rr_msg_buf (rl_reader s0))))"
proof -
  have size: "cap_max_transmission_unit (capabilities (su_device s)) = unat (mtu proxy_side) + ETHERNET_HEADER_SIZE"
    using setup_device_size [OF assms(2)] agreed_config [OF assms(1)] assms(3) by simp
  show ?thesis
  proof (cases rule: run_proxy_cases [of E chk' turns frame_fd tap_fd tap_mac proxy_side ost])
    case (relaying s0 ost')
    with size show ?thesis by (intro disjI2 exI [of _ s0] exI [of _ ost']) (simp add: encode_frame_def)
  qed blast
qed

theorem frame_sizes_agree_witness:
  "\<exists>s0 ost'. run_proxy proxy0 True [] 5 7 [2, 0, 0, 0, 0, 9] config0 ([], []) =
      map_option (\<lambda>r. (r, ost')) (relay_run proxy0 True (interface_name config0) 1514 [] s0) \<and>
    1515 \<le> length (rr_msg_buf (rl_reader s0))"
proof -
  let ?cfg = "set_mtu 1500 (set_local_addr (V4 0x0A000002) 24 (set_peer_addr (V4 0x0A000001) 24 tap_config_new))"
  let ?tunnel = "setup_stack_from_fd (chan_mpsc :: (bytes chan, bytes) mpsc) chan_mpsc chan_mpsc script_libc
       (\<lambda>st fd. (Inr (), st)) (\<lambda>st fd. (Inr ((), ()), st)) 1 3 ?cfg None (V4 0x0A000001, []) []"
  have mtu: "pc_mtu pc0 = mtu config0"
    by (simp add: pc0_def config0_def set_peer_addr_def tap_config_new_def tap_config_default_def DEFAULT_MTU_def)
  have "default_client_ip True (V4 0x0A000001) = Some (V4 0x0A000002)"
    by (simp add: default_client_ip_v4 del: default_client_ip.simps)
  then have c: "spawned_config True 1 config0 pc0 = Some ?cfg \<or> connected_config True None pc0 = Some ?cfg"
    by (simp add: connected_config_def pick_client_ip_def pc0_def del: default_client_ip.simps)
  then obtain s st' where s: "?tunnel = (Inr s, st')"
    by (auto simp: setup_stack_from_fd_def setup_config_def set_mtu_def set_local_addr_def set_peer_addr_def Let_def)
  have size: "cap_max_transmission_unit (capabilities (su_device s)) = 1514"
    using setup_device_size [OF s] by (simp add: set_mtu_def ETHERNET_HEADER_SIZE_def)
  have "\<exists>ost'. run_proxy proxy0 True [] 5 7 [2, 0, 0, 0, 0, 9] config0 ([], []) = Some (Pending, ost')"
    by (simp add: run_proxy_def run_frame_relay_def relay_start_def relay_run_def dup_fd_def async_fd_new_def
        proxy0_def async0_def send_arp_def config0_def set_peer_addr_def write_framed_sync_def vec_write_all_def Let_def)
  with frame_sizes_agree [OF c s mtu, of proxy0 True "[]" 5 7 "[2, 0, 0, 0, 0, 9]" "([], [])"]
  obtain s0 ost' where
    r: "run_proxy proxy0 True [] 5 7 [2, 0, 0, 0, 0, 9] config0 ([], []) =
      map_option (\<lambda>r. (r, ost')) (relay_run proxy0 True (interface_name config0) 1514 [] s0)"
    and f: "\<forall>f :: bytes. length f \<le> 1514 \<longrightarrow> length (encode_frame f) \<le> length (rr_msg_buf (rl_reader s0))"
    unfolding size by auto
  from f [rule_format, of "replicate 1514 0"] r show ?thesis
    by (intro exI [of _ s0] exI [of _ ost']) (simp add: encode_frame_def)
qed

end
